(* ===== verification/Go_Prelude.thy ===== *)
theory Go_Prelude
  imports Main "HOL-Library.Word" "HOL-Library.Char_ord" "HOL-Library.List_Lexorder"
begin

unbundle bit_operations_syntax

section \<open>Prelude: the Go data and library functions the components share\<close>

text \<open>
  Text (Go \<open>string\<close> and the \<open>[]byte\<close> payloads the scanners and codecs work on) is a HOL
  \<open>string\<close>, that is a list of 8-bit characters; wire data is a list of \<open>8 word\<close>.
  \<open>uint32\<close> and \<open>uint64\<close> values are words; \<open>int64\<close> values are integers with the wrap-around
  written out (\<open>wrap64\<close>). The loops \<open>for i < len(p) && c(p[i]) { i++ }\<close> of the scanners are
  \<open>skip_while\<close>. The part of \<open>strconv\<close> the code uses is modelled here: decimal output and
  \<open>ParseInt\<close> with its clamping on range errors. The collection \<open>go_eval\<close> holds what evaluates
  closed terms.
\<close>

named_theorems go_eval

type_synonym byte = "8 word"
type_synonym u32 = "32 word"
type_synonym u64 = "64 word"

text \<open>A call either returns or panics (slice bounds, nil receiver, closed channel).\<close>

datatype 'a go = Ret 'a | Panic

fun go_bind :: "'a go \<Rightarrow> ('a \<Rightarrow> 'b go) \<Rightarrow> 'b go" where
  "go_bind (Ret x) f = f x"
| "go_bind Panic f = Panic"

lemma go_bind_Ret_iff: "go_bind m f = Ret y \<longleftrightarrow> (\<exists>x. m = Ret x \<and> f x = Ret y)"
  by (cases m) auto

lemma go_bind_Panic_iff: "go_bind m f = Panic \<longleftrightarrow> m = Panic \<or> (\<exists>x. m = Ret x \<and> f x = Panic)"
  by (cases m) auto

subsection \<open>int64\<close>

definition wrap64 :: "int \<Rightarrow> int" where
  [go_eval]: "wrap64 x = (x + 2 ^ 63) mod 2 ^ 64 - 2 ^ 63"

definition maxInt64 :: int where
  [go_eval]: "maxInt64 = 2 ^ 63 - 1"

definition in_int64 :: "int \<Rightarrow> bool" where
  [go_eval]: "in_int64 x \<longleftrightarrow> - (2 ^ 63) \<le> x \<and> x < 2 ^ 63"

lemma wrap64_id [simp]: "in_int64 x \<Longrightarrow> wrap64 x = x"
  by (simp add: wrap64_def in_int64_def)

lemma wrap64_range [simp, intro]: "in_int64 (wrap64 x)"
  using pos_mod_bound [of "2 ^ 64" "x + 2 ^ 63"] pos_mod_sign [of "2 ^ 64" "x + 2 ^ 63"]
  by (simp add: wrap64_def in_int64_def)

lemma wrap64_cong: "wrap64 x mod 2 ^ 64 = x mod 2 ^ 64"
  by (simp add: wrap64_def mod_diff_left_eq)

lemma wrap64_eqI:
  assumes "x mod 2 ^ 64 = y mod 2 ^ 64"
  shows "wrap64 x = wrap64 y"
  using mod_add_cong [OF assms refl, of "2 ^ 63"] by (simp only: wrap64_def)

lemma wrap64_minus_wrap64: "wrap64 (- wrap64 x) = wrap64 (- x)"
proof (rule wrap64_eqI)
  have "- wrap64 x mod 2 ^ 64 = - (wrap64 x mod 2 ^ 64) mod 2 ^ 64" by (simp only: mod_minus_eq)
  also have "\<dots> = - x mod 2 ^ 64" by (simp only: wrap64_cong mod_minus_eq)
  finally show "- wrap64 x mod 2 ^ 64 = - x mod 2 ^ 64" .
qed

text \<open>Go's integer division truncates towards zero.\<close>

definition go_div :: "int \<Rightarrow> int \<Rightarrow> int" where
  [go_eval]: "go_div a b = sgn a * sgn b * (\<bar>a\<bar> div \<bar>b\<bar>)"

lemma go_div_nonneg: "0 \<le> a \<Longrightarrow> 0 < b \<Longrightarrow> go_div a b = a div b"
  by (cases "a = 0") (simp_all add: go_div_def)

lemma go_div_neg: "0 \<le> a \<Longrightarrow> 0 < b \<Longrightarrow> go_div (- a) b = - (a div b)"
  by (cases "a = 0") (simp_all add: go_div_def)


subsection \<open>Characters, digits and decimal text\<close>

definition code :: "char \<Rightarrow> nat" where
  [go_eval]: "code c = of_char c"

definition is_digit :: "char \<Rightarrow> bool" where
  [go_eval]: "is_digit c \<longleftrightarrow> 48 \<le> code c \<and> code c \<le> 57"

definition digit_val :: "char \<Rightarrow> nat" where
  [go_eval]: "digit_val c = code c - 48"

definition digit_char :: "nat \<Rightarrow> char" where
  [go_eval]: "digit_char n = char_of (48 + n)"

definition NUL :: char where
  [go_eval]: "NUL = CHR 0x00"

definition is_space :: "char \<Rightarrow> bool" where
  [go_eval]: "is_space b \<longleftrightarrow> b = CHR '' '' \<or> b = CHR 0x09 \<or> b = CHR 0x0A \<or> b = CHR 0x0D"

lemma code_digit_char: "n < 10 \<Longrightarrow> code (digit_char n) = 48 + n"
  by (simp add: code_def digit_char_def)

lemma is_digit_digit_char [simp]: "n < 10 \<Longrightarrow> is_digit (digit_char n)"
  by (simp add: is_digit_def code_digit_char)

lemma digit_val_digit_char [simp]: "n < 10 \<Longrightarrow> digit_val (digit_char n) = n"
  by (simp add: digit_val_def code_digit_char)

lemma digit_val_less [simp]: "is_digit c \<Longrightarrow> digit_val c < 10"
  by (auto simp: digit_val_def is_digit_def)

lemma is_digit_ne:
  "is_digit c \<Longrightarrow> c \<noteq> CHR ''-'' \<and> c \<noteq> CHR ''+'' \<and> c \<noteq> CHR ''.'' \<and> c \<noteq> CHR 0x22 \<and> c \<noteq> NUL
     \<and> \<not> is_space c"
  by (auto simp: is_digit_def code_def NUL_def is_space_def)

text \<open>\<open>strconv.AppendUint\<close> and \<open>strconv.AppendInt\<close>, base 10.\<close>

fun dec_nat :: "nat \<Rightarrow> string" where
  "dec_nat n = (if n < 10 then [digit_char n] else dec_nat (n div 10) @ [digit_char (n mod 10)])"

declare dec_nat.simps [simp del]

definition appendUint :: "string \<Rightarrow> nat \<Rightarrow> string" where
  [go_eval]: "appendUint buf v = buf @ dec_nat v"

definition appendInt :: "string \<Rightarrow> int \<Rightarrow> string" where
  [go_eval]: "appendInt buf v = buf @ (if v < 0 then CHR ''-'' # dec_nat (nat (- v)) else dec_nat (nat v))"

text \<open>The value of a digit string.\<close>

definition dec_val :: "string \<Rightarrow> nat" where
  [go_eval]: "dec_val s = foldl (\<lambda>a c. a * 10 + digit_val c) 0 s"

lemma dec_val_Nil [simp]: "dec_val [] = 0"
  by (simp add: dec_val_def)

lemma dec_val_snoc [simp]: "dec_val (s @ [c]) = dec_val s * 10 + digit_val c"
  by (simp add: dec_val_def)

lemma dec_val_append: "dec_val (s @ t) = dec_val s * 10 ^ length t + dec_val t"
proof (induction t rule: rev_induct)
  case (snoc c t)
  have "dec_val (s @ t @ [c]) = dec_val (s @ t) * 10 + digit_val c"
    using dec_val_snoc [of "s @ t" c] by simp
  then show ?case using snoc by (simp add: algebra_simps)
qed simp

lemma dec_val_Cons: "dec_val (c # t) = digit_val c * 10 ^ length t + dec_val t"
  using dec_val_append [of "[c]" t] dec_val_snoc [of "[]" c] by simp

lemma dec_val_replicate0 [simp]: "dec_val (replicate n (CHR ''0'')) = 0"
  by (induction n) (simp_all add: dec_val_Cons digit_val_def code_def)

lemma dec_val_less: "\<forall>c \<in> set s. is_digit c \<Longrightarrow> dec_val s < 10 ^ length s"
proof (induction s rule: rev_induct)
  case (snoc c s)
  then have "dec_val s < 10 ^ length s" and "digit_val c < 10" by simp_all
  then show ?case by simp
qed simp

lemma dec_nat_digits: "c \<in> set (dec_nat n) \<Longrightarrow> is_digit c"
proof (induction n rule: dec_nat.induct)
  case (1 n)
  then show ?case by (cases "n < 10") (auto simp: dec_nat.simps [of n])
qed

lemma dec_nat_nonempty [simp]: "dec_nat n \<noteq> []"
  by (simp add: dec_nat.simps [of n])

lemma dec_val_dec_nat [simp]: "dec_val (dec_nat n) = n"
proof (induction n rule: dec_nat.induct)
  case (1 n)
  show ?case
  proof (cases "n < 10")
    case True
    then show ?thesis using dec_val_snoc [of "[]"] by (simp add: dec_nat.simps [of n])
  next
    case False
    with 1 show ?thesis by (simp add: dec_nat.simps [of n])
  qed
qed

lemma dec_nat_hd: "hd (dec_nat n) = CHR ''0'' \<Longrightarrow> n = 0"
proof (induction n rule: dec_nat.induct)
  case (1 n)
  show ?case
  proof (cases "n < 10")
    case True
    with 1 have "code (digit_char n) = 48" by (simp add: dec_nat.simps [of n] code_def)
    with True show ?thesis by (simp add: code_digit_char)
  next
    case False
    with 1 have "n div 10 = 0" by (simp add: dec_nat.simps [of n])
    with False show ?thesis by simp
  qed
qed

lemma dec_nat_length_le: "n < 10 ^ k \<Longrightarrow> 0 < k \<Longrightarrow> length (dec_nat n) \<le> k"
proof (induction n arbitrary: k rule: dec_nat.induct)
  case (1 n)
  show ?case
  proof (cases "n < 10")
    case True
    with 1 show ?thesis by (simp add: dec_nat.simps [of n])
  next
    case False
    then have "k \<noteq> 1" using 1(2) by auto
    with 1(3) obtain j where j: "k = Suc j" "0 < j" by (cases k) auto
    then have "n div 10 < 10 ^ j" using 1(2) by (simp add: less_mult_imp_div_less mult.commute)
    with 1(1) False j show ?thesis by (simp add: dec_nat.simps [of n])
  qed
qed


subsection \<open>strconv.ParseInt, base 10, 64 bits\<close>

text \<open>
  \<open>ParseUint\<close> stops at the first character that is no digit (syntax error) or at the first
  digit that takes the value past \<open>2 ^ 64 - 1\<close> (range error), whichever comes first;
  \<open>ParseInt\<close> returns 0 with a syntax error, and clamps with a range error. The value is
  returned beside the error, as in Go, because one caller ignores the error.
\<close>

datatype num_error = ErrSyntax | ErrRange

fun parseUint_loop :: "string \<Rightarrow> nat \<Rightarrow> num_error + nat" where
  "parseUint_loop [] n = Inr n"
| "parseUint_loop (c # cs) n =
     (if \<not> is_digit c then Inl ErrSyntax
      else if 1844674407370955162 \<le> n then Inl ErrRange
      else if 2 ^ 64 - 1 < n * 10 + digit_val c then Inl ErrRange
      else parseUint_loop cs (n * 10 + digit_val c))"

definition parseInt :: "string \<Rightarrow> int \<times> num_error option" where
  [go_eval]: "parseInt s =
     (if s = [] then (0, Some ErrSyntax)
      else let neg = (hd s = CHR ''-'');
               rest = (if hd s = CHR ''-'' \<or> hd s = CHR ''+'' then tl s else s)
           in if rest = [] then (0, Some ErrSyntax)
              else case parseUint_loop rest 0 of
                Inl ErrSyntax \<Rightarrow> (0, Some ErrSyntax)
              | Inl ErrRange \<Rightarrow> (if neg then - (2 ^ 63) else 2 ^ 63 - 1, Some ErrRange)
              | Inr un \<Rightarrow>
                  if \<not> neg \<and> 2 ^ 63 \<le> un then (2 ^ 63 - 1, Some ErrRange)
                  else if neg \<and> 2 ^ 63 < un then (- (2 ^ 63), Some ErrRange)
                  else (if neg then - int un else int un, None))"

lemma parseUint_loop_ok:
  "parseUint_loop s n = Inr m \<Longrightarrow> (\<forall>c \<in> set s. is_digit c) \<and> m = n * 10 ^ length s + dec_val s"
proof (induction s arbitrary: n)
  case (Cons c s)
  then have "is_digit c" and "parseUint_loop s (n * 10 + digit_val c) = Inr m"
    by (auto split: if_splits)
  with Cons.IH show ?case by (fastforce simp: dec_val_Cons algebra_simps)
qed simp

lemma parseUint_loop_digits:
  "\<forall>c \<in> set s. is_digit c \<Longrightarrow> n * 10 ^ length s + dec_val s < 2 ^ 64 \<Longrightarrow>
     parseUint_loop s n = Inr (n * 10 ^ length s + dec_val s)"
proof (induction s arbitrary: n)
  case (Cons c s)
  let ?n1 = "n * 10 + digit_val c"
  have eq: "n * 10 ^ length (c # s) + dec_val (c # s) = ?n1 * 10 ^ length s + dec_val s"
    by (simp add: dec_val_Cons algebra_simps)
  then have "?n1 * 10 ^ length s \<le> 2 ^ 64 - 1" using Cons.prems(2) by simp
  moreover have "?n1 \<le> ?n1 * 10 ^ length s" by simp
  ultimately have "?n1 \<le> 2 ^ 64 - 1" by (rule order_trans [rotated])
  with Cons.prems eq Cons.IH [of ?n1] show ?case by simp
qed simp

lemma parseInt_in_int64: "in_int64 (fst (parseInt s))"
  by (auto simp: parseInt_def Let_def in_int64_def split: sum.split num_error.split)

lemma parseInt_dec_nat:
  assumes "n < 2 ^ 63"
  shows "parseInt (dec_nat n) = (int n, None)"
proof -
  have d: "\<forall>c \<in> set (dec_nat n). is_digit c" by (blast dest: dec_nat_digits)
  then have "is_digit (hd (dec_nat n))" by simp
  then have "hd (dec_nat n) \<noteq> CHR ''-''" "hd (dec_nat n) \<noteq> CHR ''+''" by (auto dest: is_digit_ne)
  moreover have "parseUint_loop (dec_nat n) 0 = Inr n"
    using parseUint_loop_digits [OF d, of 0] assms by simp
  ultimately show ?thesis using assms by (simp add: parseInt_def)
qed

subsection \<open>The scanners' index loops\<close>

function skip_while :: "('a \<Rightarrow> bool) \<Rightarrow> 'a list \<Rightarrow> nat \<Rightarrow> nat" where
  "skip_while P xs i = (if i < length xs \<and> P (xs ! i) then skip_while P xs (Suc i) else i)"
  by pat_completeness auto
termination
  by (relation "measure (\<lambda>(P, xs, i). length xs - i)") auto

declare skip_while.simps [simp del]

lemma skip_while_ge: "i \<le> skip_while P xs i"
proof (induction P xs i rule: skip_while.induct)
  case (1 P xs i)
  then show ?case by (cases "i < length xs \<and> P (xs ! i)") (auto simp: skip_while.simps [of P xs i])
qed

lemma skip_while_le: "i \<le> length xs \<Longrightarrow> skip_while P xs i \<le> length xs"
proof (induction P xs i rule: skip_while.induct)
  case (1 P xs i)
  then show ?case by (cases "i < length xs \<and> P (xs ! i)") (auto simp: skip_while.simps [of P xs i])
qed

lemma skip_while_stop: "skip_while P xs i < length xs \<Longrightarrow> \<not> P (xs ! skip_while P xs i)"
proof (induction P xs i rule: skip_while.induct)
  case (1 P xs i)
  then show ?case by (cases "i < length xs \<and> P (xs ! i)") (auto simp: skip_while.simps [of P xs i])
qed

text \<open>The loop as a function of the text that is left.\<close>

lemma skip_while_append:
  "skip_while P (pre @ xs) (length pre) = length pre + length (takeWhile P xs)"
proof (induction xs arbitrary: pre)
  case Nil
  then show ?case by (simp add: skip_while.simps [of P])
next
  case (Cons x xs)
  show ?case
    using Cons [of "pre @ [x]"] by (subst skip_while.simps) (simp add: nth_append)
qed

lemma skip_while_eq:
  assumes "i \<le> length xs"
  shows "skip_while P xs i = i + length (takeWhile P (drop i xs))"
  using skip_while_append [of P "take i xs" "drop i xs"] assms by simp

lemma skip_while_between:
  assumes "i \<le> j" "j < skip_while P xs i"
  shows "j < length xs \<and> P (xs ! j)"
proof -
  have le: "i \<le> length xs"
  proof (rule ccontr)
    assume "\<not> i \<le> length xs"
    then have "skip_while P xs i = i" by (simp add: skip_while.simps [of P xs i])
    with assms show False by simp
  qed
  with assms have j: "j - i < length (takeWhile P (drop i xs))" by (simp add: skip_while_eq)
  then have "takeWhile P (drop i xs) ! (j - i) = xs ! j"
    using assms(1) le by (simp add: takeWhile_nth)
  moreover have "P (takeWhile P (drop i xs) ! (j - i))" using nth_mem [OF j] set_takeWhileD by metis
  moreover have "j < length xs"
    using j assms(1) length_takeWhile_le [of P "drop i xs"] by simp
  ultimately show ?thesis by simp
qed

lemmas skip_while_facts = skip_while_ge skip_while_le skip_while_stop skip_while_between

text \<open>\<open>p[a:b]\<close> of a slice: the bytes from a to b.\<close>

definition slice :: "'a list \<Rightarrow> nat \<Rightarrow> nat \<Rightarrow> 'a list" where
  [go_eval]: "slice xs a b = take (b - a) (drop a xs)"

lemma slice_skip_while:
  "i \<le> length xs \<Longrightarrow> slice xs i (skip_while P xs i) = takeWhile P (drop i xs)"
  by (simp add: slice_def skip_while_eq) (rule takeWhile_eq_take [symmetric])


subsection \<open>Bytes of integers and of text\<close>

text \<open>\<open>n\<close> bytes of an integer, least significant first, and back; big endian is the reverse.\<close>

fun enc_le :: "nat \<Rightarrow> int \<Rightarrow> byte list" where
  "enc_le 0 v = []"
| "enc_le (Suc n) v = word_of_int v # enc_le n (v div 256)"

fun dec_le :: "byte list \<Rightarrow> int" where
  "dec_le [] = 0"
| "dec_le (b # bs) = uint b + 256 * dec_le bs"

definition enc_be :: "nat \<Rightarrow> int \<Rightarrow> byte list" where
  [go_eval]: "enc_be n v = rev (enc_le n v)"

definition dec_be :: "byte list \<Rightarrow> int" where
  [go_eval]: "dec_be bs = dec_le (rev bs)"

lemma length_enc_le [simp]: "length (enc_le n v) = n"
  by (induction n arbitrary: v) auto

lemma length_enc_be [simp]: "length (enc_be n v) = n"
  by (simp add: enc_be_def)

lemma dec_enc_le: "dec_le (enc_le n v) = v mod 256 ^ n"
proof (induction n arbitrary: v)
  case (Suc n)
  have "v mod (256 * 256 ^ n) = 256 * (v div 256 mod 256 ^ n) + v mod 256"
    by (rule zmod_zmult2_eq) simp
  with Suc show ?case by (simp add: uint_word_of_int)
qed simp

lemma dec_enc_be: "dec_be (enc_be n v) = v mod 256 ^ n"
  by (simp add: dec_be_def enc_be_def dec_enc_le)

lemma wrap64_dec_enc_le [simp]: "in_int64 v \<Longrightarrow> wrap64 (dec_le (enc_le 8 v)) = v"
proof -
  assume v: "in_int64 v"
  have "wrap64 (v mod 2 ^ 64) = wrap64 v" by (rule wrap64_eqI) simp
  with v show ?thesis by (simp add: dec_enc_le)
qed

lemma dec_le_bounds: "0 \<le> dec_le bs \<and> dec_le bs < 256 ^ length bs"
proof (induction bs)
  case (Cons b bs)
  have "uint b < 256" "0 \<le> uint b" using uint_bounded [of b] by simp_all
  with Cons show ?case by simp
qed simp

lemma dec_be_bounds: "0 \<le> dec_be bs \<and> dec_be bs < 256 ^ length bs"
  using dec_le_bounds [of "rev bs"] by (simp add: dec_be_def)

text \<open>\<open>[]byte(s)\<close> and \<open>string(b)\<close>: the same bytes.\<close>

definition bytes_of :: "string \<Rightarrow> byte list" where
  [go_eval]: "bytes_of s = map of_char s"

definition text_of :: "byte list \<Rightarrow> string" where
  [go_eval]: "text_of bs = map (\<lambda>b. char_of (unat b)) bs"

lemma length_bytes_of [simp]: "length (bytes_of s) = length s"
  by (simp add: bytes_of_def)

lemma length_text_of [simp]: "length (text_of bs) = length bs"
  by (simp add: text_of_def)

lemma unat_of_char: "unat (of_char c :: byte) = of_char c"
proof -
  have "(of_char c :: byte) = of_nat (of_char c)" by (simp only: of_nat_of_char)
  moreover have "of_char c = (of_char c mod 256 :: nat)" by simp
  ultimately show ?thesis by (simp add: unat_of_nat)
qed

lemma of_char_char_of_unat: "of_char (char_of (unat b)) = (b :: byte)"
proof -
  have "unat b < 256" using unsigned_less [of b] by simp
  then have "of_nat (of_char (char_of (unat b))) = b" by simp
  then show ?thesis by (simp only: of_nat_of_char)
qed

lemma text_of_bytes_of [simp]: "text_of (bytes_of s) = s"
  by (induction s) (simp_all add: text_of_def bytes_of_def unat_of_char)

lemma bytes_of_text_of [simp]: "bytes_of (text_of bs) = bs"
  by (induction bs) (simp_all add: text_of_def bytes_of_def of_char_char_of_unat)

lemma bytes_of_eq_iff [simp]: "bytes_of s = bytes_of t \<longleftrightarrow> s = t"
  by (metis text_of_bytes_of)

end
