(* ===== verification/Adapter_Types.thy ===== *)
theory Adapter_Types
  imports Go_Prelude
begin

section \<open>The adapter package: the data every service exchanges\<close>

text \<open>
  \<open>libs/adapter\<close> and \<open>libs/adapter/enum\<close>: open \<open>uint8\<close> enums with their \<open>IsAvailable\<close> range
  tests, the scaled integer \<open>Decimal\<close> and its text, the fixed arrays \<open>Str64\<close> and \<open>Symbol\<close>, and
  the records \<open>Depth\<close>, \<open>Order\<close>, \<open>OrderIntent\<close>, \<open>OrderRequest\<close>, \<open>OrderResponse\<close>,
  \<open>IngestRequest\<close> and \<open>Token\<close>. A Go array is a list of its length (predicates \<open>wf_\<dots>\<close>).
  The lemmas show the round trips of the arrays and the shape of the decimal text.
\<close>

subsection \<open>enum: platforms, topics and order attributes\<close>

text \<open>
  Go enums are open: any \<open>uint8\<close> is a value of the type, so they are bytes here too, and the
  declared names are constants. The unexported \<open>_beg\<close> and \<open>_end\<close> values bound the range test.
\<close>

type_synonym Platform = byte
type_synonym Topic = byte
type_synonym OrderAction = byte
type_synonym OrderSide = byte
type_synonym OrderType = byte
type_synonym OrderStatus = byte
type_synonym OrderTimeInForce = byte

definition PlatformBTCC :: Platform where [simp]: "PlatformBTCC = 1"
definition PlatformBinance :: Platform where [simp]: "PlatformBinance = 2"
definition platform_end :: Platform where [simp]: "platform_end = 3"

definition Platform_IsAvailable :: "Platform \<Rightarrow> bool" where
  "Platform_IsAvailable p \<longleftrightarrow> 0 < p \<and> p < platform_end"

definition TopicDepth :: Topic where [simp]: "TopicDepth = 1"
definition TopicOrder :: Topic where [simp]: "TopicOrder = 2"
definition topic_end :: Topic where [simp]: "topic_end = 3"

definition Topic_IsAvailable :: "Topic \<Rightarrow> bool" where
  "Topic_IsAvailable t \<longleftrightarrow> 0 < t \<and> t < topic_end"

definition OrderActionPlaceOrder :: OrderAction where [simp]: "OrderActionPlaceOrder = 1"
definition OrderActionCancelOrder :: OrderAction where [simp]: "OrderActionCancelOrder = 2"

definition OrderAction_IsAvailable :: "OrderAction \<Rightarrow> bool" where
  "OrderAction_IsAvailable t \<longleftrightarrow> 0 < t \<and> t < 3"

definition OrderSideBuy :: OrderSide where [simp]: "OrderSideBuy = 1"
definition OrderSideSell :: OrderSide where [simp]: "OrderSideSell = 2"

definition OrderSide_IsAvailable :: "OrderSide \<Rightarrow> bool" where
  "OrderSide_IsAvailable s \<longleftrightarrow> 0 < s \<and> s < 3"

definition OrderTypeLimit :: OrderType where [simp]: "OrderTypeLimit = 1"
definition OrderTypeMarket :: OrderType where [simp]: "OrderTypeMarket = 2"

definition OrderType_IsAvailable :: "OrderType \<Rightarrow> bool" where
  "OrderType_IsAvailable t \<longleftrightarrow> 0 < t \<and> t < 3"

definition OrderStatusPlaced :: OrderStatus where [simp]: "OrderStatusPlaced = 1"
definition OrderStatusPartialFilled :: OrderStatus where [simp]: "OrderStatusPartialFilled = 2"
definition OrderStatusFilled :: OrderStatus where [simp]: "OrderStatusFilled = 3"
definition OrderStatusCanceled :: OrderStatus where [simp]: "OrderStatusCanceled = 4"
definition OrderStatusExpired :: OrderStatus where [simp]: "OrderStatusExpired = 5"

definition OrderStatus_IsAvailable :: "OrderStatus \<Rightarrow> bool" where
  "OrderStatus_IsAvailable s \<longleftrightarrow> 0 < s \<and> s < 6"

definition OrderTimeInForceGTC :: OrderTimeInForce where [simp]: "OrderTimeInForceGTC = 1"
definition OrderTimeInForceIOC :: OrderTimeInForce where [simp]: "OrderTimeInForceIOC = 2"
definition OrderTimeInForceFOK :: OrderTimeInForce where [simp]: "OrderTimeInForceFOK = 3"

definition OrderTimeInForce_IsAvailable :: "OrderTimeInForce \<Rightarrow> bool" where
  "OrderTimeInForce_IsAvailable s \<longleftrightarrow> 0 < s \<and> s < 4"

lemmas IsAvailable_defs = Platform_IsAvailable_def Topic_IsAvailable_def
  OrderAction_IsAvailable_def OrderSide_IsAvailable_def OrderType_IsAvailable_def
  OrderStatus_IsAvailable_def OrderTimeInForce_IsAvailable_def

lemma byte_less_3: "(0::byte) < p \<and> p < 3 \<longleftrightarrow> p = 1 \<or> p = 2"
proof
  assume a: "0 < p \<and> p < 3"
  then have "unat p = 1 \<or> unat p = 2" by (auto simp: word_less_nat_alt)
  then show "p = 1 \<or> p = 2" by (auto simp: word_unat_eq_iff)
qed auto

lemma Platform_IsAvailable_iff: "Platform_IsAvailable p \<longleftrightarrow> p = PlatformBTCC \<or> p = PlatformBinance"
  by (simp add: Platform_IsAvailable_def byte_less_3)

lemma Topic_IsAvailable_iff: "Topic_IsAvailable t \<longleftrightarrow> t = TopicDepth \<or> t = TopicOrder"
  by (simp add: Topic_IsAvailable_def byte_less_3)

subsection \<open>common.go: Decimal\<close>

record Decimal =
  Integer :: int
  Scale :: int

definition NewDecimal :: "int \<Rightarrow> int \<Rightarrow> Decimal" where
  "NewDecimal integer scale = \<lparr>Integer = integer, Scale = scale\<rparr>"

definition zero_Decimal :: Decimal where
  "zero_Decimal = \<lparr>Integer = 0, Scale = 0\<rparr>"

text \<open>\<open>buf = buf[:0]\<close> drops what the caller had in the buffer: the result starts afresh.\<close>

definition appendScaledInt :: "string \<Rightarrow> int \<Rightarrow> int \<Rightarrow> string" where
  [go_eval]: "appendScaledInt buf value scale =
     (let buf = take 0 buf in
      if scale \<le> 0 then appendInt buf value
      else
        let neg = value < 0;
            u = (if neg then NOT (of_int value) + 1 else of_int value :: u64);
            digits = appendUint [] (unat u);
            buf = (if neg then buf @ [CHR ''-''] else buf)
        in if int (length digits) \<le> scale
           then buf @ [CHR ''0'', CHR ''.''] @ replicate (nat (scale - int (length digits))) (CHR ''0'') @ digits
           else let idx = nat (int (length digits) - scale)
                in buf @ take idx digits @ [CHR ''.''] @ drop idx digits)"

definition Decimal_AppendBytes :: "Decimal \<Rightarrow> string \<Rightarrow> string" where
  [go_eval]: "Decimal_AppendBytes d buf = appendScaledInt buf (Integer d) (Scale d)"

text \<open>Two's complement negation of the bit pattern is the absolute value, also at \<open>- 2 ^ 63\<close>.\<close>

lemma unat_abs_word:
  assumes "in_int64 v"
  shows "unat (if v < 0 then NOT (of_int v) + 1 else of_int v :: u64) = nat \<bar>v\<bar>"
proof (cases "v < 0")
  case True
  have "NOT (of_int v :: u64) + 1 = word_of_int (- v)"
    by (simp add: not_eq_complement)
  moreover have "uint (word_of_int (- v) :: u64) = - v"
    unfolding uint_word_of_int_eq
    by (rule take_bit_int_eq_self) (use assms True in \<open>simp_all add: in_int64_def\<close>)
  ultimately show ?thesis using True unfolding unat_eq_nat_uint by simp
next
  case False
  then have "uint (of_int v :: u64) = v"
    using assms by (simp add: uint_word_of_int_eq in_int64_def take_bit_int_eq_self)
  with False show ?thesis by (simp add: unat_eq_nat_uint)
qed

lemma appendScaledInt_buf: "NO_MATCH [] buf \<Longrightarrow> appendScaledInt buf v s = appendScaledInt [] v s"
  by (simp add: appendScaledInt_def)

lemma Decimal_AppendBytes_buf: "NO_MATCH [] buf \<Longrightarrow> Decimal_AppendBytes d buf = Decimal_AppendBytes d []"
  by (simp add: Decimal_AppendBytes_def appendScaledInt_def)

definition sign_text :: "int \<Rightarrow> string" where
  [go_eval]: "sign_text v = (if v < 0 then ''-'' else [])"

text \<open>
  The decimal text: a sign, the integer digits, and for a positive scale a dot and exactly
  \<open>scale\<close> fraction digits. Both digit groups read back to the scaled integer.
\<close>

lemma appendScaledInt_shape:
  assumes "in_int64 v" and "0 < s"
  obtains ip fp where "appendScaledInt buf v s = sign_text v @ ip @ [CHR ''.''] @ fp"
    and "ip \<noteq> []" and "\<forall>c \<in> set ip. is_digit c" and "\<forall>c \<in> set fp. is_digit c"
    and "int (length fp) = s" and "dec_val ip * 10 ^ nat s + dec_val fp = nat \<bar>v\<bar>"
proof -
  define digits where "digits = dec_nat (nat \<bar>v\<bar>)"
  have u: "unat (if v < 0 then NOT (of_int v) + 1 else of_int v :: u64) = nat \<bar>v\<bar>"
    using assms(1) by (rule unat_abs_word)
  have zero_digit: "is_digit (CHR ''0'')" "dec_val ''0'' = 0"
    by (simp_all add: is_digit_def code_def dec_val_Cons digit_val_def)
  have dig: "\<forall>c \<in> set digits. is_digit c" and val: "dec_val digits = nat \<bar>v\<bar>"
    by (auto simp: digits_def dest: dec_nat_digits)
  show ?thesis
  proof (cases "int (length digits) \<le> s")
    case True
    let ?fp = "replicate (nat (s - int (length digits))) (CHR ''0'') @ digits"
    have "appendScaledInt buf v s = sign_text v @ ''0'' @ [CHR ''.''] @ ?fp"
      using True assms(2) u
      by (auto simp: appendScaledInt_def digits_def [symmetric] appendUint_def Let_def sign_text_def)
    moreover have "dec_val ?fp = nat \<bar>v\<bar>" by (simp add: dec_val_append val)
    ultimately show ?thesis
      using that [of "''0''" ?fp] True dig assms(2) zero_digit by (auto simp: set_replicate_conv_if)
  next
    case False
    define idx where "idx = nat (int (length digits) - s)"
    have idx: "idx \<le> length digits" "0 < idx" "length (drop idx digits) = nat s"
      using False assms(2) by (auto simp: idx_def)
    have "appendScaledInt buf v s = sign_text v @ take idx digits @ [CHR ''.''] @ drop idx digits"
      using False assms(2) u
      by (auto simp: appendScaledInt_def digits_def [symmetric] appendUint_def Let_def sign_text_def idx_def)
    moreover have "dec_val (take idx digits) * 10 ^ nat s + dec_val (drop idx digits) = nat \<bar>v\<bar>"
      using dec_val_append [of "take idx digits" "drop idx digits"] idx(3) val by simp
    moreover have "take idx digits \<noteq> []" using idx by (cases digits) auto
    moreover have "int (length (drop idx digits)) = s" using idx(3) assms(2) by simp
    moreover have "\<forall>c \<in> set (take idx digits). is_digit c" "\<forall>c \<in> set (drop idx digits). is_digit c"
      using dig by (auto dest: in_set_takeD in_set_dropD)
    ultimately show ?thesis by (intro that)
  qed
qed

lemma appendScaledInt_unscaled:
  assumes "s \<le> 0"
  shows "appendScaledInt buf v s = sign_text v @ dec_nat (nat \<bar>v\<bar>)"
  using assms by (simp add: appendScaledInt_def appendInt_def sign_text_def)

end
