(* ===== verification/Adapter_Symbol.thy ===== *)
theory Adapter_Symbol
  imports Adapter_Types
begin

section \<open>Str64, Symbol and Token: the fixed-size text arrays\<close>

text \<open>
  \<open>libs/adapter/str64.go\<close>, \<open>symbol.go\<close> and \<open>token.go\<close>. \<open>NewSymbol\<close> walks a Go string with
  \<open>for i := range base\<close>, which yields the byte offsets of UTF-8 runes; \<open>rune_len\<close> is the
  width rule of \<open>unicode/utf8\<close>, so the model also says what happens to text that is not ASCII.
  The lemmas give the round trips and their exact preconditions.
\<close>

subsection \<open>str64.go\<close>

type_synonym Str64 = string

definition wf_Str64 :: "Str64 \<Rightarrow> bool" where
  [go_eval]: "wf_Str64 s \<longleftrightarrow> length s = 64"

text \<open>\<open>copy(dst, src)\<close> into an array: the common prefix is overwritten.\<close>

definition copy_into :: "'a list \<Rightarrow> 'a list \<Rightarrow> 'a list" where
  [go_eval]: "copy_into dst src = take (length dst) src @ drop (length src) dst"

lemma length_copy_into [simp]: "length (copy_into dst src) = length dst"
  by (simp add: copy_into_def)

definition NewStr64 :: "string \<Rightarrow> Str64" where
  [go_eval]: "NewStr64 s = copy_into (replicate 64 NUL) s"

fun Str64_append_loop :: "string \<Rightarrow> string \<Rightarrow> string" where
  "Str64_append_loop [] buf = buf"
| "Str64_append_loop (c # cs) buf = Str64_append_loop cs (if c \<noteq> NUL then buf @ [c] else buf)"

definition Str64_AppendBytes :: "Str64 \<Rightarrow> string \<Rightarrow> string" where
  "Str64_AppendBytes bs buf = Str64_append_loop bs (take 0 buf)"

definition Str64_Slice :: "Str64 \<Rightarrow> string" where
  "Str64_Slice bs = Str64_AppendBytes bs []"

definition Str64_String :: "Str64 \<Rightarrow> string" where
  "Str64_String bs = Str64_Slice bs"

definition Str64_Len :: "Str64 \<Rightarrow> nat" where
  "Str64_Len bs = foldl (\<lambda>l c. if c \<noteq> NUL then l + 1 else l) 0 bs"

lemma Str64_append_loop_eq: "Str64_append_loop bs buf = buf @ filter (\<lambda>c. c \<noteq> NUL) bs"
  by (induction bs arbitrary: buf) auto

lemma Str64_AppendBytes_eq [simp]: "Str64_AppendBytes bs buf = filter (\<lambda>c. c \<noteq> NUL) bs"
  by (simp add: Str64_AppendBytes_def Str64_append_loop_eq)

lemma Str64_String_eq: "Str64_String bs = filter (\<lambda>c. c \<noteq> NUL) bs"
  by (simp add: Str64_String_def Str64_Slice_def)

lemma Str64_Len_String: "Str64_Len bs = length (Str64_String bs)"
proof -
  have "foldl (\<lambda>l c. if c \<noteq> NUL then l + 1 else l) n bs = n + length (filter (\<lambda>c. c \<noteq> NUL) bs)" for n
    by (induction bs arbitrary: n) auto
  then show ?thesis by (simp add: Str64_Len_def Str64_String_eq)
qed

lemma wf_NewStr64 [simp]: "wf_Str64 (NewStr64 s)"
  by (simp add: wf_Str64_def NewStr64_def)

lemma filter_NUL_id: "NUL \<notin> set s \<Longrightarrow> filter (\<lambda>c. c \<noteq> NUL) s = s"
  by (auto simp: filter_id_conv)

lemma Str64_String_New: "NUL \<notin> set s \<Longrightarrow> Str64_String (NewStr64 s) = take 64 s"
  by (simp add: Str64_String_eq NewStr64_def copy_into_def)
    (metis filter_NUL_id in_set_takeD)

subsection \<open>symbol.go\<close>

definition baseCap :: nat where [simp]: "baseCap = 16"
definition quoteCap :: nat where [simp]: "quoteCap = 16"
definition memoCap :: nat where [simp]: "memoCap = 0"
definition SymbolCap :: nat where [simp]: "SymbolCap = baseCap + quoteCap + memoCap"

type_synonym Symbol = string

definition wf_Symbol :: "Symbol \<Rightarrow> bool" where
  "wf_Symbol s \<longleftrightarrow> length s = SymbolCap"

text \<open>
  The width of the rune at the start of a non-empty string: the table of
  \<open>unicode/utf8\<close>; an invalid sequence counts one byte.
\<close>

definition cont_between :: "nat \<Rightarrow> nat \<Rightarrow> string \<Rightarrow> nat \<Rightarrow> bool" where
  "cont_between lo hi s k \<longleftrightarrow> k < length s \<and> lo \<le> code (s ! k) \<and> code (s ! k) \<le> hi"

definition rune_len :: "string \<Rightarrow> nat" where
  "rune_len s =
     (let b = code (hd s);
          lo = (if b = 224 then 160 else if b = 240 then 144 else 128);
          hi = (if b = 237 then 159 else if b = 244 then 143 else 191);
          c2 = cont_between lo hi s 1; c3 = cont_between 128 191 s 2; c4 = cont_between 128 191 s 3
      in if b < 128 then 1
         else if 194 \<le> b \<and> b \<le> 223 then (if c2 then 2 else 1)
         else if 224 \<le> b \<and> b \<le> 239 then (if c2 \<and> c3 then 3 else 1)
         else if 240 \<le> b \<and> b \<le> 244 then (if c2 \<and> c3 \<and> c4 then 4 else 1)
         else 1)"

lemma rune_len_pos [simp]: "0 < rune_len s"
  by (simp add: rune_len_def Let_def)

text \<open>The indices of \<open>for i := range s\<close>.\<close>

function range_offsets :: "nat \<Rightarrow> string \<Rightarrow> nat list" where
  "range_offsets off s =
     (if s = [] then [] else off # range_offsets (off + rune_len s) (drop (rune_len s) s))"
  by pat_completeness auto
termination
  by (relation "measure (\<lambda>(off, s). length s)") auto

declare range_offsets.simps [simp del]

definition fill_runes :: "nat \<Rightarrow> nat \<Rightarrow> string \<Rightarrow> Symbol \<Rightarrow> Symbol" where
  "fill_runes off lim src s =
     foldl (\<lambda>s i. s[off + i := src ! i]) s (takeWhile (\<lambda>i. i < lim) (range_offsets 0 src))"

definition NewSymbol :: "string \<Rightarrow> string \<Rightarrow> string list \<Rightarrow> Symbol" where
  "NewSymbol base quote memo =
     (let s = replicate SymbolCap NUL;
          s = fill_runes 0 baseCap base s;
          s = fill_runes baseCap quoteCap quote s
      in if memo \<noteq> [] then fill_runes (baseCap + quoteCap) memoCap (memo ! 0) s else s)"

definition Symbol_Encode :: "string \<Rightarrow> string \<Rightarrow> string \<Rightarrow> Symbol" where
  "Symbol_Encode base quote memo = NewSymbol base quote [memo]"

definition Symbol_Decode :: "Symbol \<Rightarrow> string \<times> string \<times> string" where
  "Symbol_Decode symbol =
     (takeWhile (\<lambda>c. c \<noteq> NUL) (take baseCap symbol),
      takeWhile (\<lambda>c. c \<noteq> NUL) (slice symbol baseCap (baseCap + quoteCap)),
      takeWhile (\<lambda>c. c \<noteq> NUL) (drop (baseCap + quoteCap) symbol))"

definition Symbol_AppendBytes :: "Symbol \<Rightarrow> string \<Rightarrow> string" where
  "Symbol_AppendBytes symbol buf =
     (let buf = take 0 buf;
          buf = buf @ takeWhile (\<lambda>c. c \<noteq> NUL) (take baseCap symbol);
          buf = buf @ takeWhile (\<lambda>c. c \<noteq> NUL) (slice symbol baseCap (baseCap + quoteCap))
      in buf @ takeWhile (\<lambda>c. c \<noteq> NUL) (drop (baseCap + quoteCap) symbol))"

definition Symbol_String :: "Symbol \<Rightarrow> string" where
  "Symbol_String symbol = Symbol_AppendBytes symbol []"

lemma Symbol_String_Decode: "Symbol_String s = (case Symbol_Decode s of (b, q, m) \<Rightarrow> b @ q @ m)"
  by (simp add: Symbol_String_def Symbol_AppendBytes_def Symbol_Decode_def)

lemma length_foldl_upd [simp]: "length (foldl (\<lambda>s i. s[off + i := src ! i]) s is) = length s"
  by (induction "is" arbitrary: s) auto

lemma length_fill_runes [simp]: "length (fill_runes off lim src s) = length s"
  by (simp add: fill_runes_def)

lemma wf_NewSymbol [simp]: "wf_Symbol (NewSymbol base quote memo)"
  by (simp add: wf_Symbol_def NewSymbol_def Let_def)

definition ascii :: "string \<Rightarrow> bool" where
  "ascii s \<longleftrightarrow> (\<forall>c \<in> set s. c \<noteq> NUL \<and> code c < 128)"

lemma range_offsets_ascii: "\<forall>c \<in> set s. code c < 128 \<Longrightarrow> range_offsets off s = [off..<off + length s]"
proof (induction s arbitrary: off)
  case Nil
  then show ?case by (simp add: range_offsets.simps)
next
  case (Cons c s)
  then have "rune_len (c # s) = 1" by (simp add: rune_len_def)
  moreover have "[off..<off + length (c # s)] = off # [off + 1..<off + 1 + length s]"
    by (simp add: upt_conv_Cons del: upt_Suc)
  ultimately show ?case using Cons by (simp add: range_offsets.simps [of off "c # s"] del: upt_Suc)
qed

lemma takeWhile_upt: "takeWhile (\<lambda>i. i < lim) [0..<n] = [0..<min lim n]"
proof (cases "lim \<le> n")
  case True
  then have "[0..<n] = [0..<lim] @ [lim..<n]" using upt_add_eq_append [of 0 lim "n - lim"] by simp
  with True show ?thesis by (simp add: takeWhile_append min_def) (cases "lim < n"; simp add: upt_conv_Cons)
next
  case False
  then show ?thesis by (auto simp: min_def takeWhile_eq_all_conv)
qed

lemma foldl_upd_upt:
  "off + n \<le> length s \<Longrightarrow> n \<le> length src \<Longrightarrow>
     foldl (\<lambda>s i. s[off + i := src ! i]) s [0..<n] = take off s @ take n src @ drop (off + n) s"
proof (induction n)
  case (Suc n)
  then have d: "drop (off + n) s = s ! (off + n) # drop (Suc (off + n)) s"
    by (simp add: Cons_nth_drop_Suc)
  have "foldl (\<lambda>s i. s[off + i := src ! i]) s [0..<Suc n] =
      (take off s @ take n src @ drop (off + n) s)[off + n := src ! n]"
    using Suc by simp
  also have "\<dots> = take off s @ take n src @ (src ! n # drop (Suc (off + n)) s)"
    using Suc.prems d by (simp add: list_update_append)
  also have "\<dots> = take off s @ take (Suc n) src @ drop (off + Suc n) s"
    using Suc.prems by (simp add: take_Suc_conv_app_nth)
  finally show ?case .
qed simp

lemma fill_runes_ascii:
  assumes "ascii src" and "off + min lim (length src) \<le> length s"
  shows "fill_runes off lim src s =
     take off s @ take lim src @ drop (off + min lim (length src)) s"
proof -
  have "take (min lim (length src)) src = take lim src" by (simp add: min_def)
  then show ?thesis
    using assms foldl_upd_upt [of off "min lim (length src)" s src]
    by (simp add: fill_runes_def range_offsets_ascii ascii_def takeWhile_upt)
qed

text \<open>The array is the padded base followed by the padded quote; a memo never fits.\<close>

lemma NewSymbol_ascii:
  assumes "ascii base" and "ascii quote"
  shows "NewSymbol base quote memo =
     (take 16 base @ replicate (16 - length base) NUL) @ take 16 quote @ replicate (16 - length quote) NUL"
proof -
  have z: "fill_runes 32 0 m s = s" for m s
    by (simp add: fill_runes_def) (metis (no_types, lifting) foldl_Nil not_less_zero takeWhile_eq_Nil_iff)
  have b: "fill_runes 0 16 base (replicate 32 NUL) =
      take 16 base @ replicate (16 - length base) NUL @ replicate 16 NUL"
    using fill_runes_ascii [OF assms(1), of 0 16 "replicate 32 NUL"]
    by (auto simp: replicate_add [symmetric] min_def)
  show ?thesis
    using fill_runes_ascii [OF assms(2), of 16 16 "fill_runes 0 16 base (replicate 32 NUL)"]
    by (auto simp: NewSymbol_def Let_def z b min_def)
qed

lemma takeWhile_NUL_padded: "NUL \<notin> set s \<Longrightarrow> takeWhile (\<lambda>c. c \<noteq> NUL) (s @ replicate n NUL) = s"
  by (subst takeWhile_append2) (auto simp: takeWhile_replicate)

lemma ascii_take: "ascii s \<Longrightarrow> NUL \<notin> set (take n s)"
  by (auto simp: ascii_def dest: in_set_takeD)

lemma Symbol_Decode_New:
  assumes "ascii base" and "ascii quote"
  shows "Symbol_Decode (NewSymbol base quote memo) = (take 16 base, take 16 quote, [])"
proof -
  let ?b = "take 16 base @ replicate (16 - length base) NUL"
  let ?q = "take 16 quote @ replicate (16 - length quote) NUL"
  have len: "length ?b = 16" "length ?q = 16" by auto
  have eq: "NewSymbol base quote memo = ?b @ ?q" using NewSymbol_ascii [OF assms] by simp
  have "take 16 (?b @ ?q) = ?b" and "slice (?b @ ?q) 16 32 = ?q" and "drop 32 (?b @ ?q) = []"
    using len by (simp_all add: slice_def)
  then show ?thesis
    using assms by (simp add: Symbol_Decode_def eq takeWhile_NUL_padded ascii_take del: append_assoc)
qed

lemma Symbol_String_New:
  "ascii base \<Longrightarrow> ascii quote \<Longrightarrow> Symbol_String (NewSymbol base quote memo) = take 16 base @ take 16 quote"
  by (simp add: Symbol_String_Decode Symbol_Decode_New)

subsection \<open>token.go\<close>

record Token =
  Token_Key :: Str64
  Token_Secret :: Str64

definition NewToken :: "string \<Rightarrow> string \<Rightarrow> Token" where
  "NewToken key secret =
     \<lparr>Token_Key = copy_into (replicate 64 NUL) key, Token_Secret = copy_into (replicate 64 NUL) secret\<rparr>"

end
