(* ===== verification/Exceptions.thy ===== *)
theory Exceptions
  imports Go_Prelude
begin

section \<open>The exception package: the sentinel errors\<close>

text \<open>
  \<open>libs/shared/exception/*.go\<close>: one datatype per file, one constructor per \<open>errors.New\<close>
  variable (Go compares these errors by identity, so distinct constructors are faithful), and
  the message of each, which \<open>OrderResponse.SetInternalError\<close> stores.
\<close>

datatype general_error =
    ErrIndexOutOfRange | ErrNilInstance | ErrTypeUnsupported | ErrArgumentUnsupported
  | ErrInternal | ErrInResponseError | ErrInvalidArgument | ErrBuffTooSmall

datatype ingest_error =
    ErrIngestInvalidRequest | ErrIngestUnsupportedPlatform | ErrIngestNilConsumer
  | ErrIngestTopicKindMismatch | ErrIngestUnknownTopic

datatype order_error =
    ErrOrderUnsupportedAction | ErrOrderNilUsecase | ErrOrderInvalidRequest
  | ErrOrderMismatchPlatform | ErrOrderUnsupportedPlatform | ErrOrderUnsupportedType
  | ErrOrderNilEncoder | ErrOrderNilWorkerPool | ErrOrderInvalidWorkerConfig
  | ErrOrderNilDialer | ErrOrderQueueFull | ErrOrderDecodeResponseBody
  | ErrOrderEmptyResponseOrderID
  | ErrOrderRequestNotSent | ErrOrderResponseBTCCCode | ErrOrderResponseBTCCMsg

datatype uds_error = ErrEmptyPathUDS | ErrNilClientUDS

datatype ws_error = ErrWebSocketConnectionClose | ErrWebSocketProtocol

fun order_error_text :: "order_error \<Rightarrow> string" where
  "order_error_text ErrOrderUnsupportedAction = ''order: unsupported action''"
| "order_error_text ErrOrderNilUsecase = ''order: nil usecase''"
| "order_error_text ErrOrderInvalidRequest = ''order: invalid request''"
| "order_error_text ErrOrderMismatchPlatform = ''order: mismatch platform''"
| "order_error_text ErrOrderUnsupportedPlatform = ''order: unsupported platform''"
| "order_error_text ErrOrderUnsupportedType = ''order: unsupported type''"
| "order_error_text ErrOrderNilEncoder = ''order: nil encoder''"
| "order_error_text ErrOrderNilWorkerPool = ''order: nil worker pool''"
| "order_error_text ErrOrderInvalidWorkerConfig = ''order: invalid worker config''"
| "order_error_text ErrOrderNilDialer = ''order: nil dialer''"
| "order_error_text ErrOrderQueueFull = ''order: queue full''"
| "order_error_text ErrOrderDecodeResponseBody = ''order: decode response body''"
| "order_error_text ErrOrderEmptyResponseOrderID = ''order: empty response order id''"
| "order_error_text ErrOrderRequestNotSent = ''order: request did not send''"
| "order_error_text ErrOrderResponseBTCCCode = ''order: response code is not zero''"
| "order_error_text ErrOrderResponseBTCCMsg = ''order: response error message is not empty''"

lemma order_error_text_NUL [simp]: "NUL \<notin> set (order_error_text e)"
  by (cases e) (simp_all add: NUL_def)

lemma order_error_text_length: "0 < length (order_error_text e) \<and> length (order_error_text e) \<le> 64"
  by (cases e) simp_all

end
