(* ===== verification/Adapter_Records.thy ===== *)
theory Adapter_Records
  imports Adapter_Symbol Exceptions
begin

section \<open>Depth, Order, OrderIntent, OrderRequest, OrderResponse, IngestRequest\<close>

text \<open>
  The message records of \<open>libs/adapter\<close>. \<open>Depth\<close> carries two arrays of 128 rows with their
  used lengths; \<open>Depth_Debug\<close> is its printer, with the buffer handed through \<open>AppendBytes\<close> as
  the code does. \<open>OrderResponse\<close> carries the error codes a delegator reports.
\<close>

subsection \<open>depth.go\<close>

record DepthRow =
  Price :: Decimal
  Quantity :: Decimal

record Depth =
  Depth_Symbol :: Symbol
  Depth_EventTsNano :: int
  Depth_RecvTsNano :: int
  Depth_Platform :: Platform
  Depth_Bids :: "DepthRow list"
  Depth_BidsLength :: int
  Depth_Asks :: "DepthRow list"
  Depth_AsksLength :: int

definition zero_DepthRow :: DepthRow where
  "zero_DepthRow = \<lparr>Price = zero_Decimal, Quantity = zero_Decimal\<rparr>"

definition zero_Depth :: Depth where
  "zero_Depth = \<lparr>Depth_Symbol = replicate 32 NUL, Depth_EventTsNano = 0, Depth_RecvTsNano = 0,
     Depth_Platform = 0, Depth_Bids = replicate 128 zero_DepthRow, Depth_BidsLength = 0,
     Depth_Asks = replicate 128 zero_DepthRow, Depth_AsksLength = 0\<rparr>"

definition wf_Decimal :: "Decimal \<Rightarrow> bool" where
  "wf_Decimal d \<longleftrightarrow> in_int64 (Integer d) \<and> in_int64 (Scale d)"

definition wf_DepthRow :: "DepthRow \<Rightarrow> bool" where
  "wf_DepthRow r \<longleftrightarrow> wf_Decimal (Price r) \<and> wf_Decimal (Quantity r)"

definition wf_Depth :: "Depth \<Rightarrow> bool" where
  "wf_Depth d \<longleftrightarrow> wf_Symbol (Depth_Symbol d)
     \<and> in_int64 (Depth_EventTsNano d) \<and> in_int64 (Depth_RecvTsNano d)
     \<and> length (Depth_Bids d) = 128 \<and> list_all wf_DepthRow (Depth_Bids d) \<and> in_int64 (Depth_BidsLength d)
     \<and> length (Depth_Asks d) = 128 \<and> list_all wf_DepthRow (Depth_Asks d) \<and> in_int64 (Depth_AsksLength d)"

lemma wf_zero_Depth [simp]: "wf_Depth zero_Depth"
  by (simp add: wf_Depth_def zero_Depth_def wf_Symbol_def in_int64_def wf_DepthRow_def wf_Decimal_def
      zero_DepthRow_def zero_Decimal_def list_all_iff)

definition appendPlatform :: "string \<Rightarrow> Platform \<Rightarrow> string" where
  "appendPlatform buf p =
     (if p = PlatformBTCC then buf @ ''btcc''
      else if p = PlatformBinance then buf @ ''binance''
      else appendInt buf (uint p))"

definition append_row :: "string \<Rightarrow> nat \<Rightarrow> DepthRow \<Rightarrow> string" where
  "append_row buf i row =
     (let buf = (if 0 < i then buf @ '','' else buf);
          buf = buf @ ''('';
          buf = Decimal_AppendBytes (Price row) buf;
          buf = buf @ '','';
          buf = Decimal_AppendBytes (Quantity row) buf
      in buf @ '')'')"

definition clip_length :: "int \<Rightarrow> DepthRow list \<Rightarrow> nat" where
  "clip_length len rows = min (nat len) (length rows)"

definition appendDepthSide :: "string \<Rightarrow> DepthRow list \<Rightarrow> int \<Rightarrow> string" where
  "appendDepthSide buf rows len =
     foldl (\<lambda>buf i. append_row buf i (rows ! i)) (buf @ ''['') [0..<clip_length len rows] @ '']''"

definition Depth_Debug :: "Depth \<Rightarrow> string" where
  "Depth_Debug d =
     (let buf = ''Depth{symbol='';
          buf = buf @ Symbol_String (Depth_Symbol d);
          buf = buf @ '' platform='';
          buf = appendPlatform buf (Depth_Platform d);
          buf = buf @ '' event_ts='';
          buf = appendInt buf (Depth_EventTsNano d);
          buf = buf @ '' recv_ts='';
          buf = appendInt buf (Depth_RecvTsNano d);
          buf = buf @ '' bids='';
          buf = appendDepthSide buf (Depth_Bids d) (Depth_BidsLength d);
          buf = buf @ '' asks='';
          buf = appendDepthSide buf (Depth_Asks d) (Depth_AsksLength d)
      in buf @ ''}'')"

text \<open>\<open>Decimal.AppendBytes\<close> starts afresh, so a row leaves nothing of what came before it.\<close>

lemma append_row_resets: "append_row buf i row = Decimal_AppendBytes (Quantity row) [] @ '')''"
  by (simp add: append_row_def Decimal_AppendBytes_buf Let_def)

lemma appendDepthSide_rows:
  assumes "0 < clip_length len rows"
  shows "appendDepthSide buf rows len =
     Decimal_AppendBytes (Quantity (rows ! (clip_length len rows - 1))) [] @ '')]''"
proof -
  obtain n where "clip_length len rows = Suc n" using assms gr0_implies_Suc by blast
  then show ?thesis by (simp add: appendDepthSide_def append_row_resets)
qed

lemma appendDepthSide_empty: "clip_length len rows = 0 \<Longrightarrow> appendDepthSide buf rows len = buf @ ''[]''"
  by (simp add: appendDepthSide_def)

subsection \<open>order.go, order_intent.go, order_request.go, ingest.go\<close>

record Order =
  Order_ID :: int
  Order_Symbol :: Symbol
  Order_EventTsNano :: int
  Order_RecvTsNano :: int
  Order_Platform :: Platform
  Order_Type :: OrderType
  Order_Side :: OrderSide
  Order_Status :: OrderStatus
  Order_Price :: Decimal
  Order_Quantity :: Decimal
  Order_LeftQuantity :: Decimal
  Order_TimeInForce :: OrderTimeInForce
  Order_UpdatedTime :: int
  Order_Source :: Str64

definition zero_Order :: Order where
  "zero_Order = \<lparr>Order_ID = 0, Order_Symbol = replicate 32 NUL, Order_EventTsNano = 0,
     Order_RecvTsNano = 0, Order_Platform = 0, Order_Type = 0, Order_Side = 0, Order_Status = 0,
     Order_Price = zero_Decimal, Order_Quantity = zero_Decimal, Order_LeftQuantity = zero_Decimal,
     Order_TimeInForce = 0, Order_UpdatedTime = 0, Order_Source = replicate 64 NUL\<rparr>"

definition wf_Order :: "Order \<Rightarrow> bool" where
  "wf_Order o' \<longleftrightarrow> in_int64 (Order_ID o') \<and> wf_Symbol (Order_Symbol o')
     \<and> in_int64 (Order_EventTsNano o') \<and> in_int64 (Order_RecvTsNano o')
     \<and> wf_Decimal (Order_Price o') \<and> wf_Decimal (Order_Quantity o') \<and> wf_Decimal (Order_LeftQuantity o')
     \<and> in_int64 (Order_UpdatedTime o') \<and> wf_Str64 (Order_Source o')"

record OrderIntent =
  Intent_Symbol :: Symbol
  Intent_Platform :: Platform
  Intent_Action :: OrderAction
  Intent_Type :: OrderType
  Intent_Side :: OrderSide
  Intent_Price :: Decimal
  Intent_Quantity :: Decimal
  Intent_TimeInForce :: OrderTimeInForce
  Intent_CreatedTime :: int
  Intent_ID :: Str64
  Intent_ClientOrderID :: Str64
  Intent_Source :: Str64

record OrderRequest =
  Request_Intent :: OrderIntent
  Request_Token :: Token

record IngestRequest =
  Ingest_Platform :: Platform
  Ingest_Topic :: Topic
  Ingest_Symbol :: Symbol
  Ingest_APIKey :: Str64

definition wf_OrderIntent :: "OrderIntent \<Rightarrow> bool" where
  "wf_OrderIntent i \<longleftrightarrow> wf_Symbol (Intent_Symbol i) \<and> wf_Decimal (Intent_Price i)
     \<and> wf_Decimal (Intent_Quantity i) \<and> in_int64 (Intent_CreatedTime i) \<and> wf_Str64 (Intent_ID i)
     \<and> wf_Str64 (Intent_ClientOrderID i) \<and> wf_Str64 (Intent_Source i)"

definition wf_OrderRequest :: "OrderRequest \<Rightarrow> bool" where
  "wf_OrderRequest r \<longleftrightarrow> wf_OrderIntent (Request_Intent r)
     \<and> wf_Str64 (Token_Key (Request_Token r)) \<and> wf_Str64 (Token_Secret (Request_Token r))"

definition wf_IngestRequest :: "IngestRequest \<Rightarrow> bool" where
  "wf_IngestRequest r \<longleftrightarrow> wf_Symbol (Ingest_Symbol r) \<and> wf_Str64 (Ingest_APIKey r)"

subsection \<open>order_response.go\<close>

definition CodeInternalError :: int where
  "CodeInternalError = - 999"

record OrderResponse =
  Response_Request :: OrderRequest
  Response_OrderID :: Str64
  Response_Sent :: bool
  Response_Code :: int
  Response_Msg :: Str64

definition SetInternalError :: "OrderResponse \<Rightarrow> string \<Rightarrow> OrderResponse" where
  "SetInternalError resp err_text =
     resp\<lparr>Response_Code := CodeInternalError, Response_Msg := NewStr64 err_text\<rparr>"

definition SetError :: "OrderResponse \<Rightarrow> int \<Rightarrow> string \<Rightarrow> OrderResponse" where
  "SetError resp c msg = resp\<lparr>Response_Code := c, Response_Msg := NewStr64 msg\<rparr>"

definition OrderResponse_Error :: "OrderResponse \<Rightarrow> order_error option" where
  "OrderResponse_Error resp =
     (if \<not> Response_Sent resp then Some ErrOrderRequestNotSent
      else if Response_Code resp \<noteq> 0 then Some ErrOrderResponseBTCCCode
      else if Str64_Len (Response_Msg resp) \<noteq> 0 then Some ErrOrderResponseBTCCMsg
      else None)"

end
