(* ===== verification/Btcc_Decimal.thy ===== *)
theory Btcc_Decimal
  imports Adapter_Records
begin

section \<open>Reading and subtracting decimals (BTCC)\<close>

text \<open>
  \<open>parseDecimal\<close>, \<open>decimalSub\<close> and \<open>rescaleDecimal\<close> of \<open>bundle/internal/ingest/btcc/payload.go\<close>.
  Every \<open>int64\<close> operation is written with its wrap-around. The main lemma says exactly which
  texts are accepted and with what value: the guards of the loop are those of the final value,
  except the last addition, which is not guarded and may wrap. The interface \<open>decimal_reader\<close>
  states that contract; its lemmas (round trip with \<open>Decimal.AppendBytes\<close>, exactness, bounds)
  are proved once and hold for both exchange packages.
\<close>

datatype btcc_error = Btcc_ErrInvalidPayload | Btcc_ErrInvalidRequest

fun btcc_parse_loop ::
  "string \<Rightarrow> int \<Rightarrow> int \<Rightarrow> nat \<Rightarrow> bool \<Rightarrow> btcc_error + (int \<times> int \<times> nat)" where
  "btcc_parse_loop [] intPart fracPart scale seenDot = Inr (intPart, fracPart, scale)"
| "btcc_parse_loop (c # cs) intPart fracPart scale seenDot =
     (if c = CHR ''.'' then
        (if seenDot then Inl Btcc_ErrInvalidPayload else btcc_parse_loop cs intPart fracPart scale True)
      else if \<not> is_digit c then Inl Btcc_ErrInvalidPayload
      else
        let digit = int (digit_val c) in
        if \<not> seenDot then
          (if go_div (maxInt64 - digit) 10 < intPart then Inl Btcc_ErrInvalidPayload
           else btcc_parse_loop cs (wrap64 (intPart * 10 + digit)) fracPart scale seenDot)
        else
          (if go_div (maxInt64 - digit) 10 < fracPart then Inl Btcc_ErrInvalidPayload
           else btcc_parse_loop cs intPart (wrap64 (fracPart * 10 + digit)) (scale + 1) seenDot))"

fun btcc_mul_loop :: "nat \<Rightarrow> int \<Rightarrow> int option" where
  "btcc_mul_loop 0 mul = Some mul"
| "btcc_mul_loop (Suc n) mul =
     (if go_div maxInt64 10 < mul then None else btcc_mul_loop n (wrap64 (mul * 10)))"

definition btcc_parseDecimal :: "string \<Rightarrow> btcc_error + Decimal" where
  "btcc_parseDecimal src =
     (if length src = 0 then Inl Btcc_ErrInvalidPayload
      else
        let neg = (src ! 0 = CHR ''-'');
            i = (if neg then 1 else 0)
        in case btcc_parse_loop (drop i src) 0 0 0 False of
             Inl e \<Rightarrow> Inl e
           | Inr (intPart, fracPart, scale) \<Rightarrow>
               (let value =
                  (if 0 < scale then
                     (case btcc_mul_loop scale 1 of
                        None \<Rightarrow> Inl Btcc_ErrInvalidPayload
                      | Some mul \<Rightarrow>
                          if go_div maxInt64 mul < intPart then Inl Btcc_ErrInvalidPayload
                          else Inr (wrap64 (wrap64 (intPart * mul) + fracPart)))
                   else Inr intPart)
                in case value of
                     Inl e \<Rightarrow> Inl e
                   | Inr v \<Rightarrow> Inr \<lparr>Integer = (if neg then wrap64 (- v) else v), Scale = int scale\<rparr>))"

definition btcc_rescaleDecimal :: "Decimal \<Rightarrow> int \<Rightarrow> int option" where
  "btcc_rescaleDecimal d scale =
     (if scale < Scale d then None
      else case btcc_mul_loop (nat (wrap64 (scale - Scale d))) 1 of
        None \<Rightarrow> None
      | Some mul \<Rightarrow>
          if go_div maxInt64 mul < Integer d \<or> Integer d < go_div (- maxInt64) mul then None
          else Some (wrap64 (Integer d * mul)))"

definition btcc_decimalSub :: "Decimal \<Rightarrow> Decimal \<Rightarrow> Decimal" where
  "btcc_decimalSub a b =
     (let scale = (if Scale a < Scale b then Scale b else Scale a) in
      case btcc_rescaleDecimal a scale of
        None \<Rightarrow> \<lparr>Integer = 0, Scale = scale\<rparr>
      | Some ai \<Rightarrow>
          (case btcc_rescaleDecimal b scale of
             None \<Rightarrow> \<lparr>Integer = 0, Scale = scale\<rparr>
           | Some bi \<Rightarrow> \<lparr>Integer = wrap64 (ai - bi), Scale = scale\<rparr>))"

subsection \<open>The overflow guards\<close>

lemma div_guard_gen:
  assumes "(0::int) < m"
  shows "a div m < v \<longleftrightarrow> a < v * m"
proof -
  have a: "m * (a div m) + a mod m = a" by (rule mult_div_mod_eq)
  have b: "0 \<le> a mod m" "a mod m < m" using assms by simp_all
  have e: "m * (a div m + 1) = m * (a div m) + m" by (simp only: distrib_left mult_1_right)
  have "m * (a div m + 1) \<le> m * v" if "a div m < v"
    by (rule mult_left_mono) (use assms that in simp_all)
  moreover have "m * v \<le> m * (a div m)" if "\<not> a div m < v"
    by (rule mult_left_mono) (use assms that in simp_all)
  ultimately have "a div m < v \<longleftrightarrow> a < m * v" using a b e by linarith
  then show ?thesis by (simp only: mult.commute)
qed

lemma div_guard: "0 < m \<Longrightarrow> go_div maxInt64 m < v \<longleftrightarrow> maxInt64 < v * m"
  by (simp add: go_div_nonneg maxInt64_def div_guard_gen)

lemma digit_guard:
  "0 \<le> d \<Longrightarrow> d \<le> 9 \<Longrightarrow> go_div (maxInt64 - d) 10 < v \<longleftrightarrow> maxInt64 < v * 10 + d"
  by (subst go_div_nonneg) (auto simp: maxInt64_def div_guard_gen)

lemma wrap64_nonneg: "0 \<le> v \<Longrightarrow> v \<le> maxInt64 \<Longrightarrow> wrap64 v = v"
  by (rule wrap64_id) (simp add: in_int64_def maxInt64_def)

lemma wrap64_neg: "0 \<le> v \<Longrightarrow> v \<le> maxInt64 \<Longrightarrow> wrap64 (- v) = - v"
  by (rule wrap64_id) (simp add: in_int64_def maxInt64_def)

lemma digit_val_le9: "is_digit c \<Longrightarrow> int (digit_val c) \<le> 9"
  using digit_val_less [of c] by linarith

text \<open>A guarded accumulation is the value of the digits, or an error when that passes the maximum.\<close>

definition accum :: "int \<Rightarrow> string \<Rightarrow> int" where
  "accum v ds = v * 10 ^ length ds + int (dec_val ds)"

lemma accum_Nil [simp]: "accum v [] = v"
  by (simp add: accum_def)

lemma accum_Cons: "accum v (c # ds) = accum (v * 10 + int (digit_val c)) ds"
  by (simp add: accum_def dec_val_Cons algebra_simps)

lemma accum_ge:
  assumes "0 \<le> v"
  shows "v \<le> accum v ds"
proof -
  have "v * 1 \<le> v * 10 ^ length ds" by (rule mult_left_mono) (use assms in simp_all)
  then show ?thesis by (simp add: accum_def add_increasing2)
qed

lemma parse_loop_int:
  "\<forall>c \<in> set ds. is_digit c \<Longrightarrow> 0 \<le> v \<Longrightarrow> v \<le> maxInt64 \<Longrightarrow>
     btcc_parse_loop (ds @ rest) v f s False =
       (if accum v ds \<le> maxInt64 then btcc_parse_loop rest (accum v ds) f s False
        else Inl Btcc_ErrInvalidPayload)"
proof (induction ds arbitrary: v)
  case (Cons c ds)
  let ?d = "int (digit_val c)" let ?v = "v * 10 + ?d"
  have c: "is_digit c" "c \<noteq> CHR ''.''" "?d \<le> 9" "0 \<le> ?v"
    using Cons.prems is_digit_ne [of c] digit_val_le9 [of c] by auto
  have g: "go_div (maxInt64 - ?d) 10 < v \<longleftrightarrow> maxInt64 < ?v" by (rule digit_guard) (use c in simp_all)
  show ?case
  proof (cases "maxInt64 < ?v")
    case True
    moreover have "?v \<le> accum ?v ds" by (rule accum_ge) (rule c)
    ultimately show ?thesis using c g by (simp add: accum_Cons)
  next
    case False
    then have w: "wrap64 ?v = ?v" using c by (simp add: wrap64_nonneg)
    from False Cons.IH [of ?v] Cons.prems(1) c show ?thesis
      by (simp only: append_Cons btcc_parse_loop.simps c g w Let_def accum_Cons if_False if_True not_True_eq_False
          not_False_eq_True) simp
  qed
qed simp

lemma parse_loop_frac:
  "\<forall>c \<in> set ds. is_digit c \<Longrightarrow> 0 \<le> f \<Longrightarrow> f \<le> maxInt64 \<Longrightarrow>
     btcc_parse_loop (ds @ rest) v f s True =
       (if accum f ds \<le> maxInt64 then btcc_parse_loop rest v (accum f ds) (s + length ds) True
        else Inl Btcc_ErrInvalidPayload)"
proof (induction ds arbitrary: f s)
  case (Cons c ds)
  let ?d = "int (digit_val c)" let ?v = "f * 10 + ?d"
  have c: "is_digit c" "c \<noteq> CHR ''.''" "?d \<le> 9" "0 \<le> ?v"
    using Cons.prems is_digit_ne [of c] digit_val_le9 [of c] by auto
  have g: "go_div (maxInt64 - ?d) 10 < f \<longleftrightarrow> maxInt64 < ?v" by (rule digit_guard) (use c in simp_all)
  show ?case
  proof (cases "maxInt64 < ?v")
    case True
    moreover have "?v \<le> accum ?v ds" by (rule accum_ge) (rule c)
    ultimately show ?thesis using c g by (simp add: accum_Cons)
  next
    case False
    then have w: "wrap64 ?v = ?v" using c by (simp add: wrap64_nonneg)
    from False Cons.IH [of ?v "s + 1"] Cons.prems(1) c show ?thesis
      by (simp only: append_Cons btcc_parse_loop.simps c g w Let_def accum_Cons if_False if_True not_True_eq_False
          not_False_eq_True) simp
  qed
qed simp

text \<open>What the loop accepts: digits, and once a dot followed by digits.\<close>

definition dec_body :: "string \<Rightarrow> bool \<Rightarrow> string \<Rightarrow> string" where
  "dec_body ip dot fp = ip @ (if dot then CHR ''.'' # fp else [])"

definition dec_parts :: "string \<Rightarrow> bool \<Rightarrow> string \<Rightarrow> bool" where
  "dec_parts ip dot fp \<longleftrightarrow> (\<forall>c \<in> set ip. is_digit c) \<and> (\<forall>c \<in> set fp. is_digit c) \<and> (dot \<or> fp = [])"

lemma parse_loop_body:
  assumes "dec_parts ip dot fp"
  shows "btcc_parse_loop (dec_body ip dot fp) 0 0 0 False =
    (if int (dec_val ip) \<le> maxInt64 \<and> int (dec_val fp) \<le> maxInt64
     then Inr (int (dec_val ip), int (dec_val fp), length fp) else Inl Btcc_ErrInvalidPayload)"
proof -
  have max: "0 \<le> maxInt64" by (simp add: maxInt64_def)
  have a: "accum 0 ds = int (dec_val ds)" for ds by (simp add: accum_def)
  have "btcc_parse_loop fp v 0 0 True =
      (if int (dec_val fp) \<le> maxInt64 then Inr (v, int (dec_val fp), length fp)
       else Inl Btcc_ErrInvalidPayload)" for v
    using parse_loop_frac [of fp 0 "[]" v 0] assms max by (simp add: dec_parts_def a)
  note frac = this
  show ?thesis
  proof (cases dot)
    case True
    then show ?thesis using frac parse_loop_int [of ip 0 "CHR ''.'' # fp" 0 0] assms max
      by (simp add: dec_body_def dec_parts_def a)
  next
    case False
    then show ?thesis using parse_loop_int [of ip 0 "[]" 0 0] assms max
      by (simp add: dec_body_def dec_parts_def a)
  qed
qed

lemma parse_loop_accepts:
  assumes "btcc_parse_loop cs 0 0 0 False = Inr r"
  obtains ip dot fp where "cs = dec_body ip dot fp" "dec_parts ip dot fp"
proof -
  define ip where "ip = takeWhile is_digit cs"
  define rest where "rest = dropWhile is_digit cs"
  have cs: "cs = ip @ rest" by (simp add: ip_def rest_def)
  have ip: "\<forall>c \<in> set ip. is_digit c" by (auto simp: ip_def dest: set_takeWhileD)
  have max: "0 \<le> maxInt64" by (simp add: maxInt64_def)
  have run: "btcc_parse_loop rest (accum 0 ip) 0 0 False = Inr r"
    using parse_loop_int [OF ip, of 0 rest 0 0] assms max by (simp add: cs split: if_splits)
  show thesis
  proof (cases rest)
    case Nil
    then show thesis using that [of ip False "[]"] cs ip by (simp add: dec_body_def dec_parts_def)
  next
    case (Cons x fp)
    then have "\<not> is_digit x" using hd_dropWhile [of is_digit cs] by (simp add: rest_def)
    with run Cons have x: "x = CHR ''.''" and t: "btcc_parse_loop fp (accum 0 ip) 0 0 True = Inr r"
      by (simp_all split: if_splits)
    have "btcc_parse_loop ds v f s True = Inr r \<Longrightarrow> \<forall>c \<in> set ds. is_digit c" for ds v f s
      by (induction ds arbitrary: v f s) (auto simp: Let_def split: if_splits)
    with t have "\<forall>c \<in> set fp. is_digit c" by blast
    then show thesis using that [of ip True fp] cs ip x Cons by (simp add: dec_body_def dec_parts_def)
  qed
qed

lemma mul_loop_pow:
  "m \<le> 18 \<Longrightarrow> btcc_mul_loop n (10 ^ m) = (if m + n \<le> 18 then Some (10 ^ (m + n)) else None)"
proof (induction n arbitrary: m)
  case (Suc n)
  show ?case
  proof (cases "m = 18")
    case True
    then show ?thesis by (simp add: go_div_nonneg maxInt64_def)
  next
    case False
    with Suc.prems have m: "Suc m \<le> 18" by simp
    then have le: "(10::int) ^ m \<le> 10 ^ 17" by (intro power_increasing) auto
    have "10 ^ m * (10::int) \<le> 1000000000000000000" using le by simp
    moreover have "- (2 ^ 63) \<le> 10 ^ m * (10::int)" by (rule order_trans [of _ 0]) simp_all
    ultimately have "in_int64 (10 ^ m * 10)" unfolding in_int64_def by simp
    then have "wrap64 (10 ^ m * 10) = 10 ^ Suc m" by simp
    moreover have "\<not> go_div maxInt64 10 < 10 ^ m" using le by (simp add: go_div_nonneg maxInt64_def)
    ultimately show ?thesis using Suc.IH [OF m] by simp
  qed
qed simp

lemma mul_loop_one: "btcc_mul_loop n 1 = (if n \<le> 18 then Some (10 ^ n) else None)"
  using mul_loop_pow [of 0 n] by simp

lemma pow18_le: "n \<le> 18 \<Longrightarrow> (10::int) ^ n \<le> 10 ^ 18"
  by (rule power_increasing) simp_all

subsection \<open>What is accepted, and with what value\<close>

definition sign_ok :: "string \<Rightarrow> bool" where
  "sign_ok sg \<longleftrightarrow> sg = [] \<or> sg = ''-''"

definition dec_fits :: "string \<Rightarrow> string \<Rightarrow> bool" where
  "dec_fits ip fp \<longleftrightarrow> length fp \<le> 18 \<and> int (dec_val ip) * 10 ^ length fp \<le> maxInt64"

definition dec_value :: "string \<Rightarrow> string \<Rightarrow> string \<Rightarrow> Decimal" where
  "dec_value sg ip fp =
     (let v = wrap64 (int (dec_val ip) * 10 ^ length fp + int (dec_val fp))
      in \<lparr>Integer = (if sg \<noteq> [] then wrap64 (- v) else v), Scale = int (length fp)\<rparr>)"

lemma dec_fits_parts:
  assumes "dec_fits ip fp" "dec_parts ip dot fp"
  shows "int (dec_val ip) \<le> maxInt64" "int (dec_val fp) \<le> maxInt64"
proof -
  have "int (dec_val ip) * 1 \<le> int (dec_val ip) * 10 ^ length fp" by (rule mult_left_mono) simp_all
  then show "int (dec_val ip) \<le> maxInt64" using assms by (simp add: dec_fits_def)
  have "dec_val fp < 10 ^ length fp" using assms by (simp add: dec_parts_def dec_val_less)
  then have "int (dec_val fp) < 10 ^ length fp" by (metis of_nat_less_iff of_nat_numeral of_nat_power)
  also have "\<dots> \<le> 10 ^ 18" by (rule pow18_le) (use assms in \<open>simp add: dec_fits_def\<close>)
  finally show "int (dec_val fp) \<le> maxInt64" by (simp add: maxInt64_def)
qed

lemma sign_test:
  assumes "sign_ok sg" "dec_parts ip dot fp" "sg @ dec_body ip dot fp \<noteq> []"
  shows "((sg @ dec_body ip dot fp) ! 0 = CHR ''-'') = (sg \<noteq> [])"
    and "drop (if sg \<noteq> [] then 1 else 0) (sg @ dec_body ip dot fp) = dec_body ip dot fp"
proof -
  have "sg = [] \<Longrightarrow> (dec_body ip dot fp) ! 0 \<noteq> CHR ''-''"
    using assms(2,3) is_digit_ne [of "hd ip"]
    by (cases ip) (auto simp: dec_body_def dec_parts_def split: if_splits)
  then show "((sg @ dec_body ip dot fp) ! 0 = CHR ''-'') = (sg \<noteq> [])"
    using assms(1) by (auto simp: sign_ok_def)
  show "drop (if sg \<noteq> [] then 1 else 0) (sg @ dec_body ip dot fp) = dec_body ip dot fp"
    using assms(1) by (auto simp: sign_ok_def)
qed

text \<open>The code after the loop, for a given sign and digit text.\<close>

lemma btcc_parseDecimal_run:
  assumes "src \<noteq> []" "(src ! 0 = CHR ''-'') = neg" "drop (if neg then 1 else 0) src = body"
    and "btcc_parse_loop body 0 0 0 False = Inr (intPart, fracPart, scale)" "intPart \<le> maxInt64" "0 \<le> intPart"
    and "scale = 0 \<Longrightarrow> fracPart = 0"
  shows "btcc_parseDecimal src =
    (if scale \<le> 18 \<and> intPart * 10 ^ scale \<le> maxInt64 then
       Inr (let v = wrap64 (intPart * 10 ^ scale + fracPart)
            in \<lparr>Integer = (if neg then wrap64 (- v) else v), Scale = int scale\<rparr>)
     else Inl Btcc_ErrInvalidPayload)"
proof -
  have g: "go_div maxInt64 (10 ^ scale) < intPart \<longleftrightarrow> maxInt64 < intPart * 10 ^ scale"
    by (rule div_guard) simp
  have w: "intPart * 10 ^ scale \<le> maxInt64 \<Longrightarrow> wrap64 (intPart * 10 ^ scale) = intPart * 10 ^ scale"
    by (rule wrap64_nonneg) (use assms(6) in simp_all)
  have "scale = 0 \<Longrightarrow> wrap64 intPart = intPart" by (rule wrap64_nonneg) (use assms in simp_all)
  with assms g w show ?thesis
    by (cases "scale = 0") (simp_all add: btcc_parseDecimal_def Let_def mul_loop_one not_less)
qed

lemma btcc_parseDecimal_error:
  assumes "src \<noteq> []" "(src ! 0 = CHR ''-'') = neg" "drop (if neg then 1 else 0) src = body"
    and "btcc_parse_loop body 0 0 0 False = Inl e"
  shows "btcc_parseDecimal src = Inl e"
  using assms by (simp add: btcc_parseDecimal_def Let_def)

lemma btcc_parse_body:
  assumes "sign_ok sg" "dec_parts ip dot fp" "sg @ dec_body ip dot fp \<noteq> []"
  shows "btcc_parseDecimal (sg @ dec_body ip dot fp) =
    (if dec_fits ip fp then Inr (dec_value sg ip fp) else Inl Btcc_ErrInvalidPayload)"
proof (cases "int (dec_val ip) \<le> maxInt64 \<and> int (dec_val fp) \<le> maxInt64")
  case True
  then have "btcc_parse_loop (dec_body ip dot fp) 0 0 0 False
      = Inr (int (dec_val ip), int (dec_val fp), length fp)"
    using parse_loop_body [OF assms(2)] by simp
  from btcc_parseDecimal_run [OF assms(3) sign_test [OF assms] this] True
  show ?thesis by (simp add: dec_fits_def dec_value_def)
next
  case False
  then have f: "\<not> dec_fits ip fp" using dec_fits_parts [OF _ assms(2)] by blast
  have "btcc_parse_loop (dec_body ip dot fp) 0 0 0 False = Inl Btcc_ErrInvalidPayload"
    using parse_loop_body [OF assms(2)] False by auto
  from btcc_parseDecimal_error [OF assms(3) sign_test [OF assms] this] f show ?thesis by simp
qed

lemma btcc_parse_accepts:
  assumes "btcc_parseDecimal src = Inr d"
  shows "src \<noteq> [] \<and> (\<exists>sg ip dot fp. sign_ok sg \<and> dec_parts ip dot fp \<and> src = sg @ dec_body ip dot fp)"
proof -
  have ne: "src \<noteq> []" using assms by (auto simp: btcc_parseDecimal_def)
  define i :: nat where "i = (if src ! 0 = CHR ''-'' then 1 else 0)"
  obtain r where "btcc_parse_loop (drop i src) 0 0 0 False = Inr r"
    using assms ne by (auto simp: btcc_parseDecimal_def i_def Let_def split: sum.splits)
  then obtain ip dot fp where b: "drop i src = dec_body ip dot fp" "dec_parts ip dot fp"
    by (rule parse_loop_accepts)
  have "src = take i src @ dec_body ip dot fp" using b(1) append_take_drop_id [of i src] by simp
  moreover have "sign_ok (take i src)"
    using ne by (cases src) (auto simp: i_def sign_ok_def)
  ultimately show ?thesis using b(2) ne by blast
qed

subsection \<open>The contract of a decimal reader\<close>

text \<open>
  \<open>parse_accepts\<close>: only a sign, digits and at most one dot are accepted. \<open>parse_body\<close>: such a
  text is accepted exactly when the fraction has at most 18 digits and the scaled integer part
  fits; its value is then the digits, wrapped to 64 bits.
\<close>

locale decimal_reader =
  fixes parse :: "string \<Rightarrow> 'e + Decimal" and bad :: 'e
  assumes parse_body: "sign_ok sg \<Longrightarrow> dec_parts ip dot fp \<Longrightarrow> sg @ dec_body ip dot fp \<noteq> [] \<Longrightarrow>
      parse (sg @ dec_body ip dot fp) = (if dec_fits ip fp then Inr (dec_value sg ip fp) else Inl bad)"
    and parse_accepts: "parse src = Inr d \<Longrightarrow> src \<noteq> [] \<and>
      (\<exists>sg ip dot fp. sign_ok sg \<and> dec_parts ip dot fp \<and> src = sg @ dec_body ip dot fp)"
begin

lemma parse_iff:
  "parse src = Inr d \<longleftrightarrow> src \<noteq> [] \<and> (\<exists>sg ip dot fp. sign_ok sg \<and> dec_parts ip dot fp
     \<and> src = sg @ dec_body ip dot fp \<and> dec_fits ip fp \<and> d = dec_value sg ip fp)"
  (is "?l \<longleftrightarrow> ?r")
proof
  assume l: ?l
  then obtain sg ip dot fp where p: "sign_ok sg" "dec_parts ip dot fp" "src = sg @ dec_body ip dot fp"
    and ne: "src \<noteq> []" using parse_accepts by blast
  with l parse_body [OF p(1,2)] have "dec_fits ip fp \<and> d = dec_value sg ip fp"
    by (auto split: if_splits)
  with p ne show ?r by blast
next
  assume ?r
  then obtain sg ip dot fp where p: "sign_ok sg" "dec_parts ip dot fp" "src = sg @ dec_body ip dot fp"
    "dec_fits ip fp" "d = dec_value sg ip fp" and "src \<noteq> []" by blast
  then show ?l using parse_body [OF p(1,2)] by simp
qed

lemma parse_bounds:
  assumes "parse src = Inr d"
  shows "0 \<le> Scale d" "Scale d \<le> 18" "in_int64 (Integer d)"
proof -
  obtain sg ip fp where "dec_fits ip fp" "d = dec_value sg ip fp"
    using assms unfolding parse_iff by blast
  then show "0 \<le> Scale d" "Scale d \<le> 18" "in_int64 (Integer d)"
    by (simp_all add: dec_value_def dec_fits_def Let_def)
qed

text \<open>When the digits fit 64 bits the value is exact; otherwise the last addition has wrapped.\<close>

lemma parse_exact:
  assumes "dec_parts ip dot fp" "sign_ok sg" "sg @ dec_body ip dot fp \<noteq> []" "length fp \<le> 18"
    and "int (dec_val ip * 10 ^ length fp + dec_val fp) \<le> maxInt64"
  shows "parse (sg @ dec_body ip dot fp) =
    Inr \<lparr>Integer = (if sg \<noteq> [] then - 1 else 1) * int (dec_val ip * 10 ^ length fp + dec_val fp),
         Scale = int (length fp)\<rparr>"
proof -
  let ?v = "int (dec_val ip) * 10 ^ length fp + int (dec_val fp)"
  have v: "?v \<le> maxInt64" using assms(5) by simp
  moreover have "int (dec_val ip) * 10 ^ length fp \<le> ?v" by simp
  ultimately have fits: "dec_fits ip fp" using assms(4) unfolding dec_fits_def by linarith
  have "0 \<le> ?v" by simp
  with v have "wrap64 ?v = ?v" "wrap64 (- ?v) = - ?v"
    by (simp_all only: wrap64_nonneg wrap64_neg)
  then show ?thesis using parse_body [OF assms(2,1,3)] fits
    by (simp add: dec_value_def Let_def)
qed

text \<open>Reading back what \<open>Decimal.AppendBytes\<close> writes.\<close>

lemma parse_append:
  assumes "0 \<le> Scale d" "Scale d \<le> 18" "\<bar>Integer d\<bar> \<le> maxInt64"
  shows "parse (Decimal_AppendBytes d buf) = Inr d"
proof -
  have i: "in_int64 (Integer d)" using assms(3) by (auto simp: in_int64_def maxInt64_def abs_le_iff)
  have st: "sign_ok (sign_text v)" "(sign_text v \<noteq> []) = (v < 0)" for v by (simp_all add: sign_text_def sign_ok_def)
  have ex: "parse (sign_text (Integer d) @ dec_body ip dot fp) = Inr d"
    if "ip \<noteq> []" "dec_parts ip dot fp" "int (length fp) = Scale d"
      "dec_val ip * 10 ^ length fp + dec_val fp = nat \<bar>Integer d\<bar>" for ip dot fp
  proof -
    have "int (dec_val ip * 10 ^ length fp + dec_val fp) \<le> maxInt64" using that(4) assms(3) by simp
    moreover have "length fp \<le> 18" using that(3) assms(2) by simp
    moreover have "sign_text (Integer d) @ dec_body ip dot fp \<noteq> []" using that(1) by (simp add: dec_body_def)
    ultimately show ?thesis using parse_exact [OF that(2) st(1)] that(3,4) st(2) by (simp add: abs_if)
  qed
  show ?thesis
  proof (cases "Scale d = 0")
    case True
    then show ?thesis using ex [of "dec_nat (nat \<bar>Integer d\<bar>)" False "[]"]
      by (auto simp: Decimal_AppendBytes_def appendScaledInt_unscaled dec_parts_def dec_body_def dest: dec_nat_digits)
  next
    case False
    with assms have s: "0 < Scale d" by simp
    obtain ip fp where sh: "appendScaledInt buf (Integer d) (Scale d) = sign_text (Integer d) @ ip @ [CHR ''.''] @ fp"
      "ip \<noteq> []" "\<forall>c \<in> set ip. is_digit c" "\<forall>c \<in> set fp. is_digit c" "int (length fp) = Scale d"
      "dec_val ip * 10 ^ nat (Scale d) + dec_val fp = nat \<bar>Integer d\<bar>"
      by (rule appendScaledInt_shape [OF i s, of buf])
    moreover have "nat (Scale d) = length fp" using sh(5) by simp
    ultimately show ?thesis using ex [of ip True fp]
      by (simp add: Decimal_AppendBytes_def dec_parts_def dec_body_def)
  qed
qed

end

interpretation btcc_reader: decimal_reader btcc_parseDecimal Btcc_ErrInvalidPayload
  by unfold_locales (rule btcc_parse_body btcc_parse_accepts; assumption)+

subsection \<open>Rescaling and subtraction\<close>

definition rescale_fits :: "Decimal \<Rightarrow> int \<Rightarrow> bool" where
  "rescale_fits d scale \<longleftrightarrow> Scale d \<le> scale \<and> scale - Scale d \<le> 18
     \<and> \<bar>Integer d * 10 ^ nat (scale - Scale d)\<bar> \<le> maxInt64"

lemma div_guard_low: "0 < m \<Longrightarrow> v < go_div (- maxInt64) m \<longleftrightarrow> v * m < - maxInt64"
proof -
  assume m: "0 < m"
  have "v < - (maxInt64 div m) \<longleftrightarrow> maxInt64 div m < - v" by linarith
  also have "\<dots> \<longleftrightarrow> maxInt64 < - v * m" by (rule div_guard_gen [OF m])
  finally show ?thesis using m by (auto simp: go_div_neg maxInt64_def)
qed

lemma btcc_rescale_law:
  assumes "0 \<le> Scale d" "scale \<le> maxInt64"
  shows "btcc_rescaleDecimal d scale =
    (if rescale_fits d scale then Some (Integer d * 10 ^ nat (scale - Scale d)) else None)"
proof (cases "Scale d \<le> scale")
  case True
  let ?n = "nat (scale - Scale d)" let ?m = "10 ^ ?n :: int"
  have w: "wrap64 (scale - Scale d) = scale - Scale d" using True assms by (intro wrap64_nonneg) simp_all
  have n: "?n \<le> 18 \<longleftrightarrow> scale - Scale d \<le> 18" by linarith
  have hi: "go_div maxInt64 ?m < Integer d \<longleftrightarrow> maxInt64 < Integer d * ?m" by (rule div_guard) simp
  have lo: "Integer d < go_div (- maxInt64) ?m \<longleftrightarrow> Integer d * ?m < - maxInt64" by (rule div_guard_low) simp
  have id: "\<bar>Integer d * ?m\<bar> \<le> maxInt64 \<Longrightarrow> wrap64 (Integer d * ?m) = Integer d * ?m"
    by (rule wrap64_id) (auto simp: in_int64_def maxInt64_def abs_le_iff)
  have abs: "\<bar>Integer d * ?m\<bar> \<le> maxInt64 \<longleftrightarrow> \<not> (maxInt64 < Integer d * ?m \<or> Integer d * ?m < - maxInt64)"
    by linarith
  have "btcc_rescaleDecimal d scale =
      (if ?n \<le> 18 then if go_div maxInt64 ?m < Integer d \<or> Integer d < go_div (- maxInt64) ?m then None
       else Some (wrap64 (Integer d * ?m)) else None)"
    using True w by (simp add: btcc_rescaleDecimal_def mul_loop_one)
  moreover have "rescale_fits d scale \<longleftrightarrow> ?n \<le> 18
      \<and> \<not> (go_div maxInt64 ?m < Integer d \<or> Integer d < go_div (- maxInt64) ?m)"
    unfolding hi lo rescale_fits_def abs n using True by blast
  moreover have "rescale_fits d scale \<Longrightarrow> wrap64 (Integer d * ?m) = Integer d * ?m"
    by (rule id) (simp add: rescale_fits_def)
  ultimately show ?thesis by (auto split: if_splits)
qed (simp add: btcc_rescaleDecimal_def rescale_fits_def)

locale decimal_subtraction =
  fixes rescale :: "Decimal \<Rightarrow> int \<Rightarrow> int option" and sub :: "Decimal \<Rightarrow> Decimal \<Rightarrow> Decimal"
  assumes rescale_law: "0 \<le> Scale d \<Longrightarrow> scale \<le> maxInt64 \<Longrightarrow> rescale d scale =
      (if rescale_fits d scale then Some (Integer d * 10 ^ nat (scale - Scale d)) else None)"
    and sub_law: "sub a b = (let s = max (Scale a) (Scale b) in
      case (rescale a s, rescale b s) of
        (Some x, Some y) \<Rightarrow> \<lparr>Integer = wrap64 (x - y), Scale = s\<rparr> | _ \<Rightarrow> \<lparr>Integer = 0, Scale = s\<rparr>)"
begin

text \<open>Exact at the finer scale when both operands and the difference fit; zero when one does not.\<close>

lemma sub_exact:
  assumes "0 \<le> Scale a" "0 \<le> Scale b" "s = max (Scale a) (Scale b)" "s \<le> maxInt64"
    and "rescale_fits a s" "rescale_fits b s"
    and "in_int64 (Integer a * 10 ^ nat (s - Scale a) - Integer b * 10 ^ nat (s - Scale b))"
  shows "sub a b = \<lparr>Integer = Integer a * 10 ^ nat (s - Scale a) - Integer b * 10 ^ nat (s - Scale b), Scale = s\<rparr>"
  using assms by (simp add: sub_law rescale_law Let_def flip: assms(3))

lemma sub_overflow:
  assumes "0 \<le> Scale a" "0 \<le> Scale b" "s = max (Scale a) (Scale b)" "s \<le> maxInt64"
    and "\<not> (rescale_fits a s \<and> rescale_fits b s)"
  shows "sub a b = \<lparr>Integer = 0, Scale = s\<rparr>"
  using assms by (auto simp add: sub_law rescale_law Let_def simp flip: assms(3) split: option.split)

lemma sub_self:
  assumes "0 \<le> Scale a" "Scale a \<le> maxInt64"
  shows "sub a a = \<lparr>Integer = 0, Scale = Scale a\<rparr>"
proof (cases "rescale_fits a (Scale a)")
  case True
  then show ?thesis using assms by (subst sub_exact [where s = "Scale a"]) (simp_all add: in_int64_def)
next
  case False
  then show ?thesis using assms by (subst sub_overflow [where s = "Scale a"]) simp_all
qed

end

interpretation btcc_sub: decimal_subtraction btcc_rescaleDecimal btcc_decimalSub
proof
  fix a b :: Decimal
  have "(if Scale a < Scale b then Scale b else Scale a) = max (Scale a) (Scale b)" by simp
  then show "btcc_decimalSub a b = (let s = max (Scale a) (Scale b) in
      case (btcc_rescaleDecimal a s, btcc_rescaleDecimal b s) of
        (Some x, Some y) \<Rightarrow> \<lparr>Integer = wrap64 (x - y), Scale = s\<rparr> | _ \<Rightarrow> \<lparr>Integer = 0, Scale = s\<rparr>)"
    by (simp only: btcc_decimalSub_def Let_def) (simp split: option.split)
qed (rule btcc_rescale_law)

end
