(* ===== verification/Scan_Lib.thy ===== *)
theory Scan_Lib
  imports Go_Prelude "HOL-Library.Sublist"
begin

section \<open>What the byte scanners share\<close>

text \<open>
  The program has three scanners of JSON text (\<open>libs/shared/scanner\<close> and one in each exchange
  package) that repeat the same loops: search for a key, step over the colon and the spaces, and
  read a quoted value or a run of digits. The loops are here once, by index as in the code, each
  with its reading on the text that is left (\<open>drop i payload\<close>). The collection \<open>scan\<close> holds those
  readings: they turn a statement about indices into one about suffixes.
\<close>

named_theorems scan

lemma drop_skip_while [scan]:
  "i \<le> length xs \<Longrightarrow> drop (skip_while P xs i) xs = dropWhile P (drop i xs)"
  by (simp add: skip_while_eq dropWhile_eq_drop add.commute)

lemma skip_while_lt [scan]:
  "i \<le> length xs \<Longrightarrow> skip_while P xs i < length xs \<longleftrightarrow> dropWhile P (drop i xs) \<noteq> []"
  by (metis drop_eq_Nil drop_skip_while not_le)

lemma nth_drop_hd: "i < length xs \<Longrightarrow> xs ! i = hd (drop i xs)"
  by (simp add: hd_drop_conv_nth)

subsection \<open>Searching for a key\<close>

text \<open>The inner loop \<open>for j := 0; j < len(key); j++ { if payload[i+j] != key[j] { continue outer } }\<close>.\<close>

definition match_at :: "string \<Rightarrow> string \<Rightarrow> nat \<Rightarrow> bool" where
  "match_at payload key i \<longleftrightarrow> list_all (\<lambda>j. payload ! (i + j) = key ! j) [0..<length key]"

function index_loop :: "string \<Rightarrow> string \<Rightarrow> nat \<Rightarrow> int" where
  "index_loop payload key i =
     (if i + length key \<le> length payload
      then if match_at payload key i then int i else index_loop payload key (Suc i)
      else - 1)"
  by pat_completeness auto
termination
  by (relation "measure (\<lambda>(payload, key, i). Suc (length payload) - i)") auto

declare index_loop.simps [simp del]

lemma match_at_prefix [scan]:
  assumes "i + length key \<le> length payload"
  shows "match_at payload key i \<longleftrightarrow> prefix key (drop i payload)"
proof -
  have "match_at payload key i \<longleftrightarrow> (\<forall>j < length key. drop i payload ! j = key ! j)"
    using assms by (auto simp: match_at_def list_all_iff)
  also have "\<dots> \<longleftrightarrow> take (length key) (drop i payload) = key"
    using assms by (auto simp: list_eq_iff_nth_eq)
  also have "\<dots> \<longleftrightarrow> prefix key (drop i payload)"
    by (metis append_eq_conv_conj prefix_def take_is_prefix)
  finally show ?thesis .
qed

lemma prefix_length_bound: "key \<noteq> [] \<Longrightarrow> prefix key (drop i payload) \<Longrightarrow> i + length key \<le> length payload"
  using prefix_length_le [of key "drop i payload"] by (cases key) auto

text \<open>\<open>index_loop\<close> returns the first occurrence at or after \<open>i\<close>, or -1 when there is none.\<close>

lemma index_loop_spec:
  assumes "key \<noteq> []"
  shows "index_loop payload key i = int k \<longleftrightarrow>
     i \<le> k \<and> prefix key (drop k payload) \<and> (\<forall>j. i \<le> j \<and> j < k \<longrightarrow> \<not> prefix key (drop j payload))"
  using assms
proof (induction payload key i rule: index_loop.induct)
  case (1 payload key i)
  have bound: "prefix key (drop j payload) \<Longrightarrow> j + length key \<le> length payload" for j
    using "1.prems" prefix_length_bound by blast
  consider (step) "i + length key \<le> length payload" "\<not> match_at payload key i"
    | (hit) "i + length key \<le> length payload" "match_at payload key i"
    | (out) "\<not> i + length key \<le> length payload" by blast
  then show ?case
  proof cases
    case step
    then have "\<not> prefix key (drop i payload)" by (auto simp: match_at_prefix)
    moreover have "index_loop payload key i = index_loop payload key (Suc i)"
      using step by (simp add: index_loop.simps [of payload key i])
    ultimately show ?thesis
      using "1.IH" step "1.prems" by (metis Suc_leD Suc_leI le_neq_implies_less le_refl)
  next
    case hit
    then have "prefix key (drop i payload)" by (auto simp: match_at_prefix)
    moreover have "index_loop payload key i = int i"
      using hit by (simp add: index_loop.simps [of payload key i])
    ultimately show ?thesis by (metis le_neq_implies_less le_refl not_less_iff_gr_or_eq not_less of_nat_eq_iff)
  next
    case out
    then have "index_loop payload key i \<noteq> int k" by (simp add: index_loop.simps [of payload key i])
    moreover have "i \<le> k \<Longrightarrow> \<not> prefix key (drop k payload)" using out bound [of k] by linarith
    ultimately show ?thesis by blast
  qed
qed

lemma index_loop_cases:
  assumes "key \<noteq> []"
  obtains "index_loop payload key i = - 1" "\<forall>j \<ge> i. \<not> prefix key (drop j payload)"
  | k where "index_loop payload key i = int k" "i \<le> k" "prefix key (drop k payload)"
      "\<forall>j. i \<le> j \<and> j < k \<longrightarrow> \<not> prefix key (drop j payload)"
proof -
  have "index_loop payload key i = - 1 \<or> (\<exists>k. index_loop payload key i = int k)"
  proof (induction payload key i rule: index_loop.induct)
    case (1 payload key i)
    then show ?case by (simp add: index_loop.simps [of payload key i])
  qed
  then show thesis
  proof
    assume m: "index_loop payload key i = - 1"
    have "\<not> prefix key (drop j payload)" if "i \<le> j" for j
    proof
      assume p: "prefix key (drop j payload)"
      define k where "k = (LEAST k. i \<le> k \<and> prefix key (drop k payload))"
      have k: "i \<le> k \<and> prefix key (drop k payload)"
        unfolding k_def by (rule LeastI [of _ j]) (use that p in simp)
      moreover have "\<not> prefix key (drop l payload)" if "i \<le> l" "l < k" for l
        using not_less_Least that unfolding k_def by blast
      ultimately have "index_loop payload key i = int k"
        using index_loop_spec [OF assms] by blast
      with m show False by simp
    qed
    with m show thesis using that(1) by blast
  next
    assume "\<exists>k. index_loop payload key i = int k"
    then show thesis using that(2) index_loop_spec [OF assms] by blast
  qed
qed

subsection \<open>Stepping over the colon\<close>

text \<open>
  The lines every field reader has after the key: run to the colon, give up at the end of the
  payload, step over it and over the spaces that follow.
\<close>

definition after_colon :: "string \<Rightarrow> nat \<Rightarrow> nat option" where
  "after_colon payload i =
     (let i = skip_while (\<lambda>c. c \<noteq> CHR '':'') payload i in
      if length payload \<le> i then None
      else Some (skip_while is_space payload (i + 1)))"

definition colon_tail :: "string \<Rightarrow> string option" where
  "colon_tail s = (case dropWhile (\<lambda>c. c \<noteq> CHR '':'') s of [] \<Rightarrow> None | _ # r \<Rightarrow> Some (dropWhile is_space r))"

lemma drop_Suc_dropWhile:
  "i \<le> length xs \<Longrightarrow> dropWhile P (drop i xs) = x # r \<Longrightarrow> drop (Suc (skip_while P xs i)) xs = r"
  by (metis drop_Suc drop_skip_while list.sel(3) tl_drop)

lemma after_colon_None [scan]:
  assumes "i \<le> length p"
  shows "after_colon p i = None \<longleftrightarrow> colon_tail (drop i p) = None"
proof -
  have "after_colon p i = None \<longleftrightarrow> \<not> skip_while (\<lambda>c. c \<noteq> CHR '':'') p i < length p"
    by (simp add: after_colon_def Let_def not_less)
  also have "\<dots> \<longleftrightarrow> dropWhile (\<lambda>c. c \<noteq> CHR '':'') (drop i p) = []"
    by (simp only: skip_while_lt [OF assms] not_not)
  also have "\<dots> \<longleftrightarrow> colon_tail (drop i p) = None"
    by (cases "dropWhile (\<lambda>c. c \<noteq> CHR '':'') (drop i p)") (simp_all only: colon_tail_def list.case, simp_all)
  finally show ?thesis .
qed

lemma after_colon_Some:
  assumes "i \<le> length p" and "after_colon p i = Some j"
  shows "j \<le> length p \<and> i < j \<and> colon_tail (drop i p) = Some (drop j p)"
proof -
  let ?k = "skip_while (\<lambda>c. c \<noteq> CHR '':'') p i"
  have k: "?k < length p" and j: "j = skip_while is_space p (Suc ?k)"
    using assms(2) by (auto simp: after_colon_def Let_def split: if_splits)
  then obtain x r where xr: "dropWhile (\<lambda>c. c \<noteq> CHR '':'') (drop i p) = x # r"
    using assms(1) by (metis skip_while_lt neq_Nil_conv)
  have "drop j p = dropWhile is_space r"
    using k j drop_Suc_dropWhile [OF assms(1) xr] by (simp add: drop_skip_while)
  moreover have "j \<le> length p" using k j by (simp add: skip_while_le)
  moreover have "i < j"
    using j skip_while_ge [of "Suc ?k" is_space p] skip_while_ge [of i "\<lambda>c. c \<noteq> CHR '':''" p] by linarith
  ultimately show ?thesis using xr by (simp add: colon_tail_def)
qed

lemma colon_tail_built:
  "CHR '':'' \<notin> set gap \<Longrightarrow> list_all is_space sp \<Longrightarrow> rest \<noteq> [] \<Longrightarrow> \<not> is_space (hd rest) \<Longrightarrow>
     colon_tail (gap @ '':'' @ sp @ rest) = Some rest"
proof -
  assume "CHR '':'' \<notin> set gap" "list_all is_space sp" "rest \<noteq> []" "\<not> is_space (hd rest)"
  then have "dropWhile (\<lambda>c. c \<noteq> CHR '':'') (gap @ '':'' @ sp @ rest) = '':'' @ sp @ rest"
    and "dropWhile is_space (sp @ rest) = rest"
    by (auto simp: dropWhile_append list_all_iff neq_Nil_conv)
  then show ?thesis by (simp add: colon_tail_def)
qed

lemma colon_tail_SomeD:
  assumes "colon_tail s = Some r"
  obtains gap sp where "s = gap @ '':'' @ sp @ r" "CHR '':'' \<notin> set gap" "list_all is_space sp"
    "r = [] \<or> \<not> is_space (hd r)"
proof -
  let ?P = "\<lambda>c. c \<noteq> CHR '':''"
  obtain x t where t: "dropWhile ?P s = x # t" and r: "r = dropWhile is_space t"
    using assms by (auto simp: colon_tail_def split: list.splits)
  have "x = CHR '':''" using t hd_dropWhile [of ?P s] by auto
  then have "s = takeWhile ?P s @ '':'' @ takeWhile is_space t @ r"
    using t r by (metis append_Cons append_Nil takeWhile_dropWhile_id)
  moreover have "CHR '':'' \<notin> set (takeWhile ?P s)" by (metis (full_types) set_takeWhileD)
  moreover have "list_all is_space (takeWhile is_space t)" by (auto simp: list_all_iff dest: set_takeWhileD)
  moreover have "r = [] \<or> \<not> is_space (hd r)" using hd_dropWhile r by blast
  ultimately show thesis using that by blast
qed

subsection \<open>A quoted value\<close>

text \<open>With \<open>payload[i]\<close> at the opening quote: the text up to the next quote, if there is one.\<close>

definition quoted_at :: "string \<Rightarrow> nat \<Rightarrow> string option" where
  "quoted_at payload i =
     (let start = i + 1; i = skip_while (\<lambda>c. c \<noteq> CHR 0x22) payload start in
      if length payload \<le> i then None else Some (slice payload start i))"

definition quoted_text :: "string \<Rightarrow> string option" where
  "quoted_text s =
     (if dropWhile (\<lambda>c. c \<noteq> CHR 0x22) (tl s) = [] then None
      else Some (takeWhile (\<lambda>c. c \<noteq> CHR 0x22) (tl s)))"

lemma quoted_at_eq [scan]: "i < length p \<Longrightarrow> quoted_at p i = quoted_text (drop i p)"
  using skip_while_lt [of "Suc i" p "\<lambda>c. c \<noteq> CHR 0x22"]
  by (auto simp: quoted_at_def quoted_text_def Let_def slice_skip_while tl_drop drop_Suc)

lemma quoted_text_built:
  assumes "CHR 0x22 \<notin> set v"
  shows "quoted_text (CHR 0x22 # v @ CHR 0x22 # post) = Some v"
  using assms by (auto simp: quoted_text_def dropWhile_append takeWhile_append)

lemma quoted_text_SomeD:
  assumes "quoted_text s = Some v"
  shows "CHR 0x22 \<notin> set v \<and> (\<exists>post. tl s = v @ CHR 0x22 # post)"
proof -
  let ?P = "\<lambda>c. c \<noteq> CHR 0x22"
  have v: "v = takeWhile ?P (tl s)" and "dropWhile ?P (tl s) \<noteq> []"
    using assms by (auto simp: quoted_text_def split: if_splits)
  then obtain post where "dropWhile ?P (tl s) = CHR 0x22 # post"
    using hd_dropWhile [of ?P "tl s"] by (cases "dropWhile ?P (tl s)") auto
  then have "tl s = v @ CHR 0x22 # post" using v by (metis takeWhile_dropWhile_id)
  moreover have "CHR 0x22 \<notin> set v" unfolding v by (metis (full_types) set_takeWhileD)
  ultimately show ?thesis by blast
qed

subsection \<open>A run of digits in a uint64\<close>

function uint_loop :: "string \<Rightarrow> nat \<Rightarrow> u64 \<Rightarrow> u64" where
  "uint_loop payload i v =
     (if i < length payload \<and> is_digit (payload ! i)
      then uint_loop payload (Suc i) (v * 10 + of_nat (digit_val (payload ! i)))
      else v)"
  by pat_completeness auto
termination
  by (relation "measure (\<lambda>(payload, i, v). length payload - i)") auto

declare uint_loop.simps [simp del]

text \<open>The accumulator wraps: the result is the value of the digits modulo \<open>2 ^ 64\<close>.\<close>

lemma uint_loop_eq:
  "i \<le> length p \<Longrightarrow> uint_loop p i v =
     v * 10 ^ length (takeWhile is_digit (drop i p)) + of_nat (dec_val (takeWhile is_digit (drop i p)))"
proof (induction p i v rule: uint_loop.induct)
  case (1 p i v)
  show ?case
  proof (cases "i < length p \<and> is_digit (p ! i)")
    case True
    then have "takeWhile is_digit (drop i p) = p ! i # takeWhile is_digit (drop (Suc i) p)"
      by (simp add: Cons_nth_drop_Suc [symmetric])
    with True 1 show ?thesis
      by (simp add: uint_loop.simps [of p i v] dec_val_Cons algebra_simps)
  next
    case False
    then have "takeWhile is_digit (drop i p) = []"
      by (cases "drop i p") (auto simp: Cons_nth_drop_Suc [symmetric] nth_drop_hd)
    with False show ?thesis by (auto simp: uint_loop.simps [of p i v])
  qed
qed

subsection \<open>Progress of a row loop\<close>

text \<open>Each round of a depth row loop moves the index forward: skip, two values, skip.\<close>

lemma row_round_progress:
  assumes "i < length p" "skip_while P p i < length p"
    and "skip_while P p i + 1 \<le> a" "a \<le> b"
  shows "length p - (if skip_while Q p b < length p then skip_while Q p b + 1 else skip_while Q p b)
    < length p - i"
proof -
  have "i \<le> skip_while P p i" "b \<le> skip_while Q p b" by (rule skip_while_ge)+
  with assms show ?thesis by (simp; linarith)
qed

lemma row_skip_progress:
  "i < length p \<Longrightarrow> length p - (skip_while P p i + 1) < length p - i"
  using skip_while_ge [of i P p] by linarith

subsection \<open>Elements of a JSON array\<close>

text \<open>Texts joined by commas, and the step over the separators in front of an element.\<close>

fun commas :: "string list \<Rightarrow> string" where
  "commas [] = []"
| "commas [x] = x"
| "commas (x # y # r) = x @ CHR '','' # commas (y # r)"

lemma commas_Cons: "commas (x # xs) = x @ (if xs = [] then [] else CHR '','' # commas xs)"
  by (cases xs) simp_all

definition elem_sep :: "string \<Rightarrow> bool" where
  "elem_sep sep \<longleftrightarrow> list_all (\<lambda>c. is_space c \<or> c = CHR '','') sep"

lemma skip_sep:
  assumes "elem_sep sep" "rest \<noteq> []" "\<not> is_space (hd rest)" "hd rest \<noteq> CHR '',''"
  shows "skip_while (\<lambda>c. is_space c \<or> c = CHR '','') (pre @ sep @ rest) (length pre) = length pre + length sep"
proof -
  let ?P = "\<lambda>c. is_space c \<or> c = CHR '',''"
  have "takeWhile ?P (sep @ rest) = sep @ takeWhile ?P rest"
    by (rule takeWhile_append2) (use assms(1) in \<open>auto simp: elem_sep_def list_all_iff\<close>)
  moreover have "takeWhile ?P rest = []" using assms(2-4) by (cases rest) auto
  ultimately show ?thesis using skip_while_append [of ?P pre "sep @ rest"] by simp
qed

end
