(* ===== verification/Go_Float.thy ===== *)
theory Go_Float
  imports Go_Prelude Complex_Main
begin

section \<open>float64: what the timestamp readers use\<close>

text \<open>
  \<open>strconv.ParseFloat\<close>, the product and the conversion \<open>int64(v)\<close> as \<open>parseJSONTimestamp\<close> and
  its websocket counterpart use them. A finite value is a rational; \<open>rnd64\<close> is the IEEE 754
  rounding to nearest, ties to even, with subnormals and overflow. \<open>ParseFloat\<close> is written out
  for plain decimal texts (sign, digits, dot, exponent); the other texts Go accepts
  (hexadecimal, \<open>Inf\<close>, \<open>NaN\<close>, underscores) and the conversion of values outside \<open>int64\<close>, which
  Go leaves to the implementation, are fields of the environment.
\<close>

datatype f64 = Fin rat | Infty bool | NaN

record go_env =
  go_now :: int
  parseFloat_other :: "string \<Rightarrow> f64 option"
  int64_other :: "f64 \<Rightarrow> int"

subsection \<open>Rounding\<close>

fun log2_nat :: "nat \<Rightarrow> nat" where
  "log2_nat n = (if n < 2 then 0 else Suc (log2_nat (n div 2)))"

declare log2_nat.simps [simp del]

definition pow2 :: "int \<Rightarrow> rat" where
  [go_eval]: "pow2 e = (if 0 \<le> e then 2 ^ nat e else 1 / 2 ^ nat (- e))"

definition exp2 :: "rat \<Rightarrow> int" where
  [go_eval]: "exp2 x = (if 1 \<le> x then int (log2_nat (nat \<lfloor>x\<rfloor>))
                        else - int (log2_nat (nat (\<lceil>1 / x\<rceil> - 1))) - 1)"

definition round_even :: "rat \<Rightarrow> int" where
  [go_eval]: "round_even y =
     (let f = \<lfloor>y\<rfloor>; d = y - of_int f in
      if d < 1 / 2 \<or> d = 1 / 2 \<and> even f then f else f + 1)"

definition ulp_exp :: "rat \<Rightarrow> int" where
  [go_eval]: "ulp_exp x = max (exp2 x - 52) (- 1074)"

definition rnd64 :: "rat \<Rightarrow> f64" where
  [go_eval]: "rnd64 x =
     (if x = 0 then Fin 0
      else let u = pow2 (ulp_exp \<bar>x\<bar>); r = of_int (round_even (\<bar>x\<bar> / u)) * u in
        if 2 ^ 1024 \<le> r then Infty (x < 0) else Fin (if x < 0 then - r else r))"

lemma log2_nat_bounds: "0 < n \<Longrightarrow> 2 ^ log2_nat n \<le> n \<and> n < 2 ^ Suc (log2_nat n)"
proof (induction n rule: log2_nat.induct)
  case (1 n)
  show ?case
  proof (cases "n < 2")
    case True
    with 1 show ?thesis by (simp add: log2_nat.simps [of n])
  next
    case False
    with 1 have "2 ^ log2_nat (n div 2) \<le> n div 2 \<and> n div 2 < 2 ^ Suc (log2_nat (n div 2))" by simp
    then have "2 ^ Suc (log2_nat (n div 2)) \<le> n \<and> n < 2 ^ Suc (Suc (log2_nat (n div 2)))"
      unfolding power_Suc by linarith
    then show ?thesis using False by (simp only: log2_nat.simps [of n] if_False)
  qed
qed

lemma pow2_pos [simp]: "0 < pow2 e"
  by (simp add: pow2_def)

lemma pow2_add: "pow2 (a + b) = pow2 a * pow2 b"
proof -
  have "pow2 e = 2 powi e" for e by (auto simp: pow2_def power_int_def inverse_eq_divide power_divide)
  then show ?thesis by (simp add: power_int_add)
qed

lemma pow2_mono: "a \<le> b \<Longrightarrow> pow2 a \<le> pow2 b"
proof -
  assume "a \<le> b"
  then have "pow2 (b - a) = 2 ^ nat (b - a)" by (simp add: pow2_def)
  then have "1 \<le> pow2 (b - a)" by simp
  then have "pow2 a * 1 \<le> pow2 a * pow2 (b - a)" by (intro mult_left_mono) (simp_all add: less_imp_le)
  then show "pow2 a \<le> pow2 b" by (simp flip: pow2_add)
qed

lemma pow2_exp2_le:
  assumes "1 \<le> x"
  shows "pow2 (exp2 x) \<le> x"
proof -
  have "0 < nat \<lfloor>x\<rfloor>" using assms by (simp add: le_floor_iff)
  then have "2 ^ log2_nat (nat \<lfloor>x\<rfloor>) \<le> nat \<lfloor>x\<rfloor>" using log2_nat_bounds by blast
  then have "(2::int) ^ log2_nat (nat \<lfloor>x\<rfloor>) \<le> \<lfloor>x\<rfloor>" using assms by (simp add: le_nat_iff)
  then show ?thesis using assms by (simp add: exp2_def pow2_def le_floor_iff)
qed

lemma exp2_le:
  assumes "1 \<le> x" "x < 2 ^ k"
  shows "exp2 x < int k"
proof (rule ccontr)
  assume "\<not> exp2 x < int k"
  then have "pow2 (int k) \<le> pow2 (exp2 x)" by (intro pow2_mono) simp
  also have "\<dots> \<le> x" using assms by (rule_tac pow2_exp2_le)
  finally show False using assms by (simp add: pow2_def)
qed

lemma round_even_err: "\<bar>of_int (round_even y) - y\<bar> \<le> 1 / 2"
proof -
  define d where "d = y - of_int \<lfloor>y\<rfloor>"
  have d: "0 \<le> d" "d < 1" using floor_correct [of y] by (simp_all add: d_def)
  have "of_int (round_even y) - y = (if d < 1 / 2 \<or> d = 1 / 2 \<and> even \<lfloor>y\<rfloor> then - d else 1 - d)"
    by (simp add: round_even_def Let_def d_def)
  with d show ?thesis by (auto simp: abs_if)
qed

lemma round_even_of_int [simp]: "round_even (of_int n) = n"
  by (simp add: round_even_def)

text \<open>Relative error at most \<open>2 ^ -53\<close> for values from 1 up.\<close>

lemma rnd64_err:
  assumes "1 \<le> x" "rnd64 x = Fin r"
  shows "\<bar>r - x\<bar> \<le> x / 2 ^ 53"
proof -
  have "0 \<le> exp2 x" using assms by (simp add: exp2_def)
  then have u: "ulp_exp x = exp2 x - 52" by (simp add: ulp_exp_def)
  let ?u = "pow2 (exp2 x - 52)"
  have "?u * pow2 52 = pow2 (exp2 x)" by (simp flip: pow2_add)
  then have "?u * 2 ^ 52 \<le> x" using pow2_exp2_le [OF assms(1)] by (simp add: pow2_def)
  then have small: "?u / 2 \<le> x / 2 ^ 53" by simp
  have r: "r = of_int (round_even (x / ?u)) * ?u"
    using assms by (auto simp: rnd64_def Let_def u abs_if split: if_splits)
  have "r - x = (of_int (round_even (x / ?u)) - x / ?u) * ?u"
    using pow2_pos [of "exp2 x - 52"] by (simp add: r left_diff_distrib less_imp_neq [symmetric])
  then have "\<bar>r - x\<bar> = \<bar>of_int (round_even (x / ?u)) - x / ?u\<bar> * ?u"
    using pow2_pos [of "exp2 x - 52"] by (simp add: abs_mult less_imp_le)
  also have "\<dots> \<le> 1 / 2 * ?u" by (intro mult_right_mono round_even_err) (simp add: less_imp_le)
  finally show ?thesis using small by simp
qed

text \<open>A value with at most 53 significant bits is exact.\<close>

lemma rnd64_scaled:
  assumes "0 < n" "n < 2 ^ 53" "k \<le> 900"
  shows "rnd64 (of_int (n * 2 ^ k)) = Fin (of_int (n * 2 ^ k))"
proof -
  let ?x = "of_int (n * 2 ^ k) :: rat"
  have "0 < n * 2 ^ k" using assms(1) by simp
  then have "1 \<le> n * 2 ^ k" by linarith
  then have one: "1 \<le> ?x" by (simp only: of_int_1_le_iff)
  have "n * 2 ^ k < 2 ^ 53 * 2 ^ k" by (rule mult_strict_right_mono) (use assms(2) in simp_all)
  then have "?x < of_int (2 ^ 53 * 2 ^ k)" by (simp only: of_int_less_iff)
  then have lt: "?x < 2 ^ (53 + k)" by (simp add: power_add)
  have e: "0 \<le> exp2 ?x" "exp2 ?x < int (53 + k)" using exp2_le [OF one lt] one by (simp_all add: exp2_def)
  then have u: "ulp_exp ?x = exp2 ?x - 52" by (simp add: ulp_exp_def)
  define u where "u = exp2 ?x - 52"
  have "pow2 (int k - u) = 2 ^ nat (int k - u)" using e by (simp add: pow2_def u_def)
  moreover have "pow2 (int k) = pow2 (int k - u) * pow2 u" by (simp flip: pow2_add)
  moreover have "pow2 (int k) = 2 ^ k" by (simp add: pow2_def)
  ultimately have x: "?x = of_int (n * 2 ^ nat (int k - u)) * pow2 u" by simp
  have "pow2 u \<noteq> 0" by (simp add: less_imp_neq [symmetric])
  then have "?x / pow2 u = of_int (n * 2 ^ nat (int k - u))"
    unfolding x by (rule nonzero_mult_div_cancel_right)
  then have r: "of_int (round_even (?x / pow2 u)) * pow2 u = ?x"
    by (simp only: round_even_of_int, simp only: x)
  have "(2::rat) ^ (53 + k) \<le> 2 ^ 1024" by (rule power_increasing) (use assms(3) in simp_all)
  then have "\<not> 2 ^ 1024 \<le> ?x" using lt by linarith
  moreover have "\<bar>?x\<bar> = ?x" "?x \<noteq> 0" "\<not> ?x < 0" using one by linarith+
  ultimately show ?thesis using r unfolding rnd64_def Let_def by (simp only: u flip: u_def) simp
qed

lemma rnd64_int: "0 < n \<Longrightarrow> n < 2 ^ 53 \<Longrightarrow> rnd64 (of_int n) = Fin (of_int n)"
  using rnd64_scaled [of n 0] by simp

subsection \<open>ParseFloat on decimal texts\<close>

definition exp_val :: "string \<Rightarrow> int" where
  [go_eval]: "exp_val ds = foldl (\<lambda>e c. if e < 10000 then e * 10 + int (digit_val c) else e) 0 ds"

definition read_exp :: "string \<Rightarrow> int option" where
  [go_eval]: "read_exp t =
     (let ds = (if t \<noteq> [] \<and> (hd t = CHR ''+'' \<or> hd t = CHR ''-'') then tl t else t) in
      if ds = [] \<or> \<not> list_all is_digit ds then None
      else Some (if hd t = CHR ''-'' then - exp_val ds else exp_val ds))"

definition read_decimal :: "string \<Rightarrow> (bool \<times> string \<times> string \<times> int) option" where
  [go_eval]: "read_decimal s =
     (let neg = (s \<noteq> [] \<and> hd s = CHR ''-'');
          r = (if s \<noteq> [] \<and> (hd s = CHR ''+'' \<or> hd s = CHR ''-'') then tl s else s);
          ip = takeWhile is_digit r; r = dropWhile is_digit r;
          fp = (if r \<noteq> [] \<and> hd r = CHR ''.'' then takeWhile is_digit (tl r) else []);
          r = (if r \<noteq> [] \<and> hd r = CHR ''.'' then dropWhile is_digit (tl r) else r)
      in if ip = [] \<and> fp = [] then None
         else if r = [] then Some (neg, ip, fp, 0)
         else if hd r = CHR ''e'' \<or> hd r = CHR ''E''
              then map_option (\<lambda>e. (neg, ip, fp, e)) (read_exp (tl r))
         else None)"

definition pow10 :: "int \<Rightarrow> rat" where
  [go_eval]: "pow10 e = (if 0 \<le> e then 10 ^ nat e else 1 / 10 ^ nat (- e))"

definition parseFloat :: "go_env \<Rightarrow> string \<Rightarrow> f64 option" where
  [go_eval]: "parseFloat env s =
     (case read_decimal s of
        None \<Rightarrow> parseFloat_other env s
      | Some (neg, ip, fp, e) \<Rightarrow>
          let x = of_nat (dec_val (ip @ fp)) * pow10 (e - int (length fp)) in
          case rnd64 (if neg then - x else x) of Infty _ \<Rightarrow> None | v \<Rightarrow> Some v)"

subsection \<open>Comparison, product and conversion\<close>

fun f64_le0 :: "f64 \<Rightarrow> bool" where
  "f64_le0 (Fin x) \<longleftrightarrow> x \<le> 0"
| "f64_le0 (Infty neg) \<longleftrightarrow> neg"
| "f64_le0 NaN \<longleftrightarrow> False"

fun f64_gt :: "f64 \<Rightarrow> rat \<Rightarrow> bool" where
  "f64_gt (Fin x) c \<longleftrightarrow> c < x"
| "f64_gt (Infty neg) c \<longleftrightarrow> \<not> neg"
| "f64_gt NaN c \<longleftrightarrow> False"

fun f64_mul_pos :: "f64 \<Rightarrow> rat \<Rightarrow> f64" where
  "f64_mul_pos (Fin x) c = rnd64 (x * c)"
| "f64_mul_pos v c = v"

definition trunc_rat :: "rat \<Rightarrow> int" where
  [go_eval]: "trunc_rat x = (if 0 \<le> x then \<lfloor>x\<rfloor> else \<lceil>x\<rceil>)"

definition f64_to_int64 :: "go_env \<Rightarrow> f64 \<Rightarrow> int" where
  [go_eval]: "f64_to_int64 env v =
     (case v of Fin x \<Rightarrow> if in_int64 (trunc_rat x) then trunc_rat x else wrap64 (int64_other env v)
      | _ \<Rightarrow> wrap64 (int64_other env v))"

lemma f64_to_int64_range: "in_int64 (f64_to_int64 env v)"
  by (simp add: f64_to_int64_def split: f64.split)

lemma read_decimal_digits:
  assumes "ds \<noteq> []" "\<forall>c \<in> set ds. is_digit c"
  shows "read_decimal ds = Some (False, ds, [], 0)"
proof -
  have "is_digit (hd ds)" using assms by simp
  then have "hd ds \<noteq> CHR ''-''" "hd ds \<noteq> CHR ''+''" by (auto dest: is_digit_ne)
  moreover have "takeWhile is_digit ds = ds" "dropWhile is_digit ds = []" using assms(2) by simp_all
  ultimately show ?thesis using assms(1) by (simp add: read_decimal_def Let_def del: takeWhile_eq_all_conv dropWhile_eq_Nil_conv)
qed

lemma parseFloat_digits:
  assumes "ds \<noteq> []" "\<forall>c \<in> set ds. is_digit c" "0 < dec_val ds" "dec_val ds < 2 ^ 53"
  shows "parseFloat env ds = Some (Fin (of_nat (dec_val ds)))"
proof -
  have "rnd64 (of_int (int (dec_val ds))) = Fin (of_int (int (dec_val ds)))"
    by (rule rnd64_int) (use assms in simp_all)
  then show ?thesis using assms by (simp add: parseFloat_def read_decimal_digits pow10_def)
qed

end
