(* ===== verification/Adapter_Codable.thy ===== *)
theory Adapter_Codable
  imports Adapter_Records
begin

section \<open>The generated encoders: a struct as its bytes in memory\<close>

text \<open>
  \<open>libs/adapter/*_codable.go\<close>: \<open>Encode\<close> copies the memory of the struct, \<open>Decode\<close> copies bytes
  over a zero struct. The memory of a struct is modelled with the layout of the Go compiler on a
  64-bit little-endian target: fields in order, \<open>int64\<close> and \<open>int\<close> aligned to 8, \<open>uint8\<close> and byte
  arrays to 1. Padding bytes are not specified by Go, so they come from a parameter \<open>pad\<close>; the
  round trips hold whatever it is. The interface \<open>codable\<close> is what a type must provide (its
  memory and how it is read back); the round trips are proved once inside it and interpreted on
  the five types.
\<close>

subsection \<open>Encode and Decode, as generated for every copyable type\<close>

text \<open>
  \<open>dst\<close> is the full extent (length \<open>cap(dst)\<close>) of the caller's buffer: large enough, it is
  resliced to \<open>size\<close> bytes; otherwise a new buffer is made. The copy then writes every byte.
\<close>

definition codable_Encode :: "nat \<Rightarrow> byte list \<Rightarrow> byte list \<Rightarrow> byte list" where
  "codable_Encode sz src dst =
     (let dst = (if length dst < sz then replicate sz 0 else take sz dst) in copy_into dst src)"

definition codable_Decode :: "nat \<Rightarrow> (byte list \<Rightarrow> 'a) \<Rightarrow> byte list \<Rightarrow> 'a" where
  "codable_Decode sz rd src = rd (copy_into (replicate sz 0) src)"

locale codable =
  fixes mem :: "(nat \<Rightarrow> byte) \<Rightarrow> 'a \<Rightarrow> byte list"
    and rd :: "byte list \<Rightarrow> 'a"
    and sz :: nat
    and wf :: "'a \<Rightarrow> bool"
  assumes length_mem: "wf x \<Longrightarrow> length (mem pad x) = sz"
    and rd_mem: "wf x \<Longrightarrow> rd (mem pad x) = x"
begin

lemma encode_mem: "wf x \<Longrightarrow> codable_Encode sz (mem pad x) dst = mem pad x"
  by (simp add: codable_Encode_def copy_into_def length_mem)

lemma encode_size: "wf x \<Longrightarrow> length (codable_Encode sz (mem pad x) dst) = sz"
  by (simp add: encode_mem length_mem)

lemma decode_encode:
  "wf x \<Longrightarrow> codable_Decode sz rd (codable_Encode sz (mem pad x) dst @ rest) = x"
  by (simp add: encode_mem codable_Decode_def copy_into_def length_mem rd_mem)

text \<open>An encoding determines the value: two structs with the same bytes are equal.\<close>

lemma encode_inj:
  assumes "wf x" and "wf y"
    and "codable_Encode sz (mem pad x) dst = codable_Encode sz (mem pad' y) dst'"
  shows "x = y"
  using decode_encode [OF assms(1), of pad dst "[]"] decode_encode [OF assms(2), of pad' dst' "[]"] assms(3)
  by simp

end

subsection \<open>Fields of a memory image\<close>

definition fld :: "'a list \<Rightarrow> nat \<Rightarrow> nat \<Rightarrow> 'a list" where
  "fld bs at n = take n (drop at bs)"

definition padding :: "(nat \<Rightarrow> byte) \<Rightarrow> nat \<Rightarrow> nat \<Rightarrow> byte list" where
  "padding pad at n = map pad [at..<at + n]"

lemma length_padding [simp]: "length (padding pad at n) = n"
  by (simp add: padding_def)

lemma fld_append_skip: "length xs \<le> at \<Longrightarrow> fld (xs @ ys) at n = fld ys (at - length xs) n"
  by (simp add: fld_def)

lemma fld_append_hit: "length xs = n \<Longrightarrow> fld (xs @ ys) 0 n = xs"
  by (simp add: fld_def)

lemma fld_all: "length xs = n \<Longrightarrow> fld xs 0 n = xs"
  by (simp add: fld_def)

lemma fld_Cons_skip: "0 < at \<Longrightarrow> fld (x # ys) at n = fld ys (at - 1) n"
  by (cases at) (simp_all add: fld_def)

lemma hd_fld_Cons: "0 < n \<Longrightarrow> hd (fld (x # ys) 0 n) = x"
  by (cases n) (simp_all add: fld_def)

lemmas fld_simps = fld_append_skip fld_append_hit fld_all fld_Cons_skip hd_fld_Cons

definition rd_int64 :: "byte list \<Rightarrow> nat \<Rightarrow> int" where
  "rd_int64 bs at = wrap64 (dec_le (fld bs at 8))"

definition rd_text :: "byte list \<Rightarrow> nat \<Rightarrow> nat \<Rightarrow> string" where
  "rd_text bs at n = text_of (fld bs at n)"

definition rd_byte :: "byte list \<Rightarrow> nat \<Rightarrow> byte" where
  "rd_byte bs at = hd (fld bs at 1)"

definition mem_Decimal :: "Decimal \<Rightarrow> byte list" where
  "mem_Decimal d = enc_le 8 (Integer d) @ enc_le 8 (Scale d)"

definition rd_Decimal :: "byte list \<Rightarrow> nat \<Rightarrow> Decimal" where
  "rd_Decimal bs at = \<lparr>Integer = rd_int64 bs at, Scale = rd_int64 bs (at + 8)\<rparr>"

definition mem_DepthRow :: "DepthRow \<Rightarrow> byte list" where
  "mem_DepthRow r = mem_Decimal (Price r) @ mem_Decimal (Quantity r)"

definition rd_DepthRow :: "byte list \<Rightarrow> DepthRow" where
  "rd_DepthRow bs = \<lparr>Price = rd_Decimal bs 0, Quantity = rd_Decimal bs 16\<rparr>"

lemma length_mem_Decimal [simp]: "length (mem_Decimal d) = 16"
  by (simp add: mem_Decimal_def)

lemma length_mem_DepthRow [simp]: "length (mem_DepthRow r) = 32"
  by (simp add: mem_DepthRow_def)

lemmas rd_defs = rd_int64_def rd_text_def rd_byte_def rd_Decimal_def

lemma rd_Decimal_mem:
  assumes "wf_Decimal d" and "length pre = at"
  shows "rd_Decimal (pre @ mem_Decimal d @ post) at = d"
  using assms by (simp add: rd_Decimal_def rd_int64_def mem_Decimal_def fld_simps wf_Decimal_def)

lemma rd_DepthRow_mem: "wf_DepthRow r \<Longrightarrow> rd_DepthRow (mem_DepthRow r) = r"
  using rd_Decimal_mem [of "Price r" "[]" 0 "mem_Decimal (Quantity r)"]
    rd_Decimal_mem [of "Quantity r" "mem_Decimal (Price r)" 16 "[]"]
  by (simp add: rd_DepthRow_def mem_DepthRow_def wf_DepthRow_def)

text \<open>An array of equally sized elements is the concatenation of its elements.\<close>

definition rd_array :: "nat \<Rightarrow> nat \<Rightarrow> (byte list \<Rightarrow> 'a) \<Rightarrow> byte list \<Rightarrow> 'a list" where
  "rd_array w n rd bs = map (\<lambda>k. rd (fld bs (w * k) w)) [0..<n]"

lemma rd_array_concat:
  assumes "\<And>x. x \<in> set xs \<Longrightarrow> length (m x) = w" and "\<And>x. x \<in> set xs \<Longrightarrow> rd (m x) = x"
  shows "rd_array w (length xs) rd (concat (map m xs)) = xs"
  using assms
proof (induction xs)
  case Nil
  then show ?case by (simp add: rd_array_def)
next
  case (Cons x xs)
  have x: "length (m x) = w" "rd (m x) = x" using Cons.prems by auto
  have "[0..<length (x # xs)] = 0 # map Suc [0..<length xs]"
    by (simp add: map_Suc_upt upt_conv_Cons del: upt_Suc)
  moreover have "fld (m x @ rest) (w * Suc k) w = fld rest (w * k) w" for rest k
    using x(1) by (simp add: fld_def)
  ultimately have "rd_array w (length (x # xs)) rd (concat (map m (x # xs))) =
      x # rd_array w (length xs) rd (concat (map m xs))"
    using x by (simp add: rd_array_def fld_def del: upt_Suc)
  with Cons show ?case by simp
qed

lemma length_concat_rows [simp]: "length (concat (map mem_DepthRow rows)) = 32 * length rows"
  by (induction rows) auto

lemma rd_rows: "list_all wf_DepthRow rows \<Longrightarrow> length rows = n \<Longrightarrow>
    rd_array 32 n rd_DepthRow (concat (map mem_DepthRow rows)) = rows"
  using rd_array_concat [of rows mem_DepthRow 32 rd_DepthRow]
  by (simp add: rd_DepthRow_mem list_all_iff)


subsection \<open>Depth\<close>

definition mem_Depth :: "(nat \<Rightarrow> byte) \<Rightarrow> Depth \<Rightarrow> byte list" where
  "mem_Depth pad d =
     bytes_of (Depth_Symbol d) @ enc_le 8 (Depth_EventTsNano d) @ enc_le 8 (Depth_RecvTsNano d)
     @ [Depth_Platform d] @ padding pad 49 7
     @ concat (map mem_DepthRow (Depth_Bids d)) @ enc_le 8 (Depth_BidsLength d)
     @ concat (map mem_DepthRow (Depth_Asks d)) @ enc_le 8 (Depth_AsksLength d)"

definition rd_Depth :: "byte list \<Rightarrow> Depth" where
  "rd_Depth bs =
     \<lparr>Depth_Symbol = rd_text bs 0 32, Depth_EventTsNano = rd_int64 bs 32, Depth_RecvTsNano = rd_int64 bs 40,
      Depth_Platform = rd_byte bs 48,
      Depth_Bids = rd_array 32 128 rd_DepthRow (fld bs 56 4096), Depth_BidsLength = rd_int64 bs 4152,
      Depth_Asks = rd_array 32 128 rd_DepthRow (fld bs 4160 4096), Depth_AsksLength = rd_int64 bs 8256\<rparr>"

definition Depth_SizeInByte :: nat where
  [simp]: "Depth_SizeInByte = 8264"

definition Depth_Encode :: "(nat \<Rightarrow> byte) \<Rightarrow> Depth \<Rightarrow> byte list \<Rightarrow> byte list" where
  "Depth_Encode pad d dst = codable_Encode Depth_SizeInByte (mem_Depth pad d) dst"

definition Depth_Decode :: "byte list \<Rightarrow> Depth" where
  "Depth_Decode src = codable_Decode Depth_SizeInByte rd_Depth src"

interpretation depth_codable: codable mem_Depth rd_Depth Depth_SizeInByte wf_Depth
proof unfold_locales
  fix x pad
  assume wf: "wf_Depth x"
  then show "length (mem_Depth pad x) = Depth_SizeInByte"
    by (simp add: mem_Depth_def wf_Depth_def wf_Symbol_def)
  have rows: "rd_array 32 128 rd_DepthRow (concat (map mem_DepthRow (Depth_Bids x))) = Depth_Bids x"
    "rd_array 32 128 rd_DepthRow (concat (map mem_DepthRow (Depth_Asks x))) = Depth_Asks x"
    using wf by (simp_all add: wf_Depth_def rd_rows)
  from wf show "rd_Depth (mem_Depth pad x) = x"
    by (simp add: mem_Depth_def rd_Depth_def rd_defs fld_simps wf_Depth_def wf_Symbol_def rows)
qed

subsection \<open>Order\<close>

definition mem_Order :: "(nat \<Rightarrow> byte) \<Rightarrow> Order \<Rightarrow> byte list" where
  "mem_Order pad q =
     enc_le 8 (Order_ID q) @ bytes_of (Order_Symbol q) @ enc_le 8 (Order_EventTsNano q)
     @ enc_le 8 (Order_RecvTsNano q)
     @ [Order_Platform q, Order_Type q, Order_Side q, Order_Status q] @ padding pad 60 4
     @ mem_Decimal (Order_Price q) @ mem_Decimal (Order_Quantity q) @ mem_Decimal (Order_LeftQuantity q)
     @ [Order_TimeInForce q] @ padding pad 113 7 @ enc_le 8 (Order_UpdatedTime q)
     @ bytes_of (Order_Source q)"

definition rd_Order :: "byte list \<Rightarrow> Order" where
  "rd_Order bs =
     \<lparr>Order_ID = rd_int64 bs 0, Order_Symbol = rd_text bs 8 32, Order_EventTsNano = rd_int64 bs 40,
      Order_RecvTsNano = rd_int64 bs 48, Order_Platform = rd_byte bs 56, Order_Type = rd_byte bs 57,
      Order_Side = rd_byte bs 58, Order_Status = rd_byte bs 59,
      Order_Price = rd_Decimal bs 64, Order_Quantity = rd_Decimal bs 80,
      Order_LeftQuantity = rd_Decimal bs 96, Order_TimeInForce = rd_byte bs 112,
      Order_UpdatedTime = rd_int64 bs 120, Order_Source = rd_text bs 128 64\<rparr>"

definition Order_SizeInByte :: nat where
  [simp]: "Order_SizeInByte = 192"

definition Order_Encode :: "(nat \<Rightarrow> byte) \<Rightarrow> Order \<Rightarrow> byte list \<Rightarrow> byte list" where
  "Order_Encode pad q dst = codable_Encode Order_SizeInByte (mem_Order pad q) dst"

definition Order_Decode :: "byte list \<Rightarrow> Order" where
  "Order_Decode src = codable_Decode Order_SizeInByte rd_Order src"

interpretation order_codable: codable mem_Order rd_Order Order_SizeInByte wf_Order
proof unfold_locales
  fix x pad
  assume wf: "wf_Order x"
  then show "length (mem_Order pad x) = Order_SizeInByte"
    by (simp add: mem_Order_def wf_Order_def wf_Symbol_def wf_Str64_def)
  from wf show "rd_Order (mem_Order pad x) = x"
    by (simp add: mem_Order_def rd_Order_def rd_defs mem_Decimal_def fld_simps wf_Order_def
        wf_Symbol_def wf_Str64_def wf_Decimal_def)
qed

subsection \<open>OrderIntent and OrderRequest\<close>

definition mem_OrderIntent :: "(nat \<Rightarrow> byte) \<Rightarrow> OrderIntent \<Rightarrow> byte list" where
  "mem_OrderIntent pad i =
     bytes_of (Intent_Symbol i)
     @ [Intent_Platform i, Intent_Action i, Intent_Type i, Intent_Side i] @ padding pad 36 4
     @ mem_Decimal (Intent_Price i) @ mem_Decimal (Intent_Quantity i)
     @ [Intent_TimeInForce i] @ padding pad 73 7 @ enc_le 8 (Intent_CreatedTime i)
     @ bytes_of (Intent_ID i) @ bytes_of (Intent_ClientOrderID i) @ bytes_of (Intent_Source i)"

definition rd_OrderIntent :: "byte list \<Rightarrow> OrderIntent" where
  "rd_OrderIntent bs =
     \<lparr>Intent_Symbol = rd_text bs 0 32, Intent_Platform = rd_byte bs 32, Intent_Action = rd_byte bs 33,
      Intent_Type = rd_byte bs 34, Intent_Side = rd_byte bs 35,
      Intent_Price = rd_Decimal bs 40, Intent_Quantity = rd_Decimal bs 56,
      Intent_TimeInForce = rd_byte bs 72, Intent_CreatedTime = rd_int64 bs 80,
      Intent_ID = rd_text bs 88 64, Intent_ClientOrderID = rd_text bs 152 64,
      Intent_Source = rd_text bs 216 64\<rparr>"

definition OrderIntent_SizeInByte :: nat where
  [simp]: "OrderIntent_SizeInByte = 280"

definition OrderIntent_Encode :: "(nat \<Rightarrow> byte) \<Rightarrow> OrderIntent \<Rightarrow> byte list \<Rightarrow> byte list" where
  "OrderIntent_Encode pad i dst = codable_Encode OrderIntent_SizeInByte (mem_OrderIntent pad i) dst"

definition OrderIntent_Decode :: "byte list \<Rightarrow> OrderIntent" where
  "OrderIntent_Decode src = codable_Decode OrderIntent_SizeInByte rd_OrderIntent src"

lemmas intent_layout = mem_OrderIntent_def rd_OrderIntent_def rd_defs mem_Decimal_def fld_simps
  wf_OrderIntent_def wf_Symbol_def wf_Str64_def wf_Decimal_def

interpretation intent_codable: codable mem_OrderIntent rd_OrderIntent OrderIntent_SizeInByte wf_OrderIntent
proof unfold_locales
  fix x pad
  assume wf: "wf_OrderIntent x"
  then show "length (mem_OrderIntent pad x) = OrderIntent_SizeInByte"
    by (simp add: mem_OrderIntent_def wf_OrderIntent_def wf_Symbol_def wf_Str64_def)
  from wf show "rd_OrderIntent (mem_OrderIntent pad x) = x"
    by (simp add: intent_layout)
qed

definition mem_OrderRequest :: "(nat \<Rightarrow> byte) \<Rightarrow> OrderRequest \<Rightarrow> byte list" where
  "mem_OrderRequest pad r =
     mem_OrderIntent pad (Request_Intent r)
     @ bytes_of (Token_Key (Request_Token r)) @ bytes_of (Token_Secret (Request_Token r))"

definition rd_OrderRequest :: "byte list \<Rightarrow> OrderRequest" where
  "rd_OrderRequest bs =
     \<lparr>Request_Intent = rd_OrderIntent (fld bs 0 280),
      Request_Token = \<lparr>Token_Key = rd_text bs 280 64, Token_Secret = rd_text bs 344 64\<rparr>\<rparr>"

definition OrderRequest_SizeInByte :: nat where
  [simp]: "OrderRequest_SizeInByte = 408"

definition OrderRequest_Encode :: "(nat \<Rightarrow> byte) \<Rightarrow> OrderRequest \<Rightarrow> byte list \<Rightarrow> byte list" where
  "OrderRequest_Encode pad r dst = codable_Encode OrderRequest_SizeInByte (mem_OrderRequest pad r) dst"

definition OrderRequest_Decode :: "byte list \<Rightarrow> OrderRequest" where
  "OrderRequest_Decode src = codable_Decode OrderRequest_SizeInByte rd_OrderRequest src"

interpretation request_codable: codable mem_OrderRequest rd_OrderRequest OrderRequest_SizeInByte wf_OrderRequest
proof unfold_locales
  fix x pad
  assume wf: "wf_OrderRequest x"
  then have i: "length (mem_OrderIntent pad (Request_Intent x)) = 280"
    "rd_OrderIntent (mem_OrderIntent pad (Request_Intent x)) = Request_Intent x"
    using intent_codable.length_mem intent_codable.rd_mem by (simp_all add: wf_OrderRequest_def)
  with wf show "length (mem_OrderRequest pad x) = OrderRequest_SizeInByte"
    by (simp add: mem_OrderRequest_def wf_OrderRequest_def wf_Str64_def)
  from wf i show "rd_OrderRequest (mem_OrderRequest pad x) = x"
    by (simp add: mem_OrderRequest_def rd_OrderRequest_def rd_text_def fld_simps wf_OrderRequest_def wf_Str64_def)
qed

subsection \<open>IngestRequest\<close>

definition mem_IngestRequest :: "(nat \<Rightarrow> byte) \<Rightarrow> IngestRequest \<Rightarrow> byte list" where
  "mem_IngestRequest pad r =
     [Ingest_Platform r, Ingest_Topic r] @ bytes_of (Ingest_Symbol r) @ bytes_of (Ingest_APIKey r)"

definition rd_IngestRequest :: "byte list \<Rightarrow> IngestRequest" where
  "rd_IngestRequest bs =
     \<lparr>Ingest_Platform = rd_byte bs 0, Ingest_Topic = rd_byte bs 1,
      Ingest_Symbol = rd_text bs 2 32, Ingest_APIKey = rd_text bs 34 64\<rparr>"

definition IngestRequest_SizeInByte :: nat where
  [simp]: "IngestRequest_SizeInByte = 98"

definition IngestRequest_Encode :: "(nat \<Rightarrow> byte) \<Rightarrow> IngestRequest \<Rightarrow> byte list \<Rightarrow> byte list" where
  "IngestRequest_Encode pad r dst = codable_Encode IngestRequest_SizeInByte (mem_IngestRequest pad r) dst"

definition IngestRequest_Decode :: "byte list \<Rightarrow> IngestRequest" where
  "IngestRequest_Decode src = codable_Decode IngestRequest_SizeInByte rd_IngestRequest src"

interpretation ingest_codable: codable mem_IngestRequest rd_IngestRequest IngestRequest_SizeInByte wf_IngestRequest
  by unfold_locales
    (simp_all add: mem_IngestRequest_def rd_IngestRequest_def rd_defs fld_simps fld_def
      wf_IngestRequest_def wf_Symbol_def wf_Str64_def)

end
