(* ===== verification/Btcc_Payload.thy ===== *)
theory Btcc_Payload
  imports Btcc_Decimal Scan_Lib Go_Float Adapter_Codable
begin

section \<open>BTCC payloads\<close>

text \<open>
  \<open>bundle/internal/ingest/btcc/payload.go\<close>: the JSON scanners that work on the raw bytes of a
  websocket frame, and the decoders of market depth and orders built on them. A scanner that
  advances a caller's index (\<open>idx *int\<close>) returns the new index. \<open>payload[start:end]\<close> is the one
  slice whose end can lie past the length: Go allows it up to the capacity, so the reader of
  \<open>params\<close> takes the spare bytes behind the payload as a second argument and can panic.
\<close>

definition btcc_isSpace :: "char \<Rightarrow> bool" where
  "btcc_isSpace b \<longleftrightarrow> b = CHR '' '' \<or> b = CHR 0x09 \<or> b = CHR 0x0A \<or> b = CHR 0x0D"

lemma btcc_isSpace_eq [simp]: "btcc_isSpace = is_space"
  by (simp add: fun_eq_iff btcc_isSpace_def is_space_def)

definition btcc_indexOfFrom :: "string \<Rightarrow> string \<Rightarrow> int \<Rightarrow> int" where
  "btcc_indexOfFrom payload key start =
     (if length key = 0 \<or> start < 0 \<or> int (length payload) \<le> start then - 1
      else if int (length payload) - start < int (length key) then - 1
      else index_loop payload key (nat start))"

subsection \<open>Fields\<close>

definition btcc_scanStringField :: "string \<Rightarrow> string \<Rightarrow> string option" where
  "btcc_scanStringField payload key =
     (let idx = btcc_indexOfFrom payload key 0 in
      if idx < 0 then None
      else case after_colon payload (nat idx + length key) of
        None \<Rightarrow> None
      | Some i \<Rightarrow>
          if length payload \<le> i \<or> payload ! i \<noteq> CHR 0x22 then None
          else quoted_at payload i)"

definition btcc_scanNumberField :: "string \<Rightarrow> string \<Rightarrow> string option" where
  "btcc_scanNumberField payload key =
     (let idx = btcc_indexOfFrom payload key 0 in
      if idx < 0 then None
      else case after_colon payload (nat idx + length key) of
        None \<Rightarrow> None
      | Some i \<Rightarrow>
          if length payload \<le> i then None
          else if payload ! i = CHR 0x22 then quoted_at payload i
          else
            let start = i;
                i = (if payload ! i = CHR ''-'' then i + 1 else i);
                i = skip_while (\<lambda>c. is_digit c \<or> c = CHR ''.'') payload i
            in if start = i then None else Some (slice payload start i))"

definition btcc_scanNextValue :: "string \<Rightarrow> nat \<Rightarrow> nat \<times> string option" where
  "btcc_scanNextValue payload idx =
     (let i = skip_while btcc_isSpace payload idx in
      if length payload \<le> i then (i, None)
      else if payload ! i = CHR 0x22 then
        (let start = i + 1; i = skip_while (\<lambda>c. c \<noteq> CHR 0x22) payload start in
         if length payload \<le> i then (i, None) else (i + 1, Some (slice payload start i)))
      else
        let start = i;
            i = skip_while (\<lambda>c. c \<noteq> CHR '','' \<and> c \<noteq> CHR '']'' \<and> \<not> btcc_isSpace c) payload i
        in if start = i then (i, None) else (i, Some (slice payload start i)))"

lemma btcc_scanNextValue_ge:
  assumes "btcc_scanNextValue payload idx = (i, v)"
  shows "idx \<le> i"
proof -
  let ?i = "skip_while is_space payload idx"
  have ge: "idx \<le> ?i" "\<And>P. ?i \<le> skip_while P payload ?i"
    "\<And>P. Suc ?i \<le> skip_while P payload (Suc ?i)" by (rule skip_while_ge)+
  have "i = ?i \<or> (\<exists>P. i = skip_while P payload ?i) \<or> (\<exists>P. i = skip_while P payload (Suc ?i))
      \<or> (\<exists>P. i = Suc (skip_while P payload (Suc ?i)))"
    using assms by (auto simp: btcc_scanNextValue_def Let_def split: if_splits)
  with ge show ?thesis by (metis le_SucI order_trans Suc_leD)
qed

subsection \<open>Depth rows\<close>

text \<open>
  The loop over \<open>[[price, quantity], \<dots>]\<close>. The rows are a slice of the caller's array: rows
  already written stay written when a later one fails.
\<close>

function btcc_rows_loop :: "string \<Rightarrow> nat \<Rightarrow> nat \<Rightarrow> DepthRow list \<Rightarrow> DepthRow list \<times> nat \<times> bool" where
  "btcc_rows_loop payload i count rows =
     (if i < length payload \<and> count < length rows then
        let i = skip_while (\<lambda>c. btcc_isSpace c \<or> c = CHR '','') payload i in
        if length payload \<le> i \<or> payload ! i = CHR '']'' then (rows, count, True)
        else if payload ! i \<noteq> CHR ''['' then btcc_rows_loop payload (i + 1) count rows
        else case btcc_scanNextValue payload (i + 1) of
          (i, None) \<Rightarrow> (rows, count, False)
        | (i, Some priceText) \<Rightarrow>
            (case btcc_scanNextValue payload i of
               (i, None) \<Rightarrow> (rows, count, False)
             | (i, Some qtyText) \<Rightarrow>
                 (case btcc_parseDecimal priceText of
                    Inl e \<Rightarrow> (rows, count, False)
                  | Inr price \<Rightarrow>
                      (case btcc_parseDecimal qtyText of
                         Inl e \<Rightarrow> (rows, count, False)
                       | Inr qty \<Rightarrow>
                           let rows = rows[count := \<lparr>Price = price, Quantity = qty\<rparr>];
                               count = count + 1;
                               i = skip_while (\<lambda>c. c \<noteq> CHR '']'') payload i;
                               i = (if i < length payload then i + 1 else i)
                           in btcc_rows_loop payload i count rows)))
      else (rows, count, True))"
  by pat_completeness auto
termination
proof (relation "measure (\<lambda>(payload, i, count, rows). length payload - i)", goal_cases)
  case 2
  then show ?case by (simp add: row_skip_progress [simplified])
next
  case 3
  show ?case unfolding in_measure prod.case 3(2,13,14)
    by (rule row_round_progress) (use 3 in \<open>auto dest!: sym [THEN btcc_scanNextValue_ge]\<close>)
qed simp

definition btcc_scanDepthSide :: "string \<Rightarrow> string \<Rightarrow> DepthRow list \<Rightarrow> DepthRow list \<times> nat \<times> bool" where
  "btcc_scanDepthSide payload key rows =
     (let idx = btcc_indexOfFrom payload key 0 in
      if idx < 0 then (rows, 0, False)
      else case after_colon payload (nat idx + length key) of
        None \<Rightarrow> (rows, 0, False)
      | Some i \<Rightarrow>
          if length payload \<le> i \<or> payload ! i \<noteq> CHR ''['' then (rows, 0, False)
          else btcc_rows_loop payload (i + 1) 0 rows)"

subsection \<open>Skipping a JSON value\<close>

function btcc_skipString_loop :: "string \<Rightarrow> nat \<Rightarrow> nat" where
  "btcc_skipString_loop payload i =
     (if i < length payload then
        if payload ! i = CHR 0x5C then btcc_skipString_loop payload (i + 2)
        else if payload ! i = CHR 0x22 then i + 1
        else btcc_skipString_loop payload (i + 1)
      else i)"
  by pat_completeness auto
termination
  by (relation "measure (\<lambda>(payload, i). length payload - i)") auto

declare btcc_skipString_loop.simps [simp del]

definition btcc_skipString :: "string \<Rightarrow> nat \<Rightarrow> nat" where
  "btcc_skipString payload i = btcc_skipString_loop payload (i + 1)"

lemma skipString_loop_ge: "i \<le> btcc_skipString_loop payload i"
proof (induction payload i rule: btcc_skipString_loop.induct)
  case (1 payload i)
  then show ?case by (auto simp add: btcc_skipString_loop.simps [of payload i] dest: Suc_leD)
qed

lemma btcc_skipString_gt: "i < btcc_skipString payload i"
  using skipString_loop_ge [of "i + 1" payload] by (simp add: btcc_skipString_def)

text \<open>A backslash as the last byte takes the index one past the length, and no further.\<close>

lemma skipString_loop_le: "i \<le> length payload + 1 \<Longrightarrow> btcc_skipString_loop payload i \<le> length payload + 1"
proof (induction payload i rule: btcc_skipString_loop.induct)
  case (1 payload i)
  then show ?case by (simp add: btcc_skipString_loop.simps [of payload i])
qed

lemma btcc_skipString_le: "i \<le> length payload \<Longrightarrow> btcc_skipString payload i \<le> length payload + 1"
  using skipString_loop_le [of "i + 1" payload] by (simp add: btcc_skipString_def)

function btcc_skipObject_loop :: "string \<Rightarrow> nat \<Rightarrow> int \<Rightarrow> nat" where
  "btcc_skipObject_loop payload i depth =
     (if i < length payload then
        let c = payload ! i in
        if c = CHR ''{'' then btcc_skipObject_loop payload (i + 1) (depth + 1)
        else if c = CHR ''}'' then
          (let depth = depth - 1 in
           if depth = 0 then i + 1 else btcc_skipObject_loop payload (i + 1) depth)
        else if c = CHR 0x22 then
          (let i = btcc_skipString payload i - 1 in btcc_skipObject_loop payload (i + 1) depth)
        else btcc_skipObject_loop payload (i + 1) depth
      else i)"
  by pat_completeness auto
termination
proof (relation "measure (\<lambda>(payload, i, depth). length payload - i)", goal_cases)
  case (4 payload i depth c i')
  then show ?case using btcc_skipString_gt [of i payload] by auto
qed auto

function btcc_skipArray_loop :: "string \<Rightarrow> nat \<Rightarrow> int \<Rightarrow> nat" where
  "btcc_skipArray_loop payload i depth =
     (if i < length payload then
        let c = payload ! i in
        if c = CHR ''['' then btcc_skipArray_loop payload (i + 1) (depth + 1)
        else if c = CHR '']'' then
          (let depth = depth - 1 in
           if depth = 0 then i + 1 else btcc_skipArray_loop payload (i + 1) depth)
        else if c = CHR 0x22 then
          (let i = btcc_skipString payload i - 1 in btcc_skipArray_loop payload (i + 1) depth)
        else btcc_skipArray_loop payload (i + 1) depth
      else i)"
  by pat_completeness auto
termination
proof (relation "measure (\<lambda>(payload, i, depth). length payload - i)", goal_cases)
  case (4 payload i depth c i')
  then show ?case using btcc_skipString_gt [of i payload] by auto
qed auto

declare btcc_skipObject_loop.simps [simp del] btcc_skipArray_loop.simps [simp del] btcc_rows_loop.simps [simp del]

definition btcc_skipObject :: "string \<Rightarrow> nat \<Rightarrow> nat" where
  "btcc_skipObject payload i = btcc_skipObject_loop payload i 0"

definition btcc_skipArray :: "string \<Rightarrow> nat \<Rightarrow> nat" where
  "btcc_skipArray payload i = btcc_skipArray_loop payload i 0"

definition btcc_skipSpaces :: "string \<Rightarrow> nat \<Rightarrow> nat" where
  "btcc_skipSpaces payload i = skip_while btcc_isSpace payload i"

definition btcc_skipValue :: "string \<Rightarrow> nat \<Rightarrow> nat" where
  "btcc_skipValue payload i =
     (let i = btcc_skipSpaces payload i in
      if length payload \<le> i then i
      else let c = payload ! i in
        if c = CHR 0x22 then btcc_skipString payload i
        else if c = CHR ''{'' then btcc_skipObject payload i
        else if c = CHR ''['' then btcc_skipArray payload i
        else skip_while (\<lambda>c. \<not> (c = CHR '','' \<or> c = CHR '']'' \<or> c = CHR ''}'')) payload i)"

subsection \<open>The params array\<close>

text \<open>\<open>payload[start:end]\<close>: within the capacity, which is the length of payload and spare bytes.\<close>

definition go_slice :: "string \<Rightarrow> string \<Rightarrow> nat \<Rightarrow> nat \<Rightarrow> string go" where
  "go_slice payload spare a b =
     (if a \<le> b \<and> b \<le> length payload + length spare then Ret (slice (payload @ spare) a b) else Panic)"

function btcc_params_loop :: "string \<Rightarrow> string \<Rightarrow> int \<Rightarrow> nat \<Rightarrow> int \<Rightarrow> string option go" where
  "btcc_params_loop payload spare index i idx =
     (if i < length payload then
        let i = skip_while (\<lambda>c. btcc_isSpace c \<or> c = CHR '','') payload i in
        if length payload \<le> i \<or> payload ! i = CHR '']'' then Ret None
        else let start = i; end' = btcc_skipValue payload i in
          if end' \<le> i then Ret None
          else if idx = index then go_bind (go_slice payload spare start end') (\<lambda>v. Ret (Some v))
          else btcc_params_loop payload spare index end' (idx + 1)
      else Ret None)"
  by pat_completeness auto
termination
proof (relation "measure (\<lambda>(payload, spare, index, i, idx). length payload - i)", goal_cases)
  case (2 payload spare index i idx i1 start end')
  then show ?case using skip_while_ge [of i "\<lambda>c. btcc_isSpace c \<or> c = CHR '',''" payload] by auto
qed simp

declare btcc_params_loop.simps [simp del]

definition btcc_scanParamsValue :: "string \<Rightarrow> string \<Rightarrow> int \<Rightarrow> string option go" where
  "btcc_scanParamsValue payload spare index =
     (if index < 0 then Ret None
      else let key = [CHR 0x22] @ ''params'' @ [CHR 0x22]; idx = btcc_indexOfFrom payload key 0 in
        if idx < 0 then Ret None
        else case after_colon payload (nat idx + length key) of
          None \<Rightarrow> Ret None
        | Some i \<Rightarrow>
            if length payload \<le> i \<or> payload ! i \<noteq> CHR ''['' then Ret None
            else btcc_params_loop payload spare index (i + 1) 0)"

subsection \<open>Reading numbers\<close>

function trim_end :: "string \<Rightarrow> nat \<Rightarrow> nat \<Rightarrow> nat" where
  "trim_end payload start e =
     (if start < e \<and> btcc_isSpace (payload ! (e - 1)) then trim_end payload start (e - 1) else e)"
  by pat_completeness auto
termination
  by (relation "measure (\<lambda>(payload, start, e). e)") auto

declare trim_end.simps [simp del]

definition btcc_trimSpace :: "string \<Rightarrow> string" where
  "btcc_trimSpace payload =
     (let start = skip_while btcc_isSpace payload 0 in
      slice payload start (trim_end payload start (length payload)))"

text \<open>The lines \<open>parseJSONInt\<close> and \<open>parseJSONTimestamp\<close> share: the text between the quotes.\<close>

definition btcc_unquote :: "string \<Rightarrow> string option" where
  "btcc_unquote raw =
     (let raw = btcc_trimSpace raw in
      if length raw = 0 then None
      else if raw ! 0 = CHR 0x22 then
        (if length raw < 2 then None
         else let raw = drop 1 raw in Some (take (skip_while (\<lambda>c. c \<noteq> CHR 0x22) raw 0) raw))
      else Some raw)"

definition btcc_parseJSONInt :: "string \<Rightarrow> int option" where
  "btcc_parseJSONInt raw =
     (case btcc_unquote raw of
        None \<Rightarrow> None
      | Some raw \<Rightarrow> (case parseInt raw of (v, None) \<Rightarrow> Some v | (v, Some e) \<Rightarrow> None))"

definition btcc_parseJSONTimestamp :: "go_env \<Rightarrow> string \<Rightarrow> int option" where
  "btcc_parseJSONTimestamp env raw =
     (case btcc_unquote raw of
        None \<Rightarrow> None
      | Some raw \<Rightarrow>
          (case parseFloat env raw of
             None \<Rightarrow> None
           | Some v \<Rightarrow>
               if f64_le0 v then None
               else if f64_gt v (10 ^ 12) then Some (wrap64 (f64_to_int64 env v * 1000000))
               else Some (f64_to_int64 env (f64_mul_pos v (10 ^ 9)))))"

definition btcc_scanParamsInt :: "string \<Rightarrow> string \<Rightarrow> int \<Rightarrow> int option go" where
  "btcc_scanParamsInt payload spare index =
     go_bind (btcc_scanParamsValue payload spare index) (\<lambda>r.
       case r of None \<Rightarrow> Ret None | Some raw \<Rightarrow> Ret (btcc_parseJSONInt raw))"

function params_string_loop :: "string \<Rightarrow> nat \<Rightarrow> nat" where
  "params_string_loop raw i =
     (if i < length raw \<and> raw ! i \<noteq> CHR 0x22 then
        if raw ! i = CHR 0x5C \<and> i + 1 < length raw then params_string_loop raw (i + 2)
        else params_string_loop raw (i + 1)
      else i)"
  by pat_completeness auto
termination
  by (relation "measure (\<lambda>(raw, i). length raw - i)") auto

declare params_string_loop.simps [simp del]

definition btcc_scanParamsString :: "string \<Rightarrow> string \<Rightarrow> int \<Rightarrow> string option go" where
  "btcc_scanParamsString payload spare index =
     go_bind (btcc_scanParamsValue payload spare index) (\<lambda>r.
       case r of
         None \<Rightarrow> Ret None
       | Some raw \<Rightarrow>
           (let raw = btcc_trimSpace raw in
            if length raw < 2 \<or> raw ! 0 \<noteq> CHR 0x22 then Ret None
            else let i = params_string_loop raw 1 in
              if length raw \<le> i then Ret None else Ret (Some (slice raw 1 i))))"

subsection \<open>Enum mappings\<close>

definition mapBtccSide :: "int \<Rightarrow> OrderSide" where
  "mapBtccSide value = (if value = 1 then OrderSideBuy else if value = 2 then OrderSideSell else 0)"

definition mapBtccOrderType :: "int \<Rightarrow> OrderType" where
  "mapBtccOrderType value = (if value = 1 then OrderTypeLimit else if value = 2 then OrderTypeMarket else 0)"

definition mapBtccOrderStatus :: "int \<Rightarrow> OrderStatus" where
  "mapBtccOrderStatus value =
     (if value = 1 then OrderStatusPlaced else if value = 2 then OrderStatusPartialFilled
      else if value = 3 then OrderStatusFilled else if value = 4 then OrderStatusCanceled
      else if value = 5 then OrderStatusExpired else 0)"

definition mapBtccTimeInForce :: "int \<Rightarrow> OrderTimeInForce" where
  "mapBtccTimeInForce value =
     (if value = 1 then OrderTimeInForceGTC else if value = 2 then OrderTimeInForceIOC
      else if value = 3 then OrderTimeInForceFOK else 0)"

subsection \<open>Decoding\<close>

definition quoted_key :: "string \<Rightarrow> string" where
  [go_eval]: "quoted_key k = [CHR 0x22] @ k @ [CHR 0x22]"

definition decodeBtccDepth :: "go_env \<Rightarrow> string \<Rightarrow> string \<Rightarrow> Symbol \<Rightarrow> (btcc_error + Depth) go" where
  "decodeBtccDepth env payload spare symbol =
     (let depth = zero_Depth\<lparr>Depth_Symbol := symbol, Depth_Platform := PlatformBTCC,
                             Depth_RecvTsNano := go_now env\<rparr> in
      go_bind (btcc_scanParamsValue payload spare 1) (\<lambda>r.
      case r of
        None \<Rightarrow> Ret (Inl Btcc_ErrInvalidPayload)
      | Some orderbook \<Rightarrow>
          (let depth = (case btcc_scanNumberField orderbook (quoted_key ''time'') of
                 None \<Rightarrow> depth
               | Some eventText \<Rightarrow>
                   (case btcc_parseJSONTimestamp env eventText of
                      None \<Rightarrow> depth
                    | Some eventTs \<Rightarrow> depth\<lparr>Depth_EventTsNano := eventTs\<rparr>));
               (bidRows, bids, ok) = btcc_scanDepthSide orderbook (quoted_key ''bids'') (Depth_Bids depth);
               bids = (if ok then bids else 0);
               (askRows, asks, ok) = btcc_scanDepthSide orderbook (quoted_key ''asks'') (Depth_Asks depth);
               asks = (if ok then asks else 0);
               depth = depth\<lparr>Depth_Bids := bidRows, Depth_Asks := askRows,
                             Depth_BidsLength := int bids, Depth_AsksLength := int asks\<rparr>
           in if Depth_BidsLength depth = 0 \<and> Depth_AsksLength depth = 0
              then Ret (Inl Btcc_ErrInvalidPayload) else Ret (Inr depth))))"

text \<open>\<open>if text, ok := scanNumberField(v, key); ok { if x, ok := parse(text); ok { \<dots> } }\<close>\<close>

definition btcc_int_field :: "string \<Rightarrow> string \<Rightarrow> int option" where
  "btcc_int_field v key = Option.bind (btcc_scanNumberField v key) btcc_parseJSONInt"

definition btcc_time_field :: "go_env \<Rightarrow> string \<Rightarrow> string \<Rightarrow> int option" where
  "btcc_time_field env v key = Option.bind (btcc_scanNumberField v key) (btcc_parseJSONTimestamp env)"

definition btcc_ok :: "btcc_error + 'a \<Rightarrow> 'a option" where
  "btcc_ok r = (case r of Inl e \<Rightarrow> None | Inr x \<Rightarrow> Some x)"

definition btcc_decimal_field :: "string \<Rightarrow> string \<Rightarrow> Decimal option" where
  "btcc_decimal_field v key = Option.bind (btcc_scanNumberField v key) (\<lambda>t. btcc_ok (btcc_parseDecimal t))"

definition when_some :: "'a option \<Rightarrow> ('a \<Rightarrow> 'b \<Rightarrow> 'b) \<Rightarrow> 'b \<Rightarrow> 'b" where
  "when_some r f x = (case r of None \<Rightarrow> x | Some v \<Rightarrow> f v x)"

definition btcc_left_quantity :: "string \<Rightarrow> Decimal option \<Rightarrow> Order \<Rightarrow> Order" where
  "btcc_left_quantity orderValue qty order =
     (case btcc_scanNumberField orderValue (quoted_key ''left'') of
        Some leftText \<Rightarrow>
          when_some (btcc_ok (btcc_parseDecimal leftText)) (\<lambda>d o'. o'\<lparr>Order_LeftQuantity := d\<rparr>) order
      | None \<Rightarrow>
          (case btcc_scanNumberField orderValue (quoted_key ''deal_stock'') of
             None \<Rightarrow> order
           | Some dealText \<Rightarrow>
               (case (btcc_ok (btcc_parseDecimal dealText), qty) of
                  (Some parsed, Some q) \<Rightarrow> order\<lparr>Order_LeftQuantity := btcc_decimalSub q parsed\<rparr>
                | _ \<Rightarrow> order)))"

definition decodeBtccOrder :: "go_env \<Rightarrow> string \<Rightarrow> string \<Rightarrow> Symbol \<Rightarrow> (btcc_error + Order) go" where
  "decodeBtccOrder env payload spare symbol =
     (let order = zero_Order\<lparr>Order_Symbol := symbol, Order_Platform := PlatformBTCC,
                             Order_RecvTsNano := go_now env\<rparr> in
      go_bind (btcc_scanParamsInt payload spare 0) (\<lambda>status.
      let order = when_some status (\<lambda>v o'. o'\<lparr>Order_Status := mapBtccOrderStatus v\<rparr>) order in
      go_bind (btcc_scanParamsValue payload spare 1) (\<lambda>r.
      case r of
        None \<Rightarrow> Ret (Inl Btcc_ErrInvalidPayload)
      | Some orderValue \<Rightarrow>
          (let order = when_some (btcc_int_field orderValue (quoted_key ''id''))
                 (\<lambda>v o'. o'\<lparr>Order_ID := v\<rparr>) order;
               order = when_some (btcc_int_field orderValue (quoted_key ''side''))
                 (\<lambda>v o'. o'\<lparr>Order_Side := mapBtccSide v\<rparr>) order;
               order = when_some (btcc_int_field orderValue (quoted_key ''type''))
                 (\<lambda>v o'. o'\<lparr>Order_Type := mapBtccOrderType v\<rparr>) order;
               order = when_some (btcc_int_field orderValue (quoted_key ''option''))
                 (\<lambda>v o'. o'\<lparr>Order_TimeInForce := mapBtccTimeInForce v\<rparr>) order;
               order = when_some (btcc_decimal_field orderValue (quoted_key ''price''))
                 (\<lambda>d o'. o'\<lparr>Order_Price := d\<rparr>) order;
               qty = btcc_decimal_field orderValue (quoted_key ''amount'');
               order = when_some qty (\<lambda>d o'. o'\<lparr>Order_Quantity := d\<rparr>) order;
               order = btcc_left_quantity orderValue qty order;
               order = when_some (btcc_time_field env orderValue (quoted_key ''ctime''))
                 (\<lambda>t o'. o'\<lparr>Order_EventTsNano := t\<rparr>) order;
               order = when_some (btcc_time_field env orderValue (quoted_key ''mtime''))
                 (\<lambda>t o'. o'\<lparr>Order_UpdatedTime := t\<rparr>) order;
               order = (if Order_UpdatedTime order = 0
                        then order\<lparr>Order_UpdatedTime := Order_EventTsNano order\<rparr> else order);
               order = order\<lparr>Order_Source := copy_into (Order_Source order) ''btcc''\<rparr>
           in if Order_ID order = 0 \<and> qty = None
              then Ret (Inl Btcc_ErrInvalidPayload) else Ret (Inr order)))))"

definition decodeBtccPayload ::
  "go_env \<Rightarrow> (nat \<Rightarrow> byte) \<Rightarrow> Topic \<Rightarrow> Symbol \<Rightarrow> string \<Rightarrow> string \<Rightarrow> (btcc_error + byte list) go" where
  "decodeBtccPayload env pad topic symbol payload spare =
     (if topic = TopicDepth then
        go_bind (decodeBtccDepth env payload spare symbol) (\<lambda>r.
          case r of Inl e \<Rightarrow> Ret (Inl e) | Inr depth \<Rightarrow> Ret (Inr (Depth_Encode pad depth [])))
      else if topic = TopicOrder then
        go_bind (decodeBtccOrder env payload spare symbol) (\<lambda>r.
          case r of Inl e \<Rightarrow> Ret (Inl e) | Inr order \<Rightarrow> Ret (Inr (Order_Encode pad order [])))
      else Ret (Inl Btcc_ErrInvalidRequest))"

definition btcc_DecodeMarketDataPayload ::
  "go_env \<Rightarrow> (nat \<Rightarrow> byte) \<Rightarrow> Topic \<Rightarrow> Symbol \<Rightarrow> string \<Rightarrow> string \<Rightarrow> (btcc_error + byte list) go" where
  "btcc_DecodeMarketDataPayload env pad topic symbol payload spare =
     (if \<not> Topic_IsAvailable topic then Ret (Inl Btcc_ErrInvalidRequest)
      else if length payload = 0 then Ret (Inl Btcc_ErrInvalidPayload)
      else decodeBtccPayload env pad topic symbol payload spare)"

subsection \<open>hashBytes and appendUint\<close>

text \<open>64-bit FNV-1a over the bytes.\<close>

definition btcc_hashBytes :: "string \<Rightarrow> u64" where
  "btcc_hashBytes data =
     foldl (\<lambda>hash c. (hash XOR of_nat (code c)) * 1099511628211) 14695981039346656037 data"

text \<open>The digits are written from the end of a 20 byte array; the result is \<open>buf[i:]\<close>.\<close>

function appendUint_loop :: "u64 \<Rightarrow> string \<Rightarrow> string" where
  "appendUint_loop v digits =
     (if 0 < v then appendUint_loop (v div 10) (char_of (unat (48 + v mod 10)) # digits) else digits)"
  by pat_completeness auto
termination
  by (relation "measure (\<lambda>(v, digits). unat v)") (auto simp: unat_div word_greater_zero_iff unat_gt_0)

declare appendUint_loop.simps [simp del]

definition btcc_appendUint :: "string \<Rightarrow> u64 \<Rightarrow> string" where
  "btcc_appendUint dst v = (if v = 0 then dst @ ''0'' else dst @ appendUint_loop v [])"

end
