(* ===== verification/Btcc_Payload_Laws.thy ===== *)
theory Btcc_Payload_Laws
  imports Btcc_Payload
begin

section \<open>Laws of the BTCC scanners\<close>

text \<open>
  What the index loops of \<open>Btcc_Payload\<close> compute: decimal output, trimming, integers and
  timestamps, how far a skip can run, and when the slice of a \<open>params\<close> element panics.
\<close>

subsection \<open>appendUint and hashBytes\<close>

lemma digit_word: "char_of (unat (48 + v mod 10 :: u64)) = digit_char (unat v mod 10)"
proof -
  have "unat (v mod 10) = unat v mod 10" by (simp add: unat_mod)
  moreover have "unat v mod 10 < 10" by simp
  ultimately have "unat (48 + v mod 10) = 48 + unat v mod 10"
    by (subst unat_add_lem [THEN iffD1]) simp_all
  then show ?thesis by (simp add: digit_char_def)
qed

lemma appendUint_loop_eq: "v \<noteq> 0 \<Longrightarrow> appendUint_loop v ds = dec_nat (unat v) @ ds"
proof (induction v ds rule: appendUint_loop.induct)
  case (1 v ds)
  have pos: "0 < v" using 1(2) by (simp add: word_greater_zero_iff)
  have d: "unat (v div 10) = unat v div 10" by (simp add: unat_div)
  show ?case
  proof (cases "unat v < 10")
    case True
    then have "unat (v div 10) = 0" by (simp add: d)
    then have "v div 10 = 0" by (simp add: unat_eq_0)
    with True pos show ?thesis
      by (simp add: appendUint_loop.simps [of v] appendUint_loop.simps [of 0] digit_word dec_nat.simps [of "unat v"])
  next
    case False
    then have "unat (v div 10) \<noteq> 0" by (simp add: d)
    then have "v div 10 \<noteq> 0" by (simp add: unat_eq_0)
    with 1(1) pos False show ?thesis
      by (simp add: appendUint_loop.simps [of v] digit_word d dec_nat.simps [of "unat v"])
  qed
qed

lemma digit_char_0: "digit_char 0 = CHR ''0''"
proof -
  have "(48::nat) = of_char (CHR ''0'')" by simp
  then show ?thesis by (simp only: digit_char_def add_0_right char_of_char)
qed

lemma btcc_appendUint_eq: "btcc_appendUint dst v = appendUint dst (unat v)"
  by (simp add: btcc_appendUint_def appendUint_def appendUint_loop_eq dec_nat.simps [of 0] digit_char_0)

text \<open>The 20 byte array is large enough for every value, so the index never goes below zero.\<close>

lemma btcc_appendUint_fits: "length (btcc_appendUint [] v) \<le> 20"
proof -
  have "unat v < 2 ^ 64" using unsigned_less [of v] by simp
  then have "unat v < 10 ^ 20" by simp
  then show ?thesis by (simp add: btcc_appendUint_eq appendUint_def dec_nat_length_le)
qed

lemma btcc_appendUint_inj: "btcc_appendUint dst v = btcc_appendUint dst w \<longleftrightarrow> v = w"
  by (metis btcc_appendUint_eq appendUint_def append_same_eq dec_val_dec_nat word_unat_eq_iff same_append_eq)

subsection \<open>Trimming and integers\<close>

lemma trim_end_eq:
  "start \<le> e \<Longrightarrow> e \<le> length p \<Longrightarrow>
     slice p start (trim_end p start e) = rev (dropWhile is_space (rev (slice p start e)))"
proof (induction p start e rule: trim_end.induct)
  case (1 p start e)
  show ?case
  proof (cases "start < e")
    case True
    then have s: "slice p start e = slice p start (e - 1) @ [p ! (e - 1)]"
      using 1(3) by (cases e) (simp_all add: slice_def Suc_diff_le take_Suc_conv_app_nth)
    show ?thesis using 1 True s by (cases "is_space (p ! (e - 1))") (simp_all add: trim_end.simps [of p start e])
  next
    case False
    then have "trim_end p start e = e" by (simp add: trim_end.simps [of p start e])
    with 1(2) False show ?thesis by (simp add: slice_def)
  qed
qed

lemma btcc_trimSpace_eq: "btcc_trimSpace p = rev (dropWhile is_space (rev (dropWhile is_space p)))"
proof -
  have "slice p (skip_while is_space p 0) (length p) = dropWhile is_space p"
    using drop_skip_while [of 0 p is_space] by (simp add: slice_def flip: length_drop)
  then show ?thesis
    using trim_end_eq [of "skip_while is_space p 0" "length p" p] skip_while_le [of 0 p is_space]
    by (simp add: btcc_trimSpace_def Let_def)
qed

lemma btcc_trimSpace_id:
  assumes "p \<noteq> []" "\<not> is_space (hd p)" "\<not> is_space (last p)"
  shows "btcc_trimSpace p = p"
proof -
  have "dropWhile is_space p = p" using assms by (cases p) auto
  moreover have "dropWhile is_space (rev p) = rev p"
    using assms by (cases "rev p") (auto simp flip: hd_rev)
  ultimately show ?thesis by (simp add: btcc_trimSpace_eq)
qed

lemma btcc_trimSpace_quoted: "btcc_trimSpace (CHR 0x22 # v @ [CHR 0x22]) = CHR 0x22 # v @ [CHR 0x22]"
  by (rule btcc_trimSpace_id) (simp_all add: is_space_def)

lemma btcc_unquote_plain:
  assumes "s \<noteq> []" "\<forall>c \<in> set s. \<not> is_space c" "hd s \<noteq> CHR 0x22"
  shows "btcc_unquote s = Some s"
proof -
  have "btcc_trimSpace s = s" using assms by (intro btcc_trimSpace_id) auto
  with assms show ?thesis by (simp add: btcc_unquote_def hd_conv_nth)
qed

lemma btcc_unquote_quoted:
  assumes "CHR 0x22 \<notin> set v"
  shows "btcc_unquote (CHR 0x22 # v @ [CHR 0x22]) = Some v"
proof -
  have "skip_while (\<lambda>c. c \<noteq> CHR 0x22) (v @ [CHR 0x22]) 0 = length v"
    using assms by (auto simp: skip_while_eq takeWhile_append)
  then show ?thesis by (simp add: btcc_unquote_def btcc_trimSpace_quoted)
qed

lemma dec_nat_token: "\<forall>c \<in> set (dec_nat n). \<not> is_space c" "hd (dec_nat n) \<noteq> CHR 0x22" "CHR 0x22 \<notin> set (dec_nat n)"
proof -
  have d: "\<forall>c \<in> set (dec_nat n). is_digit c" by (blast dest: dec_nat_digits)
  then have "is_digit (hd (dec_nat n))" by simp
  with d show "\<forall>c \<in> set (dec_nat n). \<not> is_space c" "hd (dec_nat n) \<noteq> CHR 0x22" "CHR 0x22 \<notin> set (dec_nat n)"
    using is_digit_ne by blast+
qed

text \<open>A decimal number is read back, bare or quoted.\<close>

lemma parseJSONInt_dec_nat: "n < 2 ^ 63 \<Longrightarrow> btcc_parseJSONInt (dec_nat n) = Some (int n)"
  by (simp add: btcc_parseJSONInt_def btcc_unquote_plain dec_nat_token parseInt_dec_nat)

lemma parseJSONInt_quoted: "n < 2 ^ 63 \<Longrightarrow> btcc_parseJSONInt (CHR 0x22 # dec_nat n @ [CHR 0x22]) = Some (int n)"
  by (simp add: btcc_parseJSONInt_def btcc_unquote_quoted dec_nat_token parseInt_dec_nat)

lemma parseJSONInt_range:
  assumes "btcc_parseJSONInt raw = Some v"
  shows "in_int64 v"
proof -
  obtain s where "parseInt s = (v, None)"
    using assms by (auto simp: btcc_parseJSONInt_def split: option.splits prod.splits)
  then show ?thesis using parseInt_in_int64 [of s] by simp
qed

subsection \<open>Timestamps\<close>

text \<open>
  From \<open>10 ^ 12\<close> up the number is milliseconds, below it seconds. Whole milliseconds are exact up
  to the product's overflow, whole seconds up to the year 2115 (the product needs 53 bits
  after the factor \<open>2 ^ 9\<close> is taken out).
\<close>

lemma timestamp_millis:
  assumes "10 ^ 12 < n" "n * 1000000 < 2 ^ 63"
  shows "btcc_parseJSONTimestamp env (dec_nat n) = Some (int n * 1000000)"
proof -
  have d: "\<forall>c \<in> set (dec_nat n). is_digit c" by (blast dest: dec_nat_digits)
  have "parseFloat env (dec_nat n) = Some (Fin (of_nat n))"
    using parseFloat_digits [of "dec_nat n" env] assms d by simp
  moreover have "(10 ^ 12 :: rat) < of_nat n"
    using assms(1) by (metis of_nat_less_iff of_nat_numeral of_nat_power)
  moreover have "trunc_rat (of_nat n) = int n" by (simp add: trunc_rat_def)
  ultimately show ?thesis using assms
    by (simp add: btcc_parseJSONTimestamp_def btcc_unquote_plain dec_nat_token f64_to_int64_def in_int64_def)
qed

lemma timestamp_seconds:
  assumes "0 < n" "n * 5 ^ 9 < 2 ^ 53"
  shows "btcc_parseJSONTimestamp env (dec_nat n) = Some (int n * 1000000000)"
proof -
  have d: "\<forall>c \<in> set (dec_nat n). is_digit c" by (blast dest: dec_nat_digits)
  have "parseFloat env (dec_nat n) = Some (Fin (of_nat n))"
    using parseFloat_digits [of "dec_nat n" env] assms d by simp
  moreover have "rnd64 (of_nat n * 10 ^ 9) = Fin (of_nat n * 10 ^ 9)"
  proof -
    have "rnd64 (of_int (int (n * 5 ^ 9) * 2 ^ 9)) = Fin (of_int (int (n * 5 ^ 9) * 2 ^ 9))"
      by (rule rnd64_scaled) (use assms in simp_all)
    moreover have "of_int (int (n * 5 ^ 9) * 2 ^ 9) = (of_nat n * 10 ^ 9 :: rat)" by simp
    ultimately show ?thesis by (simp only:)
  qed
  moreover have "\<not> (10 ^ 12 :: rat) < of_nat n"
  proof -
    have "n \<le> 10 ^ 12" using assms(2) by simp
    then have "(of_nat n :: rat) \<le> of_nat (10 ^ 12)" by (simp only: of_nat_le_iff)
    then show ?thesis by simp
  qed
  moreover have "trunc_rat (of_nat n * 10 ^ 9) = int n * 1000000000"
  proof -
    have "(of_nat n * 10 ^ 9 :: rat) = of_int (int n * 1000000000)" by simp
    then show ?thesis by (simp only: trunc_rat_def floor_of_int) simp
  qed
  ultimately show ?thesis using assms
    by (simp add: btcc_parseJSONTimestamp_def btcc_unquote_plain dec_nat_token f64_to_int64_def in_int64_def)
qed

subsection \<open>How far a skip runs\<close>

definition ends_escape :: "string \<Rightarrow> bool" where
  "ends_escape p \<longleftrightarrow> p \<noteq> [] \<and> last p = CHR 0x5C"

lemma skipString_loop_bound:
  "\<not> ends_escape p \<Longrightarrow> i \<le> length p \<Longrightarrow> btcc_skipString_loop p i \<le> length p"
proof (induction p i rule: btcc_skipString_loop.induct)
  case (1 p i)
  have "i + 2 \<le> length p" if "i < length p" "p ! i = CHR 0x5C"
  proof (rule ccontr)
    assume "\<not> i + 2 \<le> length p"
    with that(1) have "i = length p - 1" by linarith
    moreover have "p \<noteq> []" using that(1) by auto
    ultimately have "ends_escape p" using that(2) by (simp add: ends_escape_def last_conv_nth)
    with 1(3) show False ..
  qed
  with 1 show ?case by (simp add: btcc_skipString_loop.simps [of p i])
qed

definition skip_end :: "string \<Rightarrow> nat" where
  "skip_end p = (if ends_escape p then length p + 1 else length p)"

lemma btcc_skipString_end: "i < length p \<Longrightarrow> btcc_skipString p i \<le> skip_end p"
  using skipString_loop_bound [of p "i + 1"] skipString_loop_le [of "i + 1" p]
  by (auto simp: skip_end_def btcc_skipString_def)

lemma length_le_skip_end: "length p \<le> skip_end p"
  by (simp add: skip_end_def)

lemma skipObject_loop_end: "i \<le> skip_end p \<Longrightarrow> btcc_skipObject_loop p i d \<le> skip_end p"
proof (induction p i d rule: btcc_skipObject_loop.induct)
  case (1 p i d)
  have "i < length p \<Longrightarrow> i + 1 \<le> skip_end p" using length_le_skip_end [of p] by simp
  moreover have "i < length p \<Longrightarrow> btcc_skipString p i - 1 + 1 \<le> skip_end p"
    using btcc_skipString_end [of i p] btcc_skipString_gt [of i p] by simp
  ultimately show ?case using 1 by (simp add: btcc_skipObject_loop.simps [of p i d] Let_def)
qed

lemma skipArray_loop_end: "i \<le> skip_end p \<Longrightarrow> btcc_skipArray_loop p i d \<le> skip_end p"
proof (induction p i d rule: btcc_skipArray_loop.induct)
  case (1 p i d)
  have "i < length p \<Longrightarrow> i + 1 \<le> skip_end p" using length_le_skip_end [of p] by simp
  moreover have "i < length p \<Longrightarrow> btcc_skipString p i - 1 + 1 \<le> skip_end p"
    using btcc_skipString_end [of i p] btcc_skipString_gt [of i p] by simp
  ultimately show ?case using 1 by (simp add: btcc_skipArray_loop.simps [of p i d] Let_def)
qed

lemma btcc_skipValue_end: "i \<le> length p \<Longrightarrow> btcc_skipValue p i \<le> skip_end p"
proof -
  assume i: "i \<le> length p"
  let ?i = "skip_while is_space p i"
  have le: "?i \<le> length p" "?i \<le> skip_end p" "skip_while P p ?i \<le> skip_end p" for P
    using skip_while_le [OF i] skip_while_le [of ?i p P] length_le_skip_end [of p] by (auto intro: order_trans)
  then show ?thesis
    using btcc_skipString_end [of ?i p] skipObject_loop_end [of ?i p 0] skipArray_loop_end [of ?i p 0]
    by (simp add: btcc_skipValue_def btcc_skipSpaces_def btcc_skipObject_def btcc_skipArray_def Let_def)
qed

text \<open>
  The slice of an element panics only when the payload ends in a backslash inside an open string
  and the buffer has not one spare byte behind it.
\<close>

lemma params_loop_returns:
  "skip_end p \<le> length p + length spare \<Longrightarrow> btcc_params_loop p spare k i j \<noteq> Panic"
proof (induction p spare k i j rule: btcc_params_loop.induct)
  case (1 p spare k i j)
  let ?i = "skip_while (\<lambda>c. btcc_isSpace c \<or> c = CHR '','') p i"
  let ?e = "btcc_skipValue p ?i"
  have e: "?e \<le> length p + length spare" if "\<not> length p \<le> ?i"
    using btcc_skipValue_end [of ?i p] that 1(2) by simp
  show ?case
    by (subst btcc_params_loop.simps) (use e 1 in \<open>auto simp: Let_def go_bind_Panic_iff go_slice_def\<close>)
qed

lemma scanParamsValue_returns:
  assumes "\<not> ends_escape payload \<or> spare \<noteq> []"
  shows "btcc_scanParamsValue payload spare index \<noteq> Panic"
proof -
  have "1 \<le> length spare \<or> \<not> ends_escape payload" using assms by (cases spare) auto
  then have "skip_end payload \<le> length payload + length spare" by (auto simp: skip_end_def)
  then show ?thesis
    using params_loop_returns by (auto simp: btcc_scanParamsValue_def Let_def split: option.split)
qed

end
