(* ===== verification/Scanner.thy ===== *)
theory Scanner
  imports Scan_Lib
begin

section \<open>The shared scanner\<close>

text \<open>
  \<open>libs/shared/scanner/bytes.go\<close>. \<open>(value, ok)\<close> results are options. The lemmas characterise
  each reader completely: what \<open>ScanStringField\<close> returns is exactly the quoted text after the
  first occurrence of the key, and \<open>ScanUintField\<close> is the digit run after it modulo \<open>2 ^ 64\<close>.
\<close>

definition IsSpace :: "char \<Rightarrow> bool" where
  "IsSpace b \<longleftrightarrow> b = CHR '' '' \<or> b = CHR 0x09 \<or> b = CHR 0x0A \<or> b = CHR 0x0D"

lemma IsSpace_is_space [simp]: "IsSpace = is_space"
  by (simp add: fun_eq_iff IsSpace_def is_space_def)

definition IndexOf :: "string \<Rightarrow> string \<Rightarrow> int" where
  "IndexOf payload key =
     (if length key = 0 \<or> length payload < length key then - 1 else index_loop payload key 0)"

definition ScanUintField :: "string \<Rightarrow> string \<Rightarrow> u64 option" where
  "ScanUintField payload key =
     (let idx = IndexOf payload key in
      if idx < 0 then None
      else case after_colon payload (nat idx + length key) of
        None \<Rightarrow> None
      | Some i \<Rightarrow>
          if length payload \<le> i \<or> \<not> is_digit (payload ! i) then None
          else Some (uint_loop payload i 0))"

definition ScanStringField :: "string \<Rightarrow> string \<Rightarrow> string option" where
  "ScanStringField payload key =
     (let idx = IndexOf payload key in
      if idx < 0 then None
      else case after_colon payload (nat idx + length key) of
        None \<Rightarrow> None
      | Some i \<Rightarrow>
          if length payload \<le> i \<or> payload ! i \<noteq> CHR 0x22 then None
          else quoted_at payload i)"

definition BytesContains :: "string \<Rightarrow> string \<Rightarrow> bool" where
  "BytesContains haystack needle \<longleftrightarrow>
     (if length needle = 0 then True
      else if length haystack < length needle then False
      else 0 \<le> index_loop haystack needle 0)"

definition first_at :: "string \<Rightarrow> string \<Rightarrow> string \<Rightarrow> bool" where
  "first_at payload key pre \<longleftrightarrow> (\<forall>j < length pre. \<not> prefix key (drop j payload))"

lemma IndexOf_nat:
  "IndexOf p key = int k \<longleftrightarrow>
     key \<noteq> [] \<and> prefix key (drop k p) \<and> (\<forall>j < k. \<not> prefix key (drop j p))"
proof (cases "key = []")
  case False
  have "prefix key (drop k p) \<Longrightarrow> length key \<le> length p"
    using prefix_length_le [of key "drop k p"] by simp
  with False show ?thesis
    using index_loop_spec [OF False, of p 0 k] by (auto simp: IndexOf_def)
qed (simp add: IndexOf_def)

lemma IndexOf_neg: "IndexOf p key < 0 \<longleftrightarrow> key = [] \<or> (\<forall>j. \<not> prefix key (drop j p))"
proof (cases "key = []")
  case False
  show ?thesis
  proof (cases "length p < length key")
    case True
    then have "\<not> prefix key (drop j p)" for j
      using prefix_length_le [of key "drop j p"] False by (auto dest: prefix_length_le)
    with True show ?thesis by (simp add: IndexOf_def)
  next
    case l: False
    show ?thesis
      by (rule index_loop_cases [OF False, of p 0]) (use False l in \<open>auto simp: IndexOf_def\<close>)
  qed
qed (simp add: IndexOf_def)

lemma BytesContains_sublist: "BytesContains h n \<longleftrightarrow> sublist n h"
proof -
  have "BytesContains h n \<longleftrightarrow> n = [] \<or> \<not> IndexOf h n < 0"
    by (auto simp: BytesContains_def IndexOf_def)
  also have "\<dots> \<longleftrightarrow> (\<exists>j. prefix n (drop j h))"
    by (auto simp: IndexOf_neg)
  also have "\<dots> \<longleftrightarrow> sublist n h"
    by (metis append_take_drop_id drop_append append_eq_conv_conj prefix_def sublist_def add_0 drop_all
        append_Nil diff_self_eq_0 order_refl drop0)
  finally show ?thesis .
qed

text \<open>The position after the key, and the text there.\<close>

lemma IndexOf_decomp:
  assumes "IndexOf p key = int k"
  shows "p = take k p @ key @ drop (k + length key) p" and "first_at p key (take k p)"
    and "k + length key \<le> length p" and "key \<noteq> []"
proof -
  from assms have k: "key \<noteq> []" "prefix key (drop k p)" "\<forall>j < k. \<not> prefix key (drop j p)"
    by (simp_all add: IndexOf_nat)
  then obtain t where t: "drop k p = key @ t" by (auto simp: prefix_def)
  then have "drop (k + length key) p = t" by (metis add.commute append_eq_conv_conj drop_drop)
  with t show "p = take k p @ key @ drop (k + length key) p" by (metis append_take_drop_id)
  show "k + length key \<le> length p" using k by (simp add: prefix_length_bound)
  show "first_at p key (take k p)" using k(3) by (auto simp: first_at_def)
  show "key \<noteq> []" by (rule k)
qed

lemma IndexOf_built: "key \<noteq> [] \<Longrightarrow> first_at (pre @ key @ t) key pre \<Longrightarrow> IndexOf (pre @ key @ t) key = int (length pre)"
  by (simp add: IndexOf_nat first_at_def)

lemma field_cases:
  assumes "\<not> IndexOf p key < 0" and "after_colon p (nat (IndexOf p key) + length key) = Some i"
  obtains pre gap sp where "p = pre @ key @ gap @ '':'' @ sp @ drop i p" "first_at p key pre"
    "CHR '':'' \<notin> set gap" "list_all is_space sp" "key \<noteq> []" "i \<le> length p"
    "drop i p = [] \<or> \<not> is_space (hd (drop i p))"
proof -
  define k where "k = nat (IndexOf p key)"
  have k: "IndexOf p key = int k" using assms(1) by (simp add: k_def)
  note d = IndexOf_decomp [OF k]
  have i: "i \<le> length p" "colon_tail (drop (k + length key) p) = Some (drop i p)"
    using after_colon_Some [of "k + length key" p i] assms(2) d(3) k_def by simp_all
  from i(2) obtain gap sp where "drop (k + length key) p = gap @ '':'' @ sp @ drop i p"
      "CHR '':'' \<notin> set gap" "list_all is_space sp" "drop i p = [] \<or> \<not> is_space (hd (drop i p))"
    by (rule colon_tail_SomeD)
  with d i show thesis using that by metis
qed

lemma field_built:
  assumes "key \<noteq> []" "first_at p key pre" "p = pre @ key @ gap @ '':'' @ sp @ rest"
    and "CHR '':'' \<notin> set gap" "list_all is_space sp" "rest \<noteq> []" "\<not> is_space (hd rest)"
  obtains i where "IndexOf p key = int (length pre)" "after_colon p (length pre + length key) = Some i"
    "i < length p" "drop i p = rest"
proof -
  have "IndexOf p key = int (length pre)"
    using IndexOf_built [of key pre "gap @ '':'' @ sp @ rest"] assms by simp
  moreover have "length pre + length key \<le> length p"
    and d: "drop (length pre + length key) p = gap @ '':'' @ sp @ rest"
    using assms(3) by simp_all
  moreover from this obtain i where "after_colon p (length pre + length key) = Some i"
    using after_colon_None colon_tail_built [OF assms(4-7)] by (metis option.exhaust option.distinct(1))
  moreover from this have "i \<le> length p \<and> drop i p = rest"
    using after_colon_Some calculation(2) d colon_tail_built [OF assms(4-7)] by (metis option.inject)
  ultimately show thesis using that assms(6) by (metis drop_eq_Nil le_neq_implies_less le_refl)
qed

lemma quote_not_space: "\<not> is_space (CHR 0x22)"
  by (simp add: is_space_def)

lemma ScanStringField_iff:
  "ScanStringField p key = Some v \<longleftrightarrow>
     key \<noteq> [] \<and> (\<exists>pre gap sp post.
       p = pre @ key @ gap @ '':'' @ sp @ [CHR 0x22] @ v @ [CHR 0x22] @ post
       \<and> first_at p key pre \<and> CHR '':'' \<notin> set gap \<and> list_all is_space sp \<and> CHR 0x22 \<notin> set v)"
  (is "?lhs \<longleftrightarrow> ?rhs")
proof
  assume ?lhs
  then obtain i where i: "\<not> IndexOf p key < 0"
      "after_colon p (nat (IndexOf p key) + length key) = Some i"
      "i < length p" "p ! i = CHR 0x22" "quoted_at p i = Some v"
    by (auto simp: ScanStringField_def Let_def not_le split: if_splits option.splits)
  then obtain pre gap sp where p: "p = pre @ key @ gap @ '':'' @ sp @ drop i p" "first_at p key pre"
      "CHR '':'' \<notin> set gap" "list_all is_space sp" "key \<noteq> []"
    using field_cases by metis
  have "quoted_text (drop i p) = Some v" using i by (simp add: quoted_at_eq)
  then obtain post where "tl (drop i p) = v @ CHR 0x22 # post" and v: "CHR 0x22 \<notin> set v"
    using quoted_text_SomeD by blast
  then have "drop i p = [CHR 0x22] @ v @ [CHR 0x22] @ post"
    using i(3,4) by (metis append_Cons append_Nil drop_eq_Nil list.collapse nth_drop_hd not_le)
  with p v show ?rhs by metis
next
  assume ?rhs
  then obtain pre gap sp post where k: "key \<noteq> []"
      and p: "p = pre @ key @ gap @ '':'' @ sp @ [CHR 0x22] @ v @ [CHR 0x22] @ post"
      and r: "first_at p key pre" "CHR '':'' \<notin> set gap" "list_all is_space sp" "CHR 0x22 \<notin> set v"
    by blast
  obtain i where i: "IndexOf p key = int (length pre)"
      "after_colon p (length pre + length key) = Some i" "i < length p"
      "drop i p = [CHR 0x22] @ v @ [CHR 0x22] @ post"
    using field_built [OF k r(1) p r(2,3)] quote_not_space by auto
  then have "p ! i = CHR 0x22" and "quoted_at p i = Some v"
    using quoted_text_built [OF r(4)] by (simp_all add: nth_drop_hd quoted_at_eq)
  with i show ?lhs by (simp add: ScanStringField_def)
qed

lemma ScanUintField_iff:
  "ScanUintField p key = Some n \<longleftrightarrow>
     key \<noteq> [] \<and> (\<exists>pre gap sp ds rest.
       p = pre @ key @ gap @ '':'' @ sp @ ds @ rest \<and> first_at p key pre
       \<and> CHR '':'' \<notin> set gap \<and> list_all is_space sp \<and> ds \<noteq> [] \<and> list_all is_digit ds
       \<and> (rest = [] \<or> \<not> is_digit (hd rest)) \<and> n = of_nat (dec_val ds))"
  (is "?lhs \<longleftrightarrow> ?rhs")
proof
  assume ?lhs
  then obtain i where i: "\<not> IndexOf p key < 0"
      "after_colon p (nat (IndexOf p key) + length key) = Some i"
      "i < length p" "is_digit (p ! i)" "n = uint_loop p i 0"
    by (auto simp: ScanUintField_def Let_def not_le split: if_splits option.splits)
  then obtain pre gap sp where p: "p = pre @ key @ gap @ '':'' @ sp @ drop i p" "first_at p key pre"
      "CHR '':'' \<notin> set gap" "list_all is_space sp" "key \<noteq> []"
    using field_cases by metis
  let ?ds = "takeWhile is_digit (drop i p)" and ?rest = "dropWhile is_digit (drop i p)"
  have "drop i p = ?ds @ ?rest" by simp
  moreover have "?ds \<noteq> []" using i by (simp add: Cons_nth_drop_Suc [symmetric])
  moreover have "list_all is_digit ?ds" by (auto simp: list_all_iff dest: set_takeWhileD)
  moreover have "?rest = [] \<or> \<not> is_digit (hd ?rest)" using hd_dropWhile by blast
  moreover have "n = of_nat (dec_val ?ds)" using i by (simp add: uint_loop_eq)
  ultimately show ?rhs using p by metis
next
  assume ?rhs
  then obtain pre gap sp ds rest where k: "key \<noteq> []"
      and p: "p = pre @ key @ gap @ '':'' @ sp @ ds @ rest"
      and r: "first_at p key pre" "CHR '':'' \<notin> set gap" "list_all is_space sp"
      and ds: "ds \<noteq> []" "list_all is_digit ds" "rest = [] \<or> \<not> is_digit (hd rest)" "n = of_nat (dec_val ds)"
    by blast
  have "is_digit (hd ds)" using ds(1,2) by (simp add: list_all_iff)
  then have "\<not> is_space (hd (ds @ rest))" using ds(1) is_digit_ne by simp
  then obtain i where i: "IndexOf p key = int (length pre)"
      "after_colon p (length pre + length key) = Some i" "i < length p" "drop i p = ds @ rest"
    using field_built [OF k r(1) p r(2,3)] ds(1) by blast
  have "takeWhile is_digit (ds @ rest) = ds"
    using ds(2,3) by (cases rest) (auto simp: list_all_iff takeWhile_append)
  then have "uint_loop p i 0 = n" using i ds(4) by (simp add: uint_loop_eq)
  moreover have "is_digit (p ! i)" using i ds(1) \<open>is_digit (hd ds)\<close> by (simp add: nth_drop_hd)
  ultimately show ?lhs using i by (simp add: ScanUintField_def)
qed

text \<open>The value directly behind \<open>key:\<close>.\<close>

lemma field_pos:
  assumes "p = pre @ key @ CHR '':'' # rest" "first_at p key pre" "key \<noteq> []" "rest \<noteq> []" "\<not> is_space (hd rest)"
  shows "IndexOf p key = int (length pre)"
    and "after_colon p (length pre + length key) = Some (length pre + length key + 1)"
    and "length pre + length key + 1 < length p" and "p ! (length pre + length key + 1) = hd rest"
proof -
  obtain i where i: "IndexOf p key = int (length pre)" "after_colon p (length pre + length key) = Some i"
      "i < length p" "drop i p = rest"
    by (rule field_built [of key p pre "[]" "[]" rest]) (use assms in simp_all)
  have "length rest = length p - i" using i(4) by (simp flip: i(4))
  then have at: "i = length pre + length key + 1" using i(3) by (simp add: assms(1))
  show "IndexOf p key = int (length pre)" by (rule i)
  show "after_colon p (length pre + length key) = Some (length pre + length key + 1)"
    "length pre + length key + 1 < length p" using i by (simp_all only: at)
  show "p ! (length pre + length key + 1) = hd rest"
    using i(3,4) unfolding at by (simp add: nth_drop_hd)
qed

end
