(* ===== verification/Go_Crypto.thy ===== *)
theory Go_Crypto
  imports Go_Prelude
begin

section \<open>The hash functions of the standard library the code calls\<close>

text \<open>
  \<open>crypto/sha256\<close> (BTCC authentication), \<open>crypto/md5\<close> (BTCC order signature), \<open>crypto/sha1\<close> with
  \<open>encoding/base64\<close> (websocket handshake) and \<open>encoding/hex\<close>, as FIPS 180-4, RFC 1321 and RFC 4648
  define them, on 32-bit words. They compute; the lemmas give the lengths of the text encodings.
\<close>

subsection \<open>Padding and blocks\<close>

definition pad_zeros :: "nat \<Rightarrow> nat" where
  [go_eval]: "pad_zeros n = (119 - n mod 64) mod 64"

definition md_pad :: "(nat \<Rightarrow> int \<Rightarrow> byte list) \<Rightarrow> byte list \<Rightarrow> byte list" where
  [go_eval]: "md_pad enc m = m @ [0x80] @ replicate (pad_zeros (length m)) 0 @ enc 8 (8 * int (length m))"

function chunks :: "nat \<Rightarrow> 'a list \<Rightarrow> 'a list list" where
  "chunks n xs = (if n = 0 \<or> xs = [] then [] else take n xs # chunks n (drop n xs))"
  by pat_completeness auto
termination
  by (relation "measure (\<lambda>(n, xs). length xs)") auto

declare chunks.simps [simp del]

subsection \<open>SHA-256\<close>

definition sha256_K :: "u32 list" where
  "sha256_K =
     [1116352408, 1899447441, 3049323471, 3921009573, 961987163, 1508970993,
      2453635748, 2870763221, 3624381080, 310598401, 607225278, 1426881987,
      1925078388, 2162078206, 2614888103, 3248222580, 3835390401, 4022224774,
      264347078, 604807628, 770255983, 1249150122, 1555081692, 1996064986,
      2554220882, 2821834349, 2952996808, 3210313671, 3336571891, 3584528711,
      113926993, 338241895, 666307205, 773529912, 1294757372, 1396182291,
      1695183700, 1986661051, 2177026350, 2456956037, 2730485921, 2820302411,
      3259730800, 3345764771, 3516065817, 3600352804, 4094571909, 275423344,
      430227734, 506948616, 659060556, 883997877, 958139571, 1322822218,
      1537002063, 1747873779, 1955562222, 2024104815, 2227730452, 2361852424,
      2428436474, 2756734187, 3204031479, 3329325298]"

definition sha256_H :: "u32 list" where
  "sha256_H = [1779033703, 3144134277, 1013904242, 2773480762, 1359893119, 2600822924, 528734635, 1541459225]"

definition rotr :: "nat \<Rightarrow> u32 \<Rightarrow> u32" where
  [go_eval]: "rotr n x = drop_bit n x OR push_bit (32 - n) x"

definition rotl :: "nat \<Rightarrow> u32 \<Rightarrow> u32" where
  [go_eval]: "rotl n x = push_bit n x OR drop_bit (32 - n) x"

definition be32 :: "byte list \<Rightarrow> u32" where
  [go_eval]: "be32 bs = word_of_int (dec_be bs)"

definition le32 :: "byte list \<Rightarrow> u32" where
  [go_eval]: "le32 bs = word_of_int (dec_le bs)"

text \<open>The message schedule: \<open>n\<close> words more, each from the 16 before it.\<close>

fun sha256_extend :: "nat \<Rightarrow> u32 list \<Rightarrow> u32 list" where
  "sha256_extend 0 w = w"
| "sha256_extend (Suc n) w =
     (let k = length w; a = w ! (k - 15); b = w ! (k - 2);
          s0 = rotr 7 a XOR rotr 18 a XOR drop_bit 3 a;
          s1 = rotr 17 b XOR rotr 19 b XOR drop_bit 10 b
      in sha256_extend n (w @ [w ! (k - 16) + s0 + w ! (k - 7) + s1]))"

fun sha256_round :: "u32 list \<Rightarrow> u32 \<times> u32 \<Rightarrow> u32 list" where
  "sha256_round [a, b, c, d, e, f, g, h] (k, w) =
     (let S1 = rotr 6 e XOR rotr 11 e XOR rotr 25 e;
          ch = (e AND f) XOR (NOT e AND g);
          t1 = h + S1 + ch + k + w;
          S0 = rotr 2 a XOR rotr 13 a XOR rotr 22 a;
          maj = (a AND b) XOR (a AND c) XOR (b AND c);
          t2 = S0 + maj
      in [t1 + t2, a, b, c, d + t1, e, f, g])"
| "sha256_round s kw = s"

definition sha256_block :: "u32 list \<Rightarrow> byte list \<Rightarrow> u32 list" where
  "sha256_block hs blk =
     map2 (+) hs (foldl sha256_round hs (zip sha256_K (sha256_extend 48 (map be32 (chunks 4 blk)))))"

definition sha256 :: "byte list \<Rightarrow> byte list" where
  "sha256 m = concat (map (\<lambda>h. enc_be 4 (uint h)) (foldl sha256_block sha256_H (chunks 64 (md_pad enc_be m))))"

subsection \<open>MD5\<close>

definition md5_K :: "u32 list" where
  "md5_K =
     [3614090360, 3905402710, 606105819, 3250441966, 4118548399, 1200080426,
      2821735955, 4249261313, 1770035416, 2336552879, 4294925233, 2304563134,
      1804603682, 4254626195, 2792965006, 1236535329, 4129170786, 3225465664,
      643717713, 3921069994, 3593408605, 38016083, 3634488961, 3889429448,
      568446438, 3275163606, 4107603335, 1163531501, 2850285829, 4243563512,
      1735328473, 2368359562, 4294588738, 2272392833, 1839030562, 4259657740,
      2763975236, 1272893353, 4139469664, 3200236656, 681279174, 3936430074,
      3572445317, 76029189, 3654602809, 3873151461, 530742520, 3299628645,
      4096336452, 1126891415, 2878612391, 4237533241, 1700485571, 2399980690,
      4293915773, 2240044497, 1873313359, 4264355552, 2734768916, 1309151649,
      4149444226, 3174756917, 718787259, 3951481745]"

definition md5_S :: "nat list" where
  "md5_S = concat (map (\<lambda>r. concat (replicate 4 r)) [[7, 12, 17, 22], [5, 9, 14, 20], [4, 11, 16, 23], [6, 10, 15, 21]])"

definition md5_step :: "u32 list \<Rightarrow> u32 list \<Rightarrow> nat \<Rightarrow> u32 list" where
  "md5_step m s i =
     (case s of
        [a, b, c, d] \<Rightarrow>
          (let (f, g) = (if i < 16 then ((b AND c) OR (NOT b AND d), i)
                 else if i < 32 then ((d AND b) OR (NOT d AND c), (5 * i + 1) mod 16)
                 else if i < 48 then (b XOR c XOR d, (3 * i + 5) mod 16)
                 else (c XOR (b OR NOT d), (7 * i) mod 16))
           in [d, b + rotl (md5_S ! i) (f + a + md5_K ! i + m ! g), b, c])
      | _ \<Rightarrow> s)"

definition md5_block :: "u32 list \<Rightarrow> byte list \<Rightarrow> u32 list" where
  "md5_block hs blk = map2 (+) hs (foldl (md5_step (map le32 (chunks 4 blk))) hs [0..<64])"

definition md5 :: "byte list \<Rightarrow> byte list" where
  "md5 m = concat (map (\<lambda>h. enc_le 4 (uint h))
     (foldl md5_block [0x67452301, 0xefcdab89, 0x98badcfe, 0x10325476] (chunks 64 (md_pad enc_le m))))"

subsection \<open>SHA-1\<close>

fun sha1_extend :: "nat \<Rightarrow> u32 list \<Rightarrow> u32 list" where
  "sha1_extend 0 w = w"
| "sha1_extend (Suc n) w =
     (let k = length w in
      sha1_extend n (w @ [rotl 1 (w ! (k - 3) XOR w ! (k - 8) XOR w ! (k - 14) XOR w ! (k - 16))]))"

definition sha1_step :: "u32 list \<Rightarrow> u32 list \<Rightarrow> nat \<Rightarrow> u32 list" where
  "sha1_step w s i =
     (case s of
        [a, b, c, d, e] \<Rightarrow>
          (let (f, k) = (if i < 20 then ((b AND c) OR (NOT b AND d), 0x5a827999)
                 else if i < 40 then (b XOR c XOR d, 0x6ed9eba1)
                 else if i < 60 then ((b AND c) OR (b AND d) OR (c AND d), 0x8f1bbcdc)
                 else (b XOR c XOR d, 0xca62c1d6))
           in [rotl 5 a + f + e + k + w ! i, a, rotl 30 b, c, d])
      | _ \<Rightarrow> s)"

definition sha1_block :: "u32 list \<Rightarrow> byte list \<Rightarrow> u32 list" where
  "sha1_block hs blk = map2 (+) hs (foldl (sha1_step (sha1_extend 64 (map be32 (chunks 4 blk)))) hs [0..<80])"

definition sha1 :: "byte list \<Rightarrow> byte list" where
  "sha1 m = concat (map (\<lambda>h. enc_be 4 (uint h))
     (foldl sha1_block [0x67452301, 0xefcdab89, 0x98badcfe, 0x10325476, 0xc3d2e1f0]
        (chunks 64 (md_pad enc_be m))))"

subsection \<open>Hexadecimal and base 64\<close>

definition hex_char :: "nat \<Rightarrow> char" where
  [go_eval]: "hex_char n = ''0123456789abcdef'' ! n"

definition hex_EncodeToString :: "byte list \<Rightarrow> string" where
  "hex_EncodeToString bs = concat (map (\<lambda>b. [hex_char (unat b div 16), hex_char (unat b mod 16)]) bs)"

definition base64_char :: "nat \<Rightarrow> char" where
  [go_eval]: "base64_char n = ''ABCDEFGHIJKLMNOPQRSTUVWXYZabcdefghijklmnopqrstuvwxyz0123456789+/'' ! n"

fun base64_EncodeToString :: "byte list \<Rightarrow> string" where
  "base64_EncodeToString [] = []"
| "base64_EncodeToString [a] =
     [base64_char (unat a div 4), base64_char (unat a mod 4 * 16), CHR ''='', CHR ''='']"
| "base64_EncodeToString [a, b] =
     [base64_char (unat a div 4), base64_char (unat a mod 4 * 16 + unat b div 16),
      base64_char (unat b mod 16 * 4), CHR ''='']"
| "base64_EncodeToString (a # b # c # r) =
     [base64_char (unat a div 4), base64_char (unat a mod 4 * 16 + unat b div 16),
      base64_char (unat b mod 16 * 4 + unat c div 64), base64_char (unat c mod 64)]
     @ base64_EncodeToString r"

lemma length_hex [simp]: "length (hex_EncodeToString bs) = 2 * length bs"
  by (induction bs) (simp_all add: hex_EncodeToString_def)

end
