(* ===== verification/Ws_Types.thy ===== *)
theory Ws_Types
  imports Exceptions
begin

section \<open>Shared types of the websocket package\<close>

text \<open>
  \<open>libs/shared/websocket/types.go\<close> and the errors of \<open>manager.go\<close>, \<open>writer.go\<close> and
  \<open>dialer.go\<close>. Go enums are open, so message types and policies are bytes with named constants.
\<close>

type_synonym TopicID = u32
type_synonym MessageType = byte
type_synonym OverflowPolicy = byte
type_synonym FanOutMode = byte

definition MessageText :: MessageType where [simp]: "MessageText = 1"
definition MessageBinary :: MessageType where [simp]: "MessageBinary = 2"
definition MessageClose :: MessageType where [simp]: "MessageClose = 8"
definition MessagePing :: MessageType where [simp]: "MessagePing = 9"
definition MessagePong :: MessageType where [simp]: "MessagePong = 10"

definition CloseNormal :: "16 word" where "CloseNormal = 1000"

definition FanOutCopy :: FanOutMode where [simp]: "FanOutCopy = 0"
definition FanOutShared :: FanOutMode where [simp]: "FanOutShared = 1"

definition OverflowBlock :: OverflowPolicy where [simp]: "OverflowBlock = 0"
definition OverflowDropNewest :: OverflowPolicy where [simp]: "OverflowDropNewest = 1"
definition OverflowDropOldest :: OverflowPolicy where [simp]: "OverflowDropOldest = 2"

datatype conn_error = EOF | errFrameTooLarge | errHandshakeFailed | errProtocol | errWrite

datatype manager_error =
    ErrNilDialer | ErrNilDecoder | ErrNoEncoder | ErrBadConfig | ErrNoPool | ErrFrameTooLarge
  | ErrTopicAlreadySubscribed | ErrUnknownTopic | ErrAlreadyRunning | ErrNotRunning
  | ErrNotConnected | ErrQueueFull

end
