(* ===== verification/Btcc_Codec.thy ===== *)
theory Btcc_Codec
  imports Btcc_Payload_Laws Scanner Go_Crypto Ws_Types
begin

section \<open>BTCC codec: topic registration, control messages, routing of frames\<close>

text \<open>
  \<open>bundle/internal/ingest/btcc/codec.go\<close>. The codec is a record of its maps; a nil receiver is
  \<open>None\<close>, and dereferencing it panics where the code has no check. The read-write mutex makes
  every operation one atomic step, so the operations are functions on the record.
\<close>

datatype codec_error = errEmptyTopic | Codec_ErrWebSocketProtocol

datatype topicKind = topicKindUnknown | topicKindDepth | topicKindOrder

record topicMeta =
  meta_kind :: topicKind
  meta_market :: string

record btcc_codec =
  bc_topicsByID :: "TopicID \<rightharpoonup> topicMeta"
  bc_depthLookup :: "u64 \<rightharpoonup> TopicID"
  bc_orderLookup :: "u64 \<rightharpoonup> TopicID"
  bc_authTopicID :: TopicID
  bc_authReqID :: u64
  bc_authAccess :: string
  bc_authSecret :: string
  bc_authEnabled :: bool

definition btcc_NewCodec :: btcc_codec where
  "btcc_NewCodec = \<lparr>bc_topicsByID = Map.empty, bc_depthLookup = Map.empty, bc_orderLookup = Map.empty,
     bc_authTopicID = 0, bc_authReqID = 0, bc_authAccess = [], bc_authSecret = [], bc_authEnabled = False\<rparr>"

subsection \<open>Authentication\<close>

text \<open>\<open>strings.IndexByte\<close> gives the first colon, or -1.\<close>

definition splitAPIKey :: "string \<Rightarrow> (string \<times> string) option" where
  "splitAPIKey apiKey =
     (if apiKey = [] then None
      else let idx = (if CHR '':'' \<in> set apiKey then int (skip_while (\<lambda>c. c \<noteq> CHR '':'') apiKey 0) else - 1) in
        if idx \<le> 0 \<or> int (length apiKey) - 1 \<le> idx then None
        else Some (take (nat idx) apiKey, drop (nat idx + 1) apiKey))"

definition btcc_RegisterAuth ::
  "btcc_codec option \<Rightarrow> TopicID \<Rightarrow> string \<Rightarrow> u64 \<Rightarrow> btcc_codec option \<times> codec_error option" where
  "btcc_RegisterAuth c topicID apiKey reqID =
     (case c of
        None \<Rightarrow> (None, Some errEmptyTopic)
      | Some codec \<Rightarrow>
          (case splitAPIKey apiKey of
             None \<Rightarrow> (c, Some errEmptyTopic)
           | Some (accessID, secret) \<Rightarrow>
               (Some (codec\<lparr>bc_authTopicID := topicID, bc_authReqID := reqID, bc_authAccess := accessID,
                            bc_authSecret := secret, bc_authEnabled := True\<rparr>), None)))"

text \<open>The lines \<open>EncodeAuth\<close> and \<open>encodeAuth\<close> share.\<close>

definition btcc_auth_payload :: "string \<Rightarrow> string \<Rightarrow> string \<Rightarrow> u64 \<Rightarrow> string" where
  "btcc_auth_payload dst accessID secret reqID =
     (let signData = hex_EncodeToString (sha256 (bytes_of secret));
          dst = dst @ ''{'' @ quoted_key ''id'' @ '':'';
          dst = btcc_appendUint dst reqID;
          dst = dst @ '','' @ quoted_key ''method'' @ '':'' @ quoted_key ''server.accessid_auth'' @ '',''
                  @ quoted_key ''params'' @ '':['' @ [CHR 0x22];
          dst = dst @ accessID;
          dst = dst @ [CHR 0x22] @ '','' @ [CHR 0x22];
          dst = dst @ signData
      in dst @ [CHR 0x22] @ '']}'')"

definition btcc_EncodeAuth ::
  "btcc_codec option \<Rightarrow> string \<Rightarrow> string \<Rightarrow> u64 \<Rightarrow> codec_error + MessageType \<times> string" where
  "btcc_EncodeAuth c dst apiKey reqID =
     (case c of
        None \<Rightarrow> Inl Codec_ErrWebSocketProtocol
      | Some _ \<Rightarrow>
          (case splitAPIKey apiKey of
             None \<Rightarrow> Inl Codec_ErrWebSocketProtocol
           | Some (accessID, secret) \<Rightarrow> Inr (MessageText, btcc_auth_payload dst accessID secret reqID)))"

definition btcc_encodeAuth :: "btcc_codec \<Rightarrow> string \<Rightarrow> codec_error + MessageType \<times> string" where
  "btcc_encodeAuth c dst =
     (if bc_authAccess c = [] \<or> bc_authSecret c = [] then Inl Codec_ErrWebSocketProtocol
      else Inr (MessageText, btcc_auth_payload dst (bc_authAccess c) (bc_authSecret c) (bc_authReqID c)))"

definition btcc_bytesEqual :: "string \<Rightarrow> string \<Rightarrow> bool" where
  "btcc_bytesEqual a b \<longleftrightarrow> length a = length b \<and> list_all (\<lambda>i. a ! i = b ! i) [0..<length a]"

definition btcc_isAuthAck :: "btcc_codec \<Rightarrow> string \<Rightarrow> bool" where
  "btcc_isAuthAck c payload \<longleftrightarrow>
     (if \<not> bc_authEnabled c then False
      else if ScanUintField payload (quoted_key ''id'') \<noteq> Some (bc_authReqID c) then False
      else case ScanStringField payload (quoted_key ''status'') of
        Some status \<Rightarrow> btcc_bytesEqual status ''success''
      | None \<Rightarrow>
          (case ScanStringField payload (quoted_key ''result'') of
             Some result \<Rightarrow> btcc_bytesEqual result ''success''
           | None \<Rightarrow> False))"

definition btcc_isAuthTopic :: "btcc_codec \<Rightarrow> TopicID \<Rightarrow> bool" where
  "btcc_isAuthTopic c topic \<longleftrightarrow> bc_authEnabled c \<and> bc_authTopicID c = topic"

subsection \<open>Registration\<close>

definition btcc_symbolToMarket :: "Symbol \<Rightarrow> string" where
  "btcc_symbolToMarket symbol = Symbol_String symbol"

definition btcc_marketFromRequest :: "IngestRequest \<Rightarrow> codec_error + topicKind \<times> string" where
  "btcc_marketFromRequest req =
     (if Ingest_Topic req = TopicDepth then Inr (topicKindDepth, btcc_symbolToMarket (Ingest_Symbol req))
      else if Ingest_Topic req = TopicOrder then Inr (topicKindOrder, btcc_symbolToMarket (Ingest_Symbol req))
      else Inl errEmptyTopic)"

definition btcc_Register ::
  "btcc_codec option \<Rightarrow> TopicID \<Rightarrow> IngestRequest \<Rightarrow> btcc_codec option \<times> codec_error option" where
  "btcc_Register c topicID req =
     (case c of
        None \<Rightarrow> (None, Some errEmptyTopic)
      | Some codec \<Rightarrow>
          (case btcc_marketFromRequest req of
             Inl e \<Rightarrow> (c, Some e)
           | Inr (kind, market) \<Rightarrow>
               if length market = 0 then (c, Some errEmptyTopic)
               else
                 (let codec = codec\<lparr>bc_topicsByID := (bc_topicsByID codec)(topicID \<mapsto>
                                      \<lparr>meta_kind = kind, meta_market = market\<rparr>)\<rparr>;
                      codec = (if kind = topicKindOrder
                        then codec\<lparr>bc_orderLookup := (bc_orderLookup codec)(btcc_hashBytes market \<mapsto> topicID)\<rparr>
                        else codec\<lparr>bc_depthLookup := (bc_depthLookup codec)(btcc_hashBytes market \<mapsto> topicID)\<rparr>)
                  in (Some codec, None))))"

definition btcc_Unregister :: "btcc_codec option \<Rightarrow> TopicID \<Rightarrow> btcc_codec option" where
  "btcc_Unregister c topicID =
     (case c of
        None \<Rightarrow> None
      | Some codec \<Rightarrow>
          (case bc_topicsByID codec topicID of
             None \<Rightarrow> Some codec
           | Some meta \<Rightarrow>
               (let codec = codec\<lparr>bc_topicsByID := (bc_topicsByID codec)(topicID := None)\<rparr>;
                    h = btcc_hashBytes (meta_market meta)
                in Some (if meta_kind meta = topicKindOrder
                     then codec\<lparr>bc_orderLookup := (bc_orderLookup codec)(h := None)\<rparr>
                     else codec\<lparr>bc_depthLookup := (bc_depthLookup codec)(h := None)\<rparr>))))"

definition btcc_lookupDepth :: "btcc_codec \<Rightarrow> string \<Rightarrow> TopicID option" where
  "btcc_lookupDepth c market = bc_depthLookup c (btcc_hashBytes market)"

definition btcc_lookupOrder :: "btcc_codec \<Rightarrow> string \<Rightarrow> TopicID option" where
  "btcc_lookupOrder c market = bc_orderLookup c (btcc_hashBytes market)"

subsection \<open>Routing and control messages\<close>

definition btcc_DecodeTopic :: "btcc_codec option \<Rightarrow> string \<Rightarrow> string \<Rightarrow> TopicID option go" where
  "btcc_DecodeTopic c payload spare =
     (case c of
        None \<Rightarrow> Ret None
      | Some codec \<Rightarrow>
          if btcc_isAuthAck codec payload then Ret (Some (bc_authTopicID codec))
          else case ScanStringField payload (quoted_key ''method'') of
            None \<Rightarrow> Ret None
          | Some method \<Rightarrow>
              if btcc_bytesEqual method ''depth.update'' then
                go_bind (btcc_scanParamsString payload spare 2) (\<lambda>r.
                  case r of None \<Rightarrow> Ret None | Some market \<Rightarrow> Ret (btcc_lookupDepth codec market))
              else if btcc_bytesEqual method ''order.update'' then
                go_bind (btcc_scanParamsValue payload spare 1) (\<lambda>r.
                  case r of
                    None \<Rightarrow> Ret None
                  | Some orderValue \<Rightarrow>
                      (case btcc_scanStringField orderValue (quoted_key ''market'') of
                         None \<Rightarrow> Ret None
                       | Some market \<Rightarrow> Ret (btcc_lookupOrder codec market)))
              else Ret None)"

definition btcc_control :: "string \<Rightarrow> TopicID \<Rightarrow> string \<Rightarrow> string \<Rightarrow> string \<Rightarrow> string" where
  "btcc_control dst topic method market close =
     (let dst = dst @ ''{'' @ quoted_key ''id'' @ '':'';
          dst = btcc_appendUint dst (ucast topic);
          dst = dst @ '','' @ quoted_key ''method'' @ '':'' @ quoted_key method @ '','' @ quoted_key ''params''
                  @ '':['' @ [CHR 0x22];
          dst = dst @ market
      in dst @ close)"

definition lookupTopicMeta :: "btcc_codec \<Rightarrow> TopicID \<Rightarrow> topicMeta option" where
  [simp]: "lookupTopicMeta c topic = bc_topicsByID c topic"

definition btcc_EncodeSubscribe ::
  "btcc_codec option \<Rightarrow> string \<Rightarrow> TopicID \<Rightarrow> (codec_error + MessageType \<times> string) go" where
  "btcc_EncodeSubscribe c dst topic =
     (case c of
        None \<Rightarrow> Panic
      | Some codec \<Rightarrow>
          if btcc_isAuthTopic codec topic then Ret (btcc_encodeAuth codec dst)
          else case lookupTopicMeta codec topic of
            None \<Rightarrow> Ret (Inl Codec_ErrWebSocketProtocol)
          | Some meta \<Rightarrow>
              Ret (Inr (MessageText,
                if meta_kind meta = topicKindOrder
                then btcc_control dst topic ''order.subscribe'' (meta_market meta) ([CHR 0x22] @ '']}'')
                else btcc_control dst topic ''depth.subscribe'' (meta_market meta)
                       ([CHR 0x22] @ '',20,'' @ quoted_key ''0.00000001'' @ '']}''))))"

definition btcc_EncodeUnsubscribe ::
  "btcc_codec option \<Rightarrow> string \<Rightarrow> TopicID \<Rightarrow> (codec_error + MessageType \<times> string) go" where
  "btcc_EncodeUnsubscribe c dst topic =
     (case c of
        None \<Rightarrow> Panic
      | Some codec \<Rightarrow>
          if btcc_isAuthTopic codec topic then Ret (Inr (MessageText, take 0 dst))
          else case lookupTopicMeta codec topic of
            None \<Rightarrow> Ret (Inl Codec_ErrWebSocketProtocol)
          | Some meta \<Rightarrow>
              Ret (Inr (MessageText,
                btcc_control dst topic
                  (if meta_kind meta = topicKindOrder then ''order.unsubscribe'' else ''depth.unsubscribe'')
                  (meta_market meta) ([CHR 0x22] @ '']}''))))"

end
