(* ===== verification/Btcc_Json.thy ===== *)
theory Btcc_Json
  imports Btcc_Codec
begin

section \<open>The BTCC scanners on rendered JSON\<close>

text \<open>
  A small JSON type with its printer, and the proof that the index scanners walk it correctly:
  \<open>skipValue\<close> stops exactly behind a value, whatever is nested in it, and \<open>scanParamsValue\<close>
  returns the requested element of the \<open>params\<close> array of any message. This is the specification
  the scanners implement on well-formed input.
\<close>

subsection \<open>Values and their text\<close>

datatype jchar = Plain char | Esc char

datatype json = JStr "jchar list" | JRaw string | JArr "json list" | JObj "(jchar list \<times> json) list"

fun jchar_text :: "jchar \<Rightarrow> string" where
  "jchar_text (Plain c) = [c]"
| "jchar_text (Esc c) = [CHR 0x5C, c]"

fun jchar_ok :: "jchar \<Rightarrow> bool" where
  "jchar_ok (Plain c) \<longleftrightarrow> c \<noteq> CHR 0x22 \<and> c \<noteq> CHR 0x5C"
| "jchar_ok (Esc c) \<longleftrightarrow> True"

definition jchars_text :: "jchar list \<Rightarrow> string" where
  "jchars_text js = concat (map jchar_text js)"

definition jstring :: "jchar list \<Rightarrow> string" where
  "jstring js = CHR 0x22 # jchars_text js @ [CHR 0x22]"

fun render :: "json \<Rightarrow> string" where
  "render (JStr js) = jstring js"
| "render (JRaw t) = t"
| "render (JArr vs) = CHR ''['' # commas (map render vs) @ [CHR '']'']"
| "render (JObj fs) = CHR ''{'' # commas (map (\<lambda>(k, v). jstring k @ CHR '':'' # render v) fs) @ [CHR ''}'']"

definition raw_char :: "char \<Rightarrow> bool" where
  "raw_char c \<longleftrightarrow> c \<notin> {CHR '','', CHR ''['', CHR '']'', CHR ''{'', CHR ''}'', CHR 0x22} \<and> \<not> is_space c"

fun json_ok :: "json \<Rightarrow> bool" where
  "json_ok (JStr js) \<longleftrightarrow> list_all jchar_ok js"
| "json_ok (JRaw t) \<longleftrightarrow> t \<noteq> [] \<and> list_all raw_char t"
| "json_ok (JArr vs) \<longleftrightarrow> list_all json_ok vs"
| "json_ok (JObj fs) \<longleftrightarrow> list_all (\<lambda>(k, v). list_all jchar_ok k \<and> json_ok v) fs"

lemma jchars_text_simps [simp]:
  "jchars_text [] = []"
  "jchars_text (Plain c # js) = c # jchars_text js"
  "jchars_text (Esc c # js) = CHR 0x5C # c # jchars_text js"
  by (simp_all add: jchars_text_def)

subsection \<open>Strings\<close>

lemma skipString_loop_text:
  "list_all jchar_ok js \<Longrightarrow>
     btcc_skipString_loop (pre @ jchars_text js @ CHR 0x22 # rest) (length pre)
       = length pre + length (jchars_text js) + 1"
proof (induction js arbitrary: pre)
  case Nil
  then show ?case by (simp add: btcc_skipString_loop.simps [of _ "length pre"] nth_append)
next
  case (Cons j js)
  show ?case
  proof (cases j)
    case (Plain c)
    then show ?thesis using Cons.IH [of "pre @ [c]"] Cons.prems
      by (simp add: btcc_skipString_loop.simps [of _ "length pre"] nth_append)
  next
    case (Esc c)
    then show ?thesis using Cons.IH [of "pre @ [CHR 0x5C, c]"] Cons.prems
      by (simp add: btcc_skipString_loop.simps [of _ "length pre"] nth_append)
  qed
qed

lemma skipString_text:
  "list_all jchar_ok js \<Longrightarrow>
     btcc_skipString (pre @ jstring js @ rest) (length pre) = length pre + length (jstring js)"
  using skipString_loop_text [of js "pre @ [CHR 0x22]" rest]
  by (simp add: btcc_skipString_def jstring_def)

subsection \<open>Brackets\<close>

text \<open>
  \<open>skipObject\<close> and \<open>skipArray\<close> are one loop with different brackets. A text is balanced for a
  pair of brackets when these only occur nested or inside strings.
\<close>

function nest_loop :: "char \<Rightarrow> char \<Rightarrow> string \<Rightarrow> nat \<Rightarrow> int \<Rightarrow> nat" where
  "nest_loop op cl payload i depth =
     (if i < length payload then
        if payload ! i = op then nest_loop op cl payload (i + 1) (depth + 1)
        else if payload ! i = cl then
          (if depth - 1 = 0 then i + 1 else nest_loop op cl payload (i + 1) (depth - 1))
        else if payload ! i = CHR 0x22 then nest_loop op cl payload (btcc_skipString payload i) depth
        else nest_loop op cl payload (i + 1) depth
      else i)"
  by pat_completeness auto
termination
proof (relation "measure (\<lambda>(op, cl, payload, i, depth). length payload - i)", goal_cases)
  case (4 op cl payload i depth)
  then show ?case using btcc_skipString_gt [of i payload] by auto
qed auto

declare nest_loop.simps [simp del]

lemma skipObject_nest: "btcc_skipObject_loop p i d = nest_loop (CHR ''{'') (CHR ''}'') p i d"
proof (induction p i d rule: btcc_skipObject_loop.induct)
  case (1 p i d)
  then show ?case using btcc_skipString_gt [of i p]
    by (subst btcc_skipObject_loop.simps, subst nest_loop.simps) (simp add: Let_def)
qed

lemma skipArray_nest: "btcc_skipArray_loop p i d = nest_loop (CHR ''['') (CHR '']'') p i d"
proof (induction p i d rule: btcc_skipArray_loop.induct)
  case (1 p i d)
  then show ?case using btcc_skipString_gt [of i p]
    by (subst btcc_skipArray_loop.simps, subst nest_loop.simps) (simp add: Let_def)
qed

inductive balanced :: "char \<Rightarrow> char \<Rightarrow> string \<Rightarrow> bool" for op cl where
  bal_Nil: "balanced op cl []"
| bal_char: "c \<noteq> op \<Longrightarrow> c \<noteq> cl \<Longrightarrow> c \<noteq> CHR 0x22 \<Longrightarrow> balanced op cl s \<Longrightarrow> balanced op cl (c # s)"
| bal_string: "list_all jchar_ok js \<Longrightarrow> balanced op cl s \<Longrightarrow> balanced op cl (jstring js @ s)"
| bal_nest: "balanced op cl a \<Longrightarrow> balanced op cl s \<Longrightarrow> balanced op cl (op # a @ cl # s)"

definition brackets :: "char \<Rightarrow> char \<Rightarrow> bool" where
  "brackets op cl \<longleftrightarrow> (op, cl) \<in> {(CHR ''{'', CHR ''}''), (CHR ''['', CHR '']'')}"

lemma brackets_ne:
  "brackets op cl \<Longrightarrow> op \<noteq> cl \<and> cl \<noteq> op \<and> op \<noteq> CHR 0x22 \<and> cl \<noteq> CHR 0x22
     \<and> CHR 0x22 \<noteq> op \<and> CHR 0x22 \<noteq> cl"
  by (auto simp: brackets_def)

lemma nest_loop_balanced:
  assumes "balanced op cl s" "brackets op cl" "1 \<le> d"
  shows "nest_loop op cl (pre @ s @ rest) (length pre) d
       = nest_loop op cl (pre @ s @ rest) (length pre + length s) d"
  using assms
proof (induction arbitrary: pre rest d)
  case bal_Nil
  then show ?case by simp
next
  case (bal_char c s)
  then show ?case using bal_char.IH [of d "pre @ [c]" rest]
    by (subst nest_loop.simps) (simp add: nth_append)
next
  case (bal_string js s)
  have "btcc_skipString (pre @ (jstring js @ s) @ rest) (length pre) = length pre + length (jstring js)"
    using skipString_text [OF bal_string(1), of pre "s @ rest"] by simp
  moreover have "(pre @ (jstring js @ s) @ rest) ! length pre = CHR 0x22" by (simp add: nth_append jstring_def)
  moreover have "length pre < length (pre @ (jstring js @ s) @ rest)" by (simp add: jstring_def)
  ultimately have "nest_loop op cl (pre @ (jstring js @ s) @ rest) (length pre) d
      = nest_loop op cl (pre @ (jstring js @ s) @ rest) (length pre + length (jstring js)) d"
    using brackets_ne [OF bal_string(4)] by (subst nest_loop.simps) simp
  then show ?case using bal_string.IH [OF bal_string(4,5), of "pre @ jstring js" rest] by (simp add: add.assoc)
next
  case (bal_nest a s)
  let ?p = "pre @ (op # a @ cl # s) @ rest"
  have ne: "op \<noteq> cl" using brackets_ne [OF bal_nest(5)] by simp
  have "nest_loop op cl ?p (length pre) d = nest_loop op cl ?p (length pre + 1) (d + 1)"
    by (subst nest_loop.simps) (simp add: nth_append)
  also have "\<dots> = nest_loop op cl ?p (length pre + 1 + length a) (d + 1)"
    using bal_nest.IH(1) [of "d + 1" "pre @ [op]" "cl # s @ rest"] bal_nest.prems by simp
  also have "\<dots> = nest_loop op cl ?p (length pre + 1 + length a + 1) d"
    using ne bal_nest.prems by (subst nest_loop.simps) (simp add: nth_append)
  also have "\<dots> = nest_loop op cl ?p (length pre + length (op # a @ cl # s)) d"
    using bal_nest.IH(2) [of d "pre @ op # a @ [cl]" rest] bal_nest.prems by (simp add: add_ac)
  finally show ?case .
qed

lemma nest_loop_value:
  assumes "balanced op cl s" "brackets op cl"
  shows "nest_loop op cl (pre @ (op # s @ [cl]) @ rest) (length pre) 0 = length pre + length (op # s @ [cl])"
proof -
  let ?p = "pre @ (op # s @ [cl]) @ rest"
  have "nest_loop op cl ?p (length pre) 0 = nest_loop op cl ?p (length pre + 1) 1"
    by (subst nest_loop.simps) (simp add: nth_append)
  also have "\<dots> = nest_loop op cl ?p (length pre + 1 + length s) 1"
    using nest_loop_balanced [OF assms, of 1 "pre @ [op]" "cl # rest"] by simp
  also have "\<dots> = length pre + length (op # s @ [cl])"
    using brackets_ne [OF assms(2)] by (subst nest_loop.simps) (simp add: nth_append)
  finally show ?thesis .
qed

subsection \<open>Every rendered value is balanced, for both pairs of brackets\<close>

lemma balanced_append: "balanced op cl a \<Longrightarrow> balanced op cl b \<Longrightarrow> balanced op cl (a @ b)"
  by (induction rule: balanced.induct) (auto intro: balanced.intros)

lemma balanced_chars:
  "list_all (\<lambda>c. c \<noteq> op \<and> c \<noteq> cl \<and> c \<noteq> CHR 0x22) s \<Longrightarrow> balanced op cl s"
  by (induction s) (auto intro: balanced.intros)

lemma balanced_commas:
  "brackets op cl \<Longrightarrow> list_all (balanced op cl) xs \<Longrightarrow> balanced op cl (commas xs)"
proof (induction xs rule: commas.induct)
  case (3 x y r)
  then have "balanced op cl (CHR '','' # commas (y # r))"
    by (intro bal_char) (auto simp: brackets_def)
  with 3 show ?case by (simp add: balanced_append)
qed (auto intro: bal_Nil)

lemma balanced_jstring: "list_all jchar_ok js \<Longrightarrow> balanced op cl (jstring js)"
  using bal_string [OF _ bal_Nil, of js op cl] by simp

text \<open>A bracketed text is balanced for its own pair by nesting, for the other pair by its characters.\<close>

lemma balanced_bracketed:
  assumes "brackets op cl" "brackets o' c'" "balanced op cl s"
  shows "balanced op cl (o' # s @ [c'])"
proof (cases "op = o'")
  case True
  with assms have "c' = cl" by (auto simp: brackets_def)
  with True assms show ?thesis using bal_nest [OF assms(3) bal_Nil] by simp
next
  case False
  with assms have ne: "o' \<noteq> op" "o' \<noteq> cl" "o' \<noteq> CHR 0x22" "c' \<noteq> op" "c' \<noteq> cl" "c' \<noteq> CHR 0x22"
    by (auto simp: brackets_def)
  then have "balanced op cl [c']" by (intro bal_char bal_Nil)
  with assms(3) have "balanced op cl (s @ [c'])" by (rule balanced_append)
  with ne show ?thesis by (intro bal_char)
qed

lemma brackets_known: "brackets (CHR ''{'') (CHR ''}'')" "brackets (CHR ''['') (CHR '']'')"
  by (simp_all add: brackets_def)

lemma balanced_render: "brackets op cl \<Longrightarrow> json_ok v \<Longrightarrow> balanced op cl (render v)"
proof (induction v)
  case (JStr js)
  then show ?case by (simp add: balanced_jstring)
next
  case (JRaw t)
  then have "list_all (\<lambda>c. c \<noteq> op \<and> c \<noteq> cl \<and> c \<noteq> CHR 0x22) t"
    by (auto simp: raw_char_def brackets_def list_all_iff)
  then show ?case by (simp add: balanced_chars)
next
  case (JArr vs)
  then have "balanced op cl (commas (map render vs))"
    by (intro balanced_commas) (auto simp: list_all_iff)
  then show ?case using JArr.prems brackets_known by (simp add: balanced_bracketed)
next
  case (JObj fs)
  have "balanced op cl (jstring k @ CHR '':'' # render v)" if "(k, v) \<in> set fs" for k v
  proof -
    have "balanced op cl (render v)" "list_all jchar_ok k"
      using JObj that by (auto simp: list_all_iff)
    then have "balanced op cl (CHR '':'' # render v)"
      using JObj.prems(1) by (intro bal_char) (auto simp: brackets_def)
    with \<open>list_all jchar_ok k\<close> show ?thesis by (simp add: balanced_append balanced_jstring)
  qed
  then have "balanced op cl (commas (map (\<lambda>(k, v). jstring k @ CHR '':'' # render v) fs))"
    using JObj.prems(1) by (intro balanced_commas) (auto simp: list_all_iff)
  then show ?case using JObj.prems brackets_known by (simp add: balanced_bracketed)
qed

subsection \<open>skipValue and the params array\<close>

lemma render_ne [simp]: "json_ok v \<Longrightarrow> render v \<noteq> []"
  by (cases v) (simp_all add: jstring_def)

lemma render_hd: "json_ok v \<Longrightarrow> \<not> is_space (hd (render v)) \<and> hd (render v) \<noteq> CHR '','' \<and> hd (render v) \<noteq> CHR '']''"
  by (cases v) (auto simp: jstring_def is_space_def raw_char_def list_all_iff neq_Nil_conv)

definition value_end :: "string \<Rightarrow> bool" where
  "value_end rest \<longleftrightarrow> rest \<noteq> [] \<and> hd rest \<in> {CHR '','', CHR '']'', CHR ''}''}"

lemma skipValue_render:
  assumes "json_ok v" "value_end rest"
  shows "btcc_skipValue (pre @ render v @ rest) (length pre) = length pre + length (render v)"
proof -
  let ?p = "pre @ render v @ rest"
  have ne: "render v \<noteq> []" using assms(1) by simp
  have hd: "?p ! length pre = hd (render v)" using ne by (simp add: nth_append hd_conv_nth)
  have len: "\<not> length ?p \<le> length pre" using ne by simp
  have sp: "btcc_skipSpaces ?p (length pre) = length pre"
    using render_hd [OF assms(1)] hd by (simp add: btcc_skipSpaces_def skip_while.simps [of _ ?p])
  have nest: "nest_loop op cl (pre @ (op # s @ [cl]) @ rest) (length pre) 0 = length pre + length (op # s @ [cl])"
    if "brackets op cl" "balanced op cl s" for op cl s by (rule nest_loop_value) (rule that)+
  note skip = btcc_skipValue_def sp Let_def hd
  show ?thesis
  proof (cases v)
    case (JStr js)
    then have "hd (render v) = CHR 0x22" by (simp add: jstring_def)
    moreover have "btcc_skipString ?p (length pre) = length pre + length (render v)"
      using JStr assms(1) skipString_text [of js pre rest] by simp
    ultimately show ?thesis using len by (simp only: skip if_True if_False simp_thms)
  next
    case (JRaw t)
    have h: "hd t \<noteq> CHR 0x22" "hd t \<noteq> CHR ''{''" "hd t \<noteq> CHR ''[''"
      using JRaw assms(1) by (auto simp: raw_char_def list_all_iff neq_Nil_conv)
    let ?P = "\<lambda>c. \<not> (c = CHR '','' \<or> c = CHR '']'' \<or> c = CHR ''}'')"
    have "\<And>c. c \<in> set t \<Longrightarrow> ?P c" using JRaw assms(1) by (auto simp: raw_char_def list_all_iff)
    then have "takeWhile ?P (t @ rest) = t @ takeWhile ?P rest" by (rule takeWhile_append2)
    moreover have "takeWhile ?P rest = []" using assms(2) by (cases rest) (auto simp: value_end_def)
    ultimately have "takeWhile ?P (t @ rest) = t" by simp
    then have "skip_while ?P ?p (length pre) = length pre + length (render v)"
      using skip_while_append [of ?P pre "t @ rest"] JRaw by simp
    moreover have "hd (render v) = hd t" using JRaw by simp
    ultimately show ?thesis using len h by (simp only: skip if_False)
  next
    case (JArr vs)
    have "balanced (CHR ''['') (CHR '']'') (commas (map render vs))"
      using JArr assms(1) by (intro balanced_commas) (auto simp: list_all_iff brackets_known balanced_render)
    from nest [OF brackets_known(2) this]
    have "btcc_skipArray ?p (length pre) = length pre + length (render v)"
      by (simp add: JArr btcc_skipArray_def skipArray_nest)
    moreover have "hd (render v) = CHR ''[''" using JArr by simp
    ultimately show ?thesis using len by (simp only: skip if_False if_True) simp
  next
    case (JObj fs)
    define body where "body = commas (map (\<lambda>(k, v). jstring k @ CHR '':'' # render v) fs)"
    have "balanced (CHR ''{'') (CHR ''}'') (render v)"
      by (rule balanced_render [OF brackets_known(1) assms(1)])
    have b: "balanced (CHR ''{'') (CHR ''}'') body"
      unfolding body_def
    proof (intro balanced_commas brackets_known)
      show "list_all (balanced (CHR ''{'') (CHR ''}'')) (map (\<lambda>(k, v). jstring k @ CHR '':'' # render v) fs)"
        using JObj assms(1)
        by (auto simp: list_all_iff brackets_known intro!: balanced_append balanced_jstring bal_char balanced_render)
    qed
    have r: "render v = CHR ''{'' # body @ [CHR ''}'']" by (simp add: JObj body_def)
    from nest [OF brackets_known(1) b]
    have "btcc_skipObject ?p (length pre) = length pre + length (render v)"
      by (simp add: r btcc_skipObject_def skipObject_nest)
    moreover have "hd (render v) = CHR ''{''" by (simp add: r)
    ultimately show ?thesis using len by (simp only: skip if_False if_True) simp
  qed
qed

lemma go_slice_inner:
  "go_slice (pre @ v @ rest) spare (length pre) (length pre + length v) = Ret v"
  by (simp add: go_slice_def slice_def)

lemma btcc_skip_sep:
  assumes "elem_sep sep" "rest \<noteq> []" "\<not> is_space (hd rest)" "hd rest \<noteq> CHR '',''"
  shows "skip_while (\<lambda>c. btcc_isSpace c \<or> c = CHR '','') (pre @ sep @ rest) (length pre) = length pre + length sep"
  unfolding btcc_isSpace_eq by (rule skip_sep) (rule assms)+

lemma params_loop_render:
  assumes "list_all json_ok vs" "elem_sep sep"
  shows "btcc_params_loop (pre @ sep @ commas (map render vs) @ CHR '']'' # post) spare (idx + int k) (length pre) idx
    = Ret (if k < length vs then Some (render (vs ! k)) else None)"
  using assms
proof (induction vs arbitrary: pre sep idx k)
  case Nil
  then have "skip_while (\<lambda>c. btcc_isSpace c \<or> c = CHR '','') (pre @ sep @ CHR '']'' # post) (length pre) = length pre + length sep"
    by (intro btcc_skip_sep) (simp_all add: is_space_def)
  then show ?case by (subst btcc_params_loop.simps) (simp add: Let_def nth_append)
next
  case (Cons v vs)
  define rest where "rest = (if vs = [] then [] else CHR '','' # commas (map render vs)) @ CHR '']'' # post"
  define p where "p = pre @ sep @ render v @ rest"
  let ?i = "length pre + length sep"
  have v: "json_ok v" "render v \<noteq> []" using Cons.prems by simp_all
  have p: "pre @ sep @ commas (map render (v # vs)) @ CHR '']'' # post = p"
    by (simp add: p_def rest_def commas_Cons)
  have i: "skip_while (\<lambda>c. btcc_isSpace c \<or> c = CHR '','') p (length pre) = ?i"
    unfolding p_def using Cons.prems(2) v render_hd [OF v(1)] by (intro btcc_skip_sep) simp_all
  have at: "p ! ?i = hd (render v)" "\<not> length p \<le> ?i" "length pre < length p"
    using v(2) by (simp_all add: p_def nth_append hd_conv_nth)
  have "value_end rest" by (simp add: value_end_def rest_def)
  then have e: "btcc_skipValue p ?i = ?i + length (render v)"
    using skipValue_render [OF v(1), of rest "pre @ sep"] by (simp add: p_def)
  have sl: "go_slice p spare ?i (?i + length (render v)) = Ret (render v)"
    using go_slice_inner [of "pre @ sep" "render v" rest] by (simp add: p_def)
  have step: "btcc_params_loop p spare (idx + int k) (length pre) idx =
      (if k = 0 then Ret (Some (render v))
       else btcc_params_loop p spare (idx + int k) (?i + length (render v)) (idx + 1))"
    using at render_hd [OF v(1)] v(2) by (subst btcc_params_loop.simps, unfold i Let_def) (simp add: e sl)
  show ?case
  proof (cases k)
    case 0
    then show ?thesis unfolding p step by simp
  next
    case (Suc k')
    let ?sep = "if vs = [] then [] else [CHR '','']"
    have "btcc_params_loop ((pre @ sep @ render v) @ ?sep @ commas (map render vs) @ CHR '']'' # post) spare
        (idx + 1 + int k') (length (pre @ sep @ render v)) (idx + 1)
      = Ret (if k' < length vs then Some (render (vs ! k')) else None)"
      using Cons.prems(1) by (intro Cons.IH) (simp_all add: elem_sep_def)
    moreover have "(pre @ sep @ render v) @ ?sep @ commas (map render vs) @ CHR '']'' # post = p"
      by (simp add: p_def rest_def)
    ultimately show ?thesis unfolding p step using Suc by (simp add: add_ac)
  qed
qed

text \<open>The position of a key, as in the shared scanner.\<close>

lemma btcc_indexOfFrom_0: "btcc_indexOfFrom p key 0 = IndexOf p key"
  by (auto simp: btcc_indexOfFrom_def IndexOf_def)

lemma scanParamsValue_render:
  assumes "p = pre @ quoted_key ''params'' @ '':['' @ commas (map render vs) @ CHR '']'' # post"
    and "first_at p (quoted_key ''params'') pre" and "list_all json_ok vs"
  shows "btcc_scanParamsValue p spare (int k) =
    Ret (if k < length vs then Some (render (vs ! k)) else None)"
proof -
  define rest where "rest = CHR ''['' # commas (map render vs) @ CHR '']'' # post"
  define q where "q = pre @ quoted_key ''params'' @ '':''"
  have key: "[CHR 0x22] @ ''params'' @ [CHR 0x22] = quoted_key ''params''" by (simp add: quoted_key_def)
  obtain i where i: "IndexOf p (quoted_key ''params'') = int (length pre)"
      "after_colon p (length pre + length (quoted_key ''params'')) = Some i" "i < length p" "drop i p = rest"
    by (rule field_built [of "quoted_key ''params''" p pre "[]" "[]" rest])
      (use assms in \<open>simp_all add: quoted_key_def rest_def is_space_def\<close>)
  have "length rest = length p - i" using i(4) by (simp flip: i(4))
  moreover have "length p = length q + length rest" by (simp add: assms(1) q_def rest_def)
  ultimately have iq: "i = length q" using i(3) by linarith
  have p: "p = (q @ [CHR ''['']) @ [] @ commas (map render vs) @ CHR '']'' # post"
    by (simp add: assms(1) q_def)
  have loop: "btcc_params_loop p spare (int k) (i + 1) 0
      = Ret (if k < length vs then Some (render (vs ! k)) else None)"
    using params_loop_render [OF assms(3), of "[]" "q @ [CHR ''['']" post spare 0 k]
    by (simp add: elem_sep_def iq flip: p [simplified])
  have "p ! i = CHR ''[''" using i(3,4) by (simp add: nth_drop_hd rest_def)
  then show ?thesis
    unfolding btcc_scanParamsValue_def Let_def key btcc_indexOfFrom_0 i(1) nat_int
    using i(2,3) loop by simp
qed

end
