(* ===== verification/Binance_Decimal.thy ===== *)
theory Binance_Decimal
  imports Btcc_Decimal
begin

section \<open>Reading and subtracting decimals (Binance)\<close>

text \<open>
  The copies of \<open>parseDecimal\<close>, \<open>decimalSub\<close> and \<open>rescaleDecimal\<close> in
  \<open>bundle/internal/ingest/binance/payload.go\<close>. They are translated on their own, shown equal to
  the BTCC copies up to the error value, and given the same two contracts, so that every lemma of
  \<open>decimal_reader\<close> and \<open>decimal_subtraction\<close> holds for both packages.
\<close>

datatype binance_error = Binance_ErrInvalidPayload | Binance_ErrInvalidRequest

fun binance_parse_loop ::
  "string \<Rightarrow> int \<Rightarrow> int \<Rightarrow> nat \<Rightarrow> bool \<Rightarrow> binance_error + (int \<times> int \<times> nat)" where
  "binance_parse_loop [] intPart fracPart scale seenDot = Inr (intPart, fracPart, scale)"
| "binance_parse_loop (c # cs) intPart fracPart scale seenDot =
     (if c = CHR ''.'' then
        (if seenDot then Inl Binance_ErrInvalidPayload else binance_parse_loop cs intPart fracPart scale True)
      else if \<not> is_digit c then Inl Binance_ErrInvalidPayload
      else
        let digit = int (digit_val c) in
        if \<not> seenDot then
          (if go_div (maxInt64 - digit) 10 < intPart then Inl Binance_ErrInvalidPayload
           else binance_parse_loop cs (wrap64 (intPart * 10 + digit)) fracPart scale seenDot)
        else
          (if go_div (maxInt64 - digit) 10 < fracPart then Inl Binance_ErrInvalidPayload
           else binance_parse_loop cs intPart (wrap64 (fracPart * 10 + digit)) (scale + 1) seenDot))"

fun binance_mul_loop :: "nat \<Rightarrow> int \<Rightarrow> int option" where
  "binance_mul_loop 0 mul = Some mul"
| "binance_mul_loop (Suc n) mul =
     (if go_div maxInt64 10 < mul then None else binance_mul_loop n (wrap64 (mul * 10)))"

definition binance_parseDecimal :: "string \<Rightarrow> binance_error + Decimal" where
  "binance_parseDecimal src =
     (if length src = 0 then Inl Binance_ErrInvalidPayload
      else
        let neg = (src ! 0 = CHR ''-'');
            i = (if neg then 1 else 0)
        in case binance_parse_loop (drop i src) 0 0 0 False of
             Inl e \<Rightarrow> Inl e
           | Inr (intPart, fracPart, scale) \<Rightarrow>
               (let value =
                  (if 0 < scale then
                     (case binance_mul_loop scale 1 of
                        None \<Rightarrow> Inl Binance_ErrInvalidPayload
                      | Some mul \<Rightarrow>
                          if go_div maxInt64 mul < intPart then Inl Binance_ErrInvalidPayload
                          else Inr (wrap64 (wrap64 (intPart * mul) + fracPart)))
                   else Inr intPart)
                in case value of
                     Inl e \<Rightarrow> Inl e
                   | Inr v \<Rightarrow> Inr \<lparr>Integer = (if neg then wrap64 (- v) else v), Scale = int scale\<rparr>))"

definition binance_rescaleDecimal :: "Decimal \<Rightarrow> int \<Rightarrow> int option" where
  "binance_rescaleDecimal d scale =
     (if scale < Scale d then None
      else case binance_mul_loop (nat (wrap64 (scale - Scale d))) 1 of
        None \<Rightarrow> None
      | Some mul \<Rightarrow>
          if go_div maxInt64 mul < Integer d \<or> Integer d < go_div (- maxInt64) mul then None
          else Some (wrap64 (Integer d * mul)))"

definition binance_decimalSub :: "Decimal \<Rightarrow> Decimal \<Rightarrow> Decimal" where
  "binance_decimalSub a b =
     (let scale = (if Scale a < Scale b then Scale b else Scale a) in
      case binance_rescaleDecimal a scale of
        None \<Rightarrow> \<lparr>Integer = 0, Scale = scale\<rparr>
      | Some ai \<Rightarrow>
          (case binance_rescaleDecimal b scale of
             None \<Rightarrow> \<lparr>Integer = 0, Scale = scale\<rparr>
           | Some bi \<Rightarrow> \<lparr>Integer = wrap64 (ai - bi), Scale = scale\<rparr>))"

subsection \<open>The two packages read alike\<close>

lemma binance_parse_loop_eq:
  "binance_parse_loop cs v f s b = map_sum (\<lambda>_. Binance_ErrInvalidPayload) id (btcc_parse_loop cs v f s b)"
  by (induction cs arbitrary: v f s b) (simp_all add: Let_def)

lemma binance_mul_loop_eq: "binance_mul_loop n m = btcc_mul_loop n m"
  by (induction n arbitrary: m) simp_all

lemma binance_parseDecimal_eq:
  "binance_parseDecimal src = map_sum (\<lambda>_. Binance_ErrInvalidPayload) id (btcc_parseDecimal src)"
proof (cases "btcc_parse_loop (drop (if src ! 0 = CHR ''-'' then 1 else 0) src) 0 0 0 False")
  case (Inl e)
  then show ?thesis
    by (simp add: binance_parseDecimal_def btcc_parseDecimal_def Let_def binance_parse_loop_eq)
next
  case (Inr r)
  obtain v f s where "r = (v, f, s)" by (cases r)
  with Inr show ?thesis
    by (cases "btcc_mul_loop s 1"; cases "s = 0"; cases "go_div maxInt64 (the (btcc_mul_loop s 1)) < v")
      (simp_all add: binance_parseDecimal_def btcc_parseDecimal_def Let_def binance_parse_loop_eq binance_mul_loop_eq
        del: One_nat_def)
qed

lemma binance_rescaleDecimal_eq: "binance_rescaleDecimal = btcc_rescaleDecimal"
  by (simp only: fun_eq_iff binance_rescaleDecimal_def btcc_rescaleDecimal_def binance_mul_loop_eq) simp

lemma binance_decimalSub_eq: "binance_decimalSub = btcc_decimalSub"
  by (simp only: fun_eq_iff binance_decimalSub_def btcc_decimalSub_def binance_rescaleDecimal_eq) simp

interpretation binance_reader: decimal_reader binance_parseDecimal Binance_ErrInvalidPayload
proof
  fix sg ip dot fp
  assume "sign_ok sg" "dec_parts ip dot fp" "sg @ dec_body ip dot fp \<noteq> []"
  then show "binance_parseDecimal (sg @ dec_body ip dot fp)
      = (if dec_fits ip fp then Inr (dec_value sg ip fp) else Inl Binance_ErrInvalidPayload)"
    using btcc_parse_body [of sg ip dot fp] by (simp add: binance_parseDecimal_eq del: append_is_Nil_conv)
next
  fix src d
  assume "binance_parseDecimal src = Inr d"
  then have "btcc_parseDecimal src = Inr d"
    by (cases "btcc_parseDecimal src") (simp_all add: binance_parseDecimal_eq)
  then show "src \<noteq> [] \<and> (\<exists>sg ip dot fp. sign_ok sg \<and> dec_parts ip dot fp \<and> src = sg @ dec_body ip dot fp)"
    by (rule btcc_parse_accepts)
qed

interpretation binance_sub: decimal_subtraction binance_rescaleDecimal binance_decimalSub
  unfolding binance_rescaleDecimal_eq binance_decimalSub_eq by (rule btcc_sub.decimal_subtraction_axioms)

end
