(* ===== verification/Depth_Rows.thy ===== *)
theory Depth_Rows
  imports Binance_Decimal Scan_Lib
begin

section \<open>Depth rows: the contract of a row scanner\<close>

text \<open>
  Both exchange packages read the sides of an order book with a loop over the rows of a JSON
  array, into the caller's array. The interface \<open>depth_rows\<close> says what one round must do with a
  row it can read; the lemma proved inside it is that the rows are then stored in order, as many
  as the array holds.
\<close>

definition dec_ok :: "Decimal \<Rightarrow> bool" where
  "dec_ok d \<longleftrightarrow> 0 \<le> Scale d \<and> Scale d \<le> 18 \<and> \<bar>Integer d\<bar> \<le> maxInt64"

definition dec_text :: "Decimal \<Rightarrow> string" where
  "dec_text d = Decimal_AppendBytes d []"

definition jquote :: "string \<Rightarrow> string" where
  "jquote s = CHR 0x22 # s @ [CHR 0x22]"

definition mk_row :: "Decimal \<times> Decimal \<Rightarrow> DepthRow" where
  "mk_row r = \<lparr>Price = fst r, Quantity = snd r\<rparr>"

definition row_ok :: "Decimal \<times> Decimal \<Rightarrow> bool" where
  "row_ok r \<longleftrightarrow> dec_ok (fst r) \<and> dec_ok (snd r)"

text \<open>The rows from position \<open>count\<close> on are replaced, up to the end of the array.\<close>

definition store_rows :: "DepthRow list \<Rightarrow> nat \<Rightarrow> (Decimal \<times> Decimal) list \<Rightarrow> DepthRow list" where
  "store_rows rows count ds =
     take count rows @ map mk_row (take (length rows - count) ds) @ drop (count + length ds) rows"

lemma store_rows_Nil [simp]: "store_rows rows count [] = rows"
  by (simp add: store_rows_def)

lemma store_rows_full: "length rows \<le> count \<Longrightarrow> store_rows rows count ds = rows"
  by (simp add: store_rows_def)

lemma store_rows_Cons:
  "count < length rows \<Longrightarrow> store_rows (rows[count := mk_row d]) (count + 1) ds = store_rows rows count (d # ds)"
  by (simp add: store_rows_def take_Suc_conv_app_nth Suc_diff_Suc [symmetric])

lemma length_store_rows: "count \<le> length rows \<Longrightarrow> length (store_rows rows count ds) = length rows"
  by (simp add: store_rows_def min_def)

lemma dec_text_chars:
  assumes "dec_ok d"
  shows "dec_text d \<noteq> []" "\<forall>c \<in> set (dec_text d). is_digit c \<or> c = CHR ''-'' \<or> c = CHR ''.''"
proof -
  have i: "in_int64 (Integer d)" using assms by (auto simp: dec_ok_def in_int64_def maxInt64_def abs_le_iff)
  have "dec_text d \<noteq> [] \<and> (\<forall>c \<in> set (dec_text d). is_digit c \<or> c = CHR ''-'' \<or> c = CHR ''.'')"
  proof (cases "Scale d \<le> 0")
    case True
    then show ?thesis using dec_nat_digits
      by (auto simp: dec_text_def Decimal_AppendBytes_def appendScaledInt_unscaled sign_text_def)
  next
    case False
    then have "0 < Scale d" by simp
    then obtain ip fp where "dec_text d = sign_text (Integer d) @ ip @ [CHR ''.''] @ fp"
      "ip \<noteq> []" "\<forall>c \<in> set ip. is_digit c" "\<forall>c \<in> set fp. is_digit c"
      unfolding dec_text_def Decimal_AppendBytes_def by (rule appendScaledInt_shape [OF i])
    moreover have "\<forall>c \<in> set (sign_text (Integer d)). c = CHR ''-''" by (simp add: sign_text_def)
    ultimately show ?thesis by (simp add: ball_Un)
  qed
  then show "dec_text d \<noteq> []" "\<forall>c \<in> set (dec_text d). is_digit c \<or> c = CHR ''-'' \<or> c = CHR ''.''" by simp_all
qed

lemma dec_text_no_quote: "dec_ok d \<Longrightarrow> CHR 0x22 \<notin> set (dec_text d)"
  using dec_text_chars(2) [of d] is_digit_ne by fastforce

lemma btcc_parse_dec_text: "dec_ok d \<Longrightarrow> btcc_parseDecimal (dec_text d) = Inr d"
  unfolding dec_text_def dec_ok_def by (rule btcc_reader.parse_append) simp_all

lemma binance_parse_dec_text: "dec_ok d \<Longrightarrow> binance_parseDecimal (dec_text d) = Inr d"
  unfolding dec_text_def dec_ok_def by (rule binance_reader.parse_append) simp_all

definition rows_ok :: "nat \<Rightarrow> DepthRow list \<times> nat \<times> bool \<Rightarrow> bool" where
  "rows_ok n r \<longleftrightarrow> length (fst r) = n \<and> list_all wf_DepthRow (fst r) \<and> fst (snd r) \<le> n"

locale depth_rows =
  fixes loop :: "string \<Rightarrow> nat \<Rightarrow> nat \<Rightarrow> DepthRow list \<Rightarrow> DepthRow list \<times> nat \<times> bool"
    and row_text :: "Decimal \<times> Decimal \<Rightarrow> string"
  assumes loop_row: "elem_sep sep \<Longrightarrow> row_ok d \<Longrightarrow> count < length rows \<Longrightarrow>
      loop (pre @ sep @ row_text d @ rest) (length pre) count rows =
      loop (pre @ sep @ row_text d @ rest) (length (pre @ sep @ row_text d)) (count + 1) (rows[count := mk_row d])"
    and loop_end: "elem_sep sep \<Longrightarrow> loop (pre @ sep @ CHR '']'' # rest) (length pre) count rows = (rows, count, True)"
    and loop_full: "length rows \<le> count \<Longrightarrow> loop payload i count rows = (rows, count, True)"
begin

lemma loop_rows:
  assumes "elem_sep sep" "list_all row_ok ds" "count \<le> length rows"
  shows "loop (pre @ sep @ commas (map row_text ds) @ CHR '']'' # post) (length pre) count rows
    = (store_rows rows count ds, min (count + length ds) (length rows), True)"
  using assms
proof (induction ds arbitrary: pre sep count rows)
  case Nil
  then show ?case by (simp add: loop_end min_absorb1)
next
  case (Cons d ds)
  show ?case
  proof (cases "count < length rows")
    case False
    then show ?thesis using Cons.prems(3) by (simp add: loop_full store_rows_full)
  next
    case True
    define rest where "rest = (if ds = [] then [] else CHR '','' # commas (map row_text ds)) @ CHR '']'' # post"
    let ?sep = "if ds = [] then [] else [CHR '','']"
    have p: "pre @ sep @ commas (map row_text (d # ds)) @ CHR '']'' # post = pre @ sep @ row_text d @ rest"
      by (simp add: rest_def commas_Cons)
    have q: "pre @ sep @ row_text d @ rest
        = (pre @ sep @ row_text d) @ ?sep @ commas (map row_text ds) @ CHR '']'' # post"
      by (simp add: rest_def)
    have "loop (pre @ sep @ row_text d @ rest) (length (pre @ sep @ row_text d)) (count + 1) (rows[count := mk_row d])
        = (store_rows (rows[count := mk_row d]) (count + 1) ds, min (count + 1 + length ds) (length rows), True)"
      unfolding q using Cons.IH [of ?sep "count + 1" "rows[count := mk_row d]" "pre @ sep @ row_text d"] Cons.prems True
      by (simp add: elem_sep_def)
    moreover have "row_ok d" "elem_sep sep" using Cons.prems by simp_all
    ultimately show ?thesis unfolding p using True store_rows_Cons [OF True, of d ds]
      by (simp add: loop_row)
  qed
qed

end

end
