(* ===== verification/Btcc_Laws.thy ===== *)
theory Btcc_Laws
  imports Btcc_Json Depth_Rows
begin

section \<open>BTCC: depth rows, registration and routing\<close>

text \<open>
  What the depth scanner does with the rows of a message, the invariant that ties the codec's
  lookup tables to its topics, and the routing of a frame to the topic that was registered.
\<close>

subsection \<open>Depth rows\<close>

text \<open>A price as it stands in a row: quoted text or a bare token.\<close>

definition price_text :: "string \<Rightarrow> string \<Rightarrow> bool" where
  "price_text t v \<longleftrightarrow> t = CHR 0x22 # v @ [CHR 0x22] \<and> CHR 0x22 \<notin> set v
     \<or> t = v \<and> v \<noteq> [] \<and> list_all raw_char v"

lemma price_text_hd: "price_text t v \<Longrightarrow> t \<noteq> [] \<and> \<not> is_space (hd t)"
  by (cases v) (auto simp: price_text_def is_space_def raw_char_def)

lemma scanNextValue_price:
  assumes "price_text t v" "list_all is_space sp" "rest \<noteq> []" "\<not> raw_char (hd rest)"
    and "hd rest \<in> {CHR '','', CHR '']'', CHR '' ''}"
  shows "btcc_scanNextValue (pre @ sp @ t @ rest) (length pre) = (length (pre @ sp @ t), Some v)"
proof -
  let ?p = "pre @ sp @ t @ rest" and ?i = "length pre + length sp"
  have "takeWhile is_space (sp @ t @ rest) = sp @ takeWhile is_space (t @ rest)"
    by (rule takeWhile_append2) (use assms(2) in \<open>simp add: list_all_iff\<close>)
  moreover have "takeWhile is_space (t @ rest) = []" using price_text_hd [OF assms(1)] by (cases t) auto
  ultimately have "takeWhile is_space (sp @ t @ rest) = sp" by simp
  then have i: "skip_while btcc_isSpace ?p (length pre) = ?i"
    using skip_while_append [of is_space pre "sp @ t @ rest"] by simp
  have at: "?p ! ?i = hd t" "?i < length ?p"
    using price_text_hd [OF assms(1)] by (simp_all add: nth_append hd_conv_nth)
  from assms(1) consider (q) "t = CHR 0x22 # v @ [CHR 0x22]" "CHR 0x22 \<notin> set v"
    | (r) "t = v" "v \<noteq> []" "list_all raw_char v" by (auto simp: price_text_def)
  then show ?thesis
  proof cases
    case q
    let ?P = "\<lambda>c. c \<noteq> CHR 0x22"
    have "takeWhile ?P (v @ CHR 0x22 # rest) = v @ takeWhile ?P (CHR 0x22 # rest)"
      by (rule takeWhile_append2) (use q in auto)
    then have "skip_while ?P ?p (?i + 1) = ?i + 1 + length v"
      using skip_while_append [of ?P "pre @ sp @ [CHR 0x22]" "v @ CHR 0x22 # rest"] q by simp
    moreover have "slice ?p (?i + 1) (?i + 1 + length v) = v" using q by (simp add: slice_def)
    ultimately show ?thesis using at q unfolding btcc_scanNextValue_def i Let_def by simp
  next
    case r
    let ?P = "\<lambda>c. c \<noteq> CHR '','' \<and> c \<noteq> CHR '']'' \<and> \<not> btcc_isSpace c"
    have "takeWhile ?P (v @ rest) = v @ takeWhile ?P rest"
      by (rule takeWhile_append2) (use r in \<open>auto simp: raw_char_def list_all_iff\<close>)
    moreover have "takeWhile ?P rest = []" using assms(3,5) by (cases rest) (auto simp: is_space_def)
    ultimately have j: "skip_while ?P ?p ?i = ?i + length v"
      using skip_while_append [of ?P "pre @ sp" "v @ rest"] r by simp
    have "hd v \<noteq> CHR 0x22" using r by (cases v) (auto simp: raw_char_def)
    moreover have "slice ?p ?i (?i + length v) = v" using r by (simp add: slice_def)
    ultimately show ?thesis using at r unfolding btcc_scanNextValue_def i Let_def j by simp
  qed
qed

text \<open>A second value is not found behind a comma: the scanner skips blanks only.\<close>

lemma scanNextValue_comma:
  assumes "list_all is_space sp"
  shows "btcc_scanNextValue (pre @ sp @ CHR '','' # rest) (length pre) = (length pre + length sp, None)"
proof -
  let ?p = "pre @ sp @ CHR '','' # rest" and ?i = "length pre + length sp"
  have "takeWhile is_space (sp @ CHR '','' # rest) = sp @ takeWhile is_space (CHR '','' # rest)"
    by (rule takeWhile_append2) (use assms in \<open>simp add: list_all_iff\<close>)
  then have i: "skip_while btcc_isSpace ?p (length pre) = ?i"
    using skip_while_append [of is_space pre "sp @ CHR '','' # rest"] by (simp add: is_space_def)
  have "skip_while (\<lambda>c. c \<noteq> CHR '','' \<and> c \<noteq> CHR '']'' \<and> \<not> btcc_isSpace c) ?p ?i = ?i"
    by (subst skip_while.simps) (simp add: nth_append)
  then show ?thesis unfolding btcc_scanNextValue_def i Let_def by (simp add: nth_append)
qed

text \<open>A row \<open>[price,quantity\<close> with a comma between its values ends the scan with a failure.\<close>

lemma rows_loop_comma_row:
  assumes "elem_sep sep" "price_text t v" "list_all is_space sp" "list_all is_space sp'" "count < length rows"
    and "sp' = [] \<or> hd sp' = CHR '' ''"
  shows "btcc_rows_loop (pre @ sep @ CHR ''['' # sp @ t @ sp' @ CHR '','' # rest) (length pre) count rows
    = (rows, count, False)"
proof -
  let ?p = "pre @ sep @ CHR ''['' # sp @ t @ sp' @ CHR '','' # rest" and ?i = "length pre + length sep"
  have i: "skip_while (\<lambda>c. btcc_isSpace c \<or> c = CHR '','') ?p (length pre) = ?i"
    by (rule btcc_skip_sep) (use assms(1) in \<open>simp_all add: is_space_def\<close>)
  have end1: "sp' @ CHR '','' # rest \<noteq> []" "\<not> raw_char (hd (sp' @ CHR '','' # rest))"
    "hd (sp' @ CHR '','' # rest) \<in> {CHR '','', CHR '']'', CHR '' ''}"
    using assms(6) by (auto simp: raw_char_def is_space_def hd_append)
  have first: "btcc_scanNextValue ?p (?i + 1) = (length (pre @ sep @ CHR ''['' # sp @ t), Some v)"
    using scanNextValue_price [OF assms(2,3) end1, of "pre @ sep @ [CHR ''['']"] by simp
  have second: "btcc_scanNextValue ?p (length (pre @ sep @ CHR ''['' # sp @ t))
      = (length (pre @ sep @ CHR ''['' # sp @ t) + length sp', None)"
    using scanNextValue_comma [OF assms(4), of "pre @ sep @ CHR ''['' # sp @ t" rest] by simp
  show ?thesis
    using assms(5) by (subst btcc_rows_loop.simps, unfold i Let_def) (simp add: first [simplified] second [simplified] nth_append)
qed

text \<open>With a blank instead of the comma the rows are read, so the contract of a row scanner holds there.\<close>

definition btcc_row_text :: "Decimal \<times> Decimal \<Rightarrow> string" where
  "btcc_row_text r = CHR ''['' # jquote (dec_text (fst r)) @ CHR '' '' # jquote (dec_text (snd r)) @ [CHR '']'']"

lemma price_text_jquote: "dec_ok d \<Longrightarrow> price_text (jquote (dec_text d)) (dec_text d)"
  by (simp add: price_text_def jquote_def dec_text_no_quote)

lemma btcc_loop_row:
  assumes "elem_sep sep" "row_ok d" "count < length rows"
  shows "btcc_rows_loop (pre @ sep @ btcc_row_text d @ rest) (length pre) count rows =
    btcc_rows_loop (pre @ sep @ btcc_row_text d @ rest) (length (pre @ sep @ btcc_row_text d)) (count + 1)
      (rows[count := mk_row d])"
proof -
  define t where "t = jquote (dec_text (fst d))"
  define u where "u = jquote (dec_text (snd d))"
  define p where "p = pre @ sep @ btcc_row_text d @ rest"
  have p: "p = pre @ sep @ CHR ''['' # t @ CHR '' '' # u @ CHR '']'' # rest"
    by (simp add: p_def btcc_row_text_def t_def u_def)
  let ?i = "length pre + length sep" and ?j = "length (pre @ sep @ CHR ''['' # t)"
  have ok: "dec_ok (fst d)" "dec_ok (snd d)" using assms(2) by (simp_all add: row_ok_def)
  have i: "skip_while (\<lambda>c. btcc_isSpace c \<or> c = CHR '','') p (length pre) = ?i"
    unfolding p by (rule btcc_skip_sep) (use assms(1) in \<open>simp_all add: is_space_def\<close>)
  have at: "p ! ?i = CHR ''[''" "?i < length p" "length pre < length p" by (simp_all add: p nth_append)
  have v1: "btcc_scanNextValue p (?i + 1) = (?j, Some (dec_text (fst d)))"
    using scanNextValue_price [OF price_text_jquote [OF ok(1)], of "[]" "CHR '' '' # u @ CHR '']'' # rest" "pre @ sep @ [CHR ''['']"]
    by (simp add: p raw_char_def is_space_def flip: t_def)
  have v2: "btcc_scanNextValue p ?j = (?j + 1 + length u, Some (dec_text (snd d)))"
    using scanNextValue_price [OF price_text_jquote [OF ok(2)], of "[CHR '' '']" "CHR '']'' # rest" "pre @ sep @ CHR ''['' # t"]
    by (simp add: p raw_char_def is_space_def flip: u_def)
  have e: "skip_while (\<lambda>c. c \<noteq> CHR '']'') p (?j + 1 + length u) = ?j + 1 + length u"
    by (subst skip_while.simps) (simp add: p nth_append)
  have step: "btcc_rows_loop p (length pre) count rows =
      btcc_rows_loop p (?j + 1 + length u + 1) (count + 1) (rows[count := mk_row d])"
    using assms(3) at ok
    by (subst btcc_rows_loop.simps, unfold i Let_def)
      (simp add: v1 [simplified] v2 [simplified] e [simplified] btcc_parse_dec_text mk_row_def, simp add: p)
  have "?j + 1 + length u + 1 = length (pre @ sep @ btcc_row_text d)"
    by (simp add: btcc_row_text_def t_def u_def)
  with step show ?thesis by (simp only: flip: p_def)
qed

interpretation btcc_rows: depth_rows btcc_rows_loop btcc_row_text
proof
  fix sep pre rest :: string and count and rows :: "DepthRow list"
  assume "elem_sep sep"
  then have "skip_while (\<lambda>c. btcc_isSpace c \<or> c = CHR '','') (pre @ sep @ CHR '']'' # rest) (length pre)
      = length pre + length sep"
    by (intro btcc_skip_sep) (simp_all add: is_space_def)
  then show "btcc_rows_loop (pre @ sep @ CHR '']'' # rest) (length pre) count rows = (rows, count, True)"
    by (subst btcc_rows_loop.simps) (simp add: Let_def nth_append)
next
  fix payload i count and rows :: "DepthRow list"
  assume "length rows \<le> count"
  then show "btcc_rows_loop payload i count rows = (rows, count, True)"
    by (subst btcc_rows_loop.simps) simp
qed (rule btcc_loop_row)

subsection \<open>Sides of the book, and the whole message\<close>

lemma scanDepthSide_at:
  assumes "p = pre @ key @ CHR '':'' # CHR ''['' # body" "first_at p key pre" "key \<noteq> []"
  shows "btcc_scanDepthSide p key rows = btcc_rows_loop p (length (pre @ key @ '':['')) 0 rows"
proof -
  have sp: "\<not> is_space (CHR ''['')" by (simp add: is_space_def)
  note f = field_pos [OF assms, simplified list.sel, OF list.distinct(2) sp]
  show ?thesis using f(3,4) by (simp add: btcc_scanDepthSide_def btcc_indexOfFrom_0 f(1,2))
qed

text \<open>Rows with a blank between price and quantity are stored in order.\<close>

lemma scanDepthSide_blank_rows:
  assumes "p = pre @ key @ CHR '':'' # CHR ''['' # commas (map btcc_row_text ds) @ CHR '']'' # post"
    and "first_at p key pre" "key \<noteq> []" "list_all row_ok ds"
  shows "btcc_scanDepthSide p key rows = (store_rows rows 0 ds, min (length ds) (length rows), True)"
proof -
  have q: "p = (pre @ key @ '':['') @ [] @ commas (map btcc_row_text ds) @ CHR '']'' # post"
    by (simp add: assms(1))
  have "btcc_rows_loop p (length (pre @ key @ '':['')) 0 rows
      = (store_rows rows 0 ds, min (length ds) (length rows), True)"
    using btcc_rows.loop_rows [of "[]" ds 0 rows "pre @ key @ '':[''" post] assms(4)
    by (simp add: elem_sep_def flip: q [simplified])
  then show ?thesis using scanDepthSide_at [OF assms(1-3)] by simp
qed

text \<open>A first row with a comma between price and quantity makes the side fail with no row.\<close>

definition comma_side :: "string \<Rightarrow> string \<Rightarrow> bool" where
  "comma_side p key \<longleftrightarrow> (\<exists>pre t v post. p = pre @ key @ CHR '':'' # CHR ''['' # CHR ''['' # t @ CHR '','' # post
     \<and> first_at p key pre \<and> price_text t v)"

lemma scanDepthSide_comma:
  assumes "comma_side p key" "key \<noteq> []" "rows \<noteq> []"
  shows "btcc_scanDepthSide p key rows = (rows, 0, False)"
proof -
  from assms(1) obtain pre t v post
    where p: "p = pre @ key @ CHR '':'' # CHR ''['' # CHR ''['' # t @ CHR '','' # post"
      and f: "first_at p key pre" and t: "price_text t v" by (auto simp: comma_side_def)
  have "btcc_rows_loop p (length (pre @ key @ '':['')) 0 rows = (rows, 0, False)"
    using rows_loop_comma_row [of "[]" t v "[]" "[]" 0 rows "pre @ key @ '':[''" post] t assms(3)
    by (simp add: elem_sep_def p)
  then show ?thesis using scanDepthSide_at [OF p f assms(2)] by simp
qed

text \<open>Each side of the message is in the comma form of JSON, or absent: the depth is rejected.\<close>

lemma scanDepthSide_absent:
  "\<not> sublist key p \<Longrightarrow> btcc_scanDepthSide p key rows = (rows, 0, False)"
proof -
  assume n: "\<not> sublist key p"
  have "\<not> prefix key (drop j p)" for j
  proof
    assume "prefix key (drop j p)"
    then obtain r where "drop j p = key @ r" by (auto simp: prefix_def)
    then have "p = take j p @ key @ r" by (metis append_take_drop_id)
    then have "sublist key p" by (metis sublist_def)
    with n show False by simp
  qed
  then have "IndexOf p key < 0" by (simp add: IndexOf_neg)
  then show ?thesis by (simp add: btcc_scanDepthSide_def btcc_indexOfFrom_0)
qed

lemma quoted_key_ne [simp]: "quoted_key k \<noteq> []"
  by (simp add: quoted_key_def)

lemma decodeBtccDepth_comma:
  assumes "btcc_scanParamsValue payload spare 1 = Ret (Some book)"
    and "comma_side book (quoted_key ''bids'') \<or> \<not> sublist (quoted_key ''bids'') book"
    and "comma_side book (quoted_key ''asks'') \<or> \<not> sublist (quoted_key ''asks'') book"
  shows "decodeBtccDepth env payload spare symbol = Ret (Inl Btcc_ErrInvalidPayload)"
proof -
  have side: "btcc_scanDepthSide book key rows = (rows, 0, False)"
    if "comma_side book key \<or> \<not> sublist key book" "key \<noteq> []" "rows \<noteq> []" for key rows
    using that scanDepthSide_comma scanDepthSide_absent by blast
  define d where "d = (let depth = zero_Depth\<lparr>Depth_Symbol := symbol, Depth_Platform := PlatformBTCC,
                             Depth_RecvTsNano := go_now env\<rparr> in
     (case btcc_scanNumberField book (quoted_key ''time'') of
                 None \<Rightarrow> depth
               | Some eventText \<Rightarrow>
                   (case btcc_parseJSONTimestamp env eventText of
                      None \<Rightarrow> depth
                    | Some eventTs \<Rightarrow> depth\<lparr>Depth_EventTsNano := eventTs\<rparr>)))"
  have "Depth_Bids d \<noteq> []" "Depth_Asks d \<noteq> []"
    by (auto simp: d_def Let_def zero_Depth_def split: option.split)
  then have "btcc_scanDepthSide book (quoted_key ''bids'') (Depth_Bids d) = (Depth_Bids d, 0, False)"
    "btcc_scanDepthSide book (quoted_key ''asks'') (Depth_Asks d) = (Depth_Asks d, 0, False)"
    using side assms(2,3) by simp_all
  then show ?thesis
    unfolding decodeBtccDepth_def assms(1) Let_def go_bind.simps option.case
      d_def [unfolded Let_def, symmetric] by simp
qed

subsection \<open>Registration and routing\<close>

text \<open>
  A market that is plain text (no quote, no backslash) is what the params string reader returns.
\<close>

definition plain_text :: "string \<Rightarrow> bool" where
  "plain_text s \<longleftrightarrow> CHR 0x22 \<notin> set s \<and> CHR 0x5C \<notin> set s"

lemma params_string_loop_plain:
  "plain_text s \<Longrightarrow> params_string_loop (pre @ s @ [CHR 0x22]) (length pre) = length pre + length s"
proof (induction s arbitrary: pre)
  case Nil
  then show ?case by (simp add: params_string_loop.simps [of _ "length pre"] nth_append)
next
  case (Cons c s)
  then have "c \<noteq> CHR 0x22" "c \<noteq> CHR 0x5C" "plain_text s" by (auto simp: plain_text_def)
  then show ?case using Cons.IH [of "pre @ [c]"]
    by (simp add: params_string_loop.simps [of _ "length pre"] nth_append)
qed

lemma jquote_Plain: "plain_text s \<Longrightarrow> jstring (map Plain s) = jquote s \<and> json_ok (JStr (map Plain s))"
  by (induction s) (auto simp: jstring_def jquote_def plain_text_def)

lemma scanParamsString_plain:
  assumes "btcc_scanParamsValue payload spare k = Ret (Some (jquote s))" "plain_text s"
  shows "btcc_scanParamsString payload spare k = Ret (Some s)"
proof -
  have "params_string_loop (jquote s) 1 = length s + 1"
    using params_string_loop_plain [OF assms(2), of "[CHR 0x22]"] by (simp add: jquote_def)
  moreover have "btcc_trimSpace (jquote s) = jquote s"
    using btcc_trimSpace_quoted [of s] by (simp add: jquote_def)
  moreover have "slice (jquote s) 1 (length s + 1) = s" by (simp add: slice_def jquote_def)
  ultimately show ?thesis using assms(1)
    by (simp add: btcc_scanParamsString_def Let_def) (simp add: jquote_def)
qed

lemma btcc_bytesEqual_eq: "btcc_bytesEqual a b \<longleftrightarrow> a = b"
proof -
  have "btcc_bytesEqual a b \<longleftrightarrow> length a = length b \<and> (\<forall>i < length a. a ! i = b ! i)"
    by (simp add: btcc_bytesEqual_def list_all_iff Ball_def)
  also have "\<dots> \<longleftrightarrow> a = b" by (rule list_eq_iff_nth_eq [symmetric])
  finally show ?thesis .
qed

text \<open>The tables agree with the topics: what a lookup returns is a registered topic of that market.\<close>

definition btcc_codec_ok :: "btcc_codec \<Rightarrow> bool" where
  "btcc_codec_ok c \<longleftrightarrow>
     (\<forall>h t. bc_depthLookup c h = Some t \<longrightarrow>
        (\<exists>m. bc_topicsByID c t = Some m \<and> meta_kind m \<noteq> topicKindOrder \<and> btcc_hashBytes (meta_market m) = h)) \<and>
     (\<forall>h t. bc_orderLookup c h = Some t \<longrightarrow>
        (\<exists>m. bc_topicsByID c t = Some m \<and> meta_kind m = topicKindOrder \<and> btcc_hashBytes (meta_market m) = h))"

lemma btcc_codec_ok_New: "btcc_codec_ok btcc_NewCodec"
  by (simp add: btcc_codec_ok_def btcc_NewCodec_def)

lemma btcc_codec_ok_Register:
  assumes "btcc_codec_ok c" "bc_topicsByID c t = None" "btcc_Register (Some c) t req = (Some c', e)"
  shows "btcc_codec_ok c'"
proof -
  have fresh: "bc_depthLookup c h \<noteq> Some t" "bc_orderLookup c h \<noteq> Some t" for h
    using assms(1,2) unfolding btcc_codec_ok_def by (metis option.distinct(1))+
  show ?thesis
    using assms(3,1) fresh
    by (auto simp: btcc_Register_def btcc_marketFromRequest_def Let_def btcc_codec_ok_def split: if_splits sum.splits)
qed

lemma btcc_codec_ok_RegisterAuth:
  "btcc_codec_ok c \<Longrightarrow> btcc_RegisterAuth (Some c) t apiKey reqID = (Some c', e) \<Longrightarrow> btcc_codec_ok c'"
  by (auto simp: btcc_RegisterAuth_def btcc_codec_ok_def split: option.splits)

lemma btcc_codec_ok_Unregister:
  assumes "btcc_codec_ok c" "btcc_Unregister (Some c) t = Some c'"
  shows "btcc_codec_ok c'"
proof (cases "bc_topicsByID c t")
  case None
  with assms show ?thesis by (simp add: btcc_Unregister_def)
next
  case (Some m)
  have d: "bc_depthLookup c h = Some t \<Longrightarrow> meta_kind m \<noteq> topicKindOrder \<and> h = btcc_hashBytes (meta_market m)" for h
    using assms(1) Some unfolding btcc_codec_ok_def by (metis option.inject)
  have o': "bc_orderLookup c h = Some t \<Longrightarrow> meta_kind m = topicKindOrder \<and> h = btcc_hashBytes (meta_market m)" for h
    using assms(1) Some unfolding btcc_codec_ok_def by (metis option.inject)
  have c': "c' = (if meta_kind m = topicKindOrder
       then c\<lparr>bc_topicsByID := (bc_topicsByID c)(t := None),
              bc_orderLookup := (bc_orderLookup c)(btcc_hashBytes (meta_market m) := None)\<rparr>
       else c\<lparr>bc_topicsByID := (bc_topicsByID c)(t := None),
              bc_depthLookup := (bc_depthLookup c)(btcc_hashBytes (meta_market m) := None)\<rparr>)"
    using assms(2) Some by (simp add: btcc_Unregister_def Let_def split: if_splits)
  have D: "bc_depthLookup c' h = Some u \<Longrightarrow> bc_depthLookup c h = Some u \<and> u \<noteq> t" for h u
    using d c' by (auto split: if_splits)
  have O: "bc_orderLookup c' h = Some u \<Longrightarrow> bc_orderLookup c h = Some u \<and> u \<noteq> t" for h u
    using o' c' by (auto split: if_splits)
  have T: "u \<noteq> t \<Longrightarrow> bc_topicsByID c' u = bc_topicsByID c u" for u using c' by simp
  show ?thesis
    unfolding btcc_codec_ok_def
  proof (intro conjI allI impI)
    fix h u
    assume "bc_depthLookup c' h = Some u"
    with D have "bc_depthLookup c h = Some u" "u \<noteq> t" by blast+
    then show "\<exists>m. bc_topicsByID c' u = Some m \<and> meta_kind m \<noteq> topicKindOrder
        \<and> btcc_hashBytes (meta_market m) = h"
      using assms(1) T unfolding btcc_codec_ok_def by simp
  next
    fix h u
    assume "bc_orderLookup c' h = Some u"
    with O have "bc_orderLookup c h = Some u" "u \<noteq> t" by blast+
    then show "\<exists>m. bc_topicsByID c' u = Some m \<and> meta_kind m = topicKindOrder
        \<and> btcc_hashBytes (meta_market m) = h"
      using assms(1) T unfolding btcc_codec_ok_def by simp
  qed
qed

text \<open>What was registered is what a frame of that market is routed to.\<close>

lemma btcc_route_depth:
  assumes "btcc_Register (Some c) t req = (Some c', None)" "Ingest_Topic req = TopicDepth"
    and "\<not> btcc_isAuthAck c' payload"
    and "ScanStringField payload (quoted_key ''method'') = Some ''depth.update''"
    and "btcc_scanParamsValue payload spare 2 = Ret (Some (jquote (Symbol_String (Ingest_Symbol req))))"
    and "plain_text (Symbol_String (Ingest_Symbol req))"
  shows "btcc_DecodeTopic (Some c') payload spare = Ret (Some t)"
proof -
  have "bc_depthLookup c' (btcc_hashBytes (Symbol_String (Ingest_Symbol req))) = Some t"
    using assms(1,2)
    by (auto simp: btcc_Register_def btcc_marketFromRequest_def btcc_symbolToMarket_def Let_def split: if_splits)
  then show ?thesis using assms(3,4) scanParamsString_plain [OF assms(5,6)]
    by (simp add: btcc_DecodeTopic_def btcc_bytesEqual_eq btcc_lookupDepth_def)
qed

lemma btcc_route_order:
  assumes "btcc_Register (Some c) t req = (Some c', None)" "Ingest_Topic req = TopicOrder"
    and "\<not> btcc_isAuthAck c' payload"
    and "ScanStringField payload (quoted_key ''method'') = Some ''order.update''"
    and "btcc_scanParamsValue payload spare 1 = Ret (Some v)"
    and "btcc_scanStringField v (quoted_key ''market'') = Some (Symbol_String (Ingest_Symbol req))"
  shows "btcc_DecodeTopic (Some c') payload spare = Ret (Some t)"
proof -
  have "bc_orderLookup c' (btcc_hashBytes (Symbol_String (Ingest_Symbol req))) = Some t"
    using assms(1,2)
    by (auto simp: btcc_Register_def btcc_marketFromRequest_def btcc_symbolToMarket_def Let_def split: if_splits)
  then show ?thesis using assms(3-6)
    by (simp add: btcc_DecodeTopic_def btcc_bytesEqual_eq btcc_lookupOrder_def)
qed

lemma btcc_unregistered_encode:
  "btcc_Unregister (Some c) t = Some c' \<Longrightarrow> \<not> btcc_isAuthTopic c' t \<Longrightarrow>
     btcc_EncodeUnsubscribe (Some c') dst t = Ret (Inl Codec_ErrWebSocketProtocol)
     \<and> btcc_EncodeSubscribe (Some c') dst t = Ret (Inl Codec_ErrWebSocketProtocol)"
  by (auto simp: btcc_Unregister_def btcc_EncodeUnsubscribe_def btcc_EncodeSubscribe_def Let_def
      split: option.splits if_splits)

subsection \<open>Every decoded BTCC depth is well formed\<close>

text \<open>One round of the row loop: it stops, skips a byte, or stores a row of two parsed decimals.\<close>

lemma btcc_rows_round:
  obtains (stop) b where "btcc_rows_loop p i count rows = (rows, count, b)"
  | (skip) j where "btcc_rows_loop p i count rows = btcc_rows_loop p j count rows" "length p - j < length p - i"
  | (store) j s t x y where "btcc_rows_loop p i count rows
      = btcc_rows_loop p j (count + 1) (rows[count := \<lparr>Price = x, Quantity = y\<rparr>])"
      "length p - j < length p - i" "count < length rows"
      "btcc_parseDecimal s = Inr x" "btcc_parseDecimal t = Inr y"
proof -
  let ?i = "skip_while (\<lambda>c. btcc_isSpace c \<or> c = CHR '','') p i"
  show thesis
  proof (cases "i < length p \<and> count < length rows \<and> \<not> (length p \<le> ?i \<or> p ! ?i = CHR '']'')")
    case False
    then have "btcc_rows_loop p i count rows = (rows, count, True)"
      by (subst btcc_rows_loop.simps) (auto simp: Let_def)
    then show thesis by (rule stop)
  next
    case True
    then have u: "btcc_rows_loop p i count rows =
       (if p ! ?i \<noteq> CHR ''['' then btcc_rows_loop p (?i + 1) count rows
        else case btcc_scanNextValue p (?i + 1) of
          (i, None) \<Rightarrow> (rows, count, False)
        | (i, Some priceText) \<Rightarrow>
            (case btcc_scanNextValue p i of
               (i, None) \<Rightarrow> (rows, count, False)
             | (i, Some qtyText) \<Rightarrow>
                 (case btcc_parseDecimal priceText of
                    Inl e \<Rightarrow> (rows, count, False)
                  | Inr price \<Rightarrow>
                      (case btcc_parseDecimal qtyText of
                         Inl e \<Rightarrow> (rows, count, False)
                       | Inr qty \<Rightarrow>
                           btcc_rows_loop p (if skip_while (\<lambda>c. c \<noteq> CHR '']'') p i < length p
                             then skip_while (\<lambda>c. c \<noteq> CHR '']'') p i + 1 else skip_while (\<lambda>c. c \<noteq> CHR '']'') p i)
                             (count + 1) (rows[count := \<lparr>Price = price, Quantity = qty\<rparr>])))))"
      by (subst btcc_rows_loop.simps) (simp only: Let_def if_True if_False simp_thms)
    obtain a va where a: "btcc_scanNextValue p (?i + 1) = (a, va)" by (cases "btcc_scanNextValue p (?i + 1)")
    obtain b vb where b: "btcc_scanNextValue p a = (b, vb)" by (cases "btcc_scanNextValue p a")
    consider (open') "p ! ?i \<noteq> CHR ''[''" | (bad) "p ! ?i = CHR ''[''" "\<nexists>s t x y. va = Some s \<and> vb = Some t
        \<and> btcc_parseDecimal s = Inr x \<and> btcc_parseDecimal t = Inr y"
      | (good) s t x y where "p ! ?i = CHR ''[''" "va = Some s" "vb = Some t"
        "btcc_parseDecimal s = Inr x" "btcc_parseDecimal t = Inr y" by blast
    then show thesis
    proof cases
      case open'
      then show thesis using skip [of "?i + 1"] u True row_skip_progress [of i p] by simp
    next
      case bad
      then have "btcc_rows_loop p i count rows = (rows, count, False)"
        unfolding u a prod.case b by (auto split: option.split sum.split)
      then show thesis by (rule stop)
    next
      case good
      have "length p - (if skip_while (\<lambda>c. c \<noteq> CHR '']'') p b < length p
          then skip_while (\<lambda>c. c \<noteq> CHR '']'') p b + 1 else skip_while (\<lambda>c. c \<noteq> CHR '']'') p b) < length p - i"
        by (rule row_round_progress [where P = "\<lambda>c. btcc_isSpace c \<or> c = CHR '',''" and a = a])
          (use True btcc_scanNextValue_ge [OF a] btcc_scanNextValue_ge [OF b] in simp_all)
      moreover have "btcc_rows_loop p i count rows =
          btcc_rows_loop p (if skip_while (\<lambda>c. c \<noteq> CHR '']'') p b < length p
             then skip_while (\<lambda>c. c \<noteq> CHR '']'') p b + 1 else skip_while (\<lambda>c. c \<noteq> CHR '']'') p b)
             (count + 1) (rows[count := \<lparr>Price = x, Quantity = y\<rparr>])"
        unfolding u a prod.case b using good by simp
      ultimately show thesis using store good True by blast
    qed
  qed
qed

lemma btcc_rows_ok:
  assumes "list_all wf_DepthRow rows" "count \<le> length rows"
  shows "rows_ok (length rows) (btcc_rows_loop p i count rows)"
  using assms
proof (induction "length p - i" arbitrary: i count rows rule: less_induct)
  case less
  show ?case
  proof (rule btcc_rows_round [of p i count rows])
    fix b assume "btcc_rows_loop p i count rows = (rows, count, b)"
    then show ?thesis using less.prems by (simp add: rows_ok_def)
  next
    fix j assume "btcc_rows_loop p i count rows = btcc_rows_loop p j count rows" "length p - j < length p - i"
    then show ?thesis using less.hyps [of j] less.prems by simp
  next
    fix j s t x y
    assume eq: "btcc_rows_loop p i count rows
      = btcc_rows_loop p j (count + 1) (rows[count := \<lparr>Price = x, Quantity = y\<rparr>])"
      and j: "length p - j < length p - i" "count < length rows"
      and x: "btcc_parseDecimal s = Inr x" and y: "btcc_parseDecimal t = Inr y"
    have "wf_DepthRow \<lparr>Price = x, Quantity = y\<rparr>"
      using btcc_reader.parse_bounds [OF x] btcc_reader.parse_bounds [OF y]
      by (auto simp: wf_DepthRow_def wf_Decimal_def in_int64_def)
    then have "list_all wf_DepthRow (rows[count := \<lparr>Price = x, Quantity = y\<rparr>])"
      using less.prems(1) by (auto simp: list_all_iff dest: set_update_subset_insert [THEN subsetD])
    then show ?thesis
      using less.hyps [of j "rows[count := \<lparr>Price = x, Quantity = y\<rparr>]" "count + 1"] j
      by (simp add: eq)
  qed
qed

lemma btcc_side_ok:
  "list_all wf_DepthRow rows \<Longrightarrow> rows_ok (length rows) (btcc_scanDepthSide p key rows)"
  using btcc_rows_ok [of rows 0]
  by (auto simp: btcc_scanDepthSide_def Let_def rows_ok_def split: option.split)

end
