(* ===== verification/Binance_Payload.thy ===== *)
theory Binance_Payload
  imports Binance_Decimal Depth_Rows Adapter_Codable
begin

section \<open>Binance payloads\<close>

text \<open>
  \<open>bundle/internal/ingest/binance/payload.go\<close>. The field readers retry at the next occurrence of
  the key when the value has not the expected form; the depth rows are quoted strings. Nothing
  here slices past the length, so nothing panics.
\<close>

definition binance_isSpace :: "char \<Rightarrow> bool" where
  "binance_isSpace b \<longleftrightarrow> b = CHR '' '' \<or> b = CHR 0x09 \<or> b = CHR 0x0A \<or> b = CHR 0x0D"

lemma binance_isSpace_eq [simp]: "binance_isSpace = is_space"
  by (simp add: fun_eq_iff binance_isSpace_def is_space_def)

definition binance_indexOfFrom :: "string \<Rightarrow> string \<Rightarrow> int \<Rightarrow> int" where
  "binance_indexOfFrom payload key start =
     (if length key = 0 \<or> start < 0 \<or> int (length payload) \<le> start then - 1
      else if int (length payload) - start < int (length key) then - 1
      else index_loop payload key (nat start))"

lemma binance_indexOfFrom_bounds:
  assumes "binance_indexOfFrom payload key (int start) = idx" "0 \<le> idx"
  shows "start \<le> nat idx" "nat idx + length key \<le> length payload" "0 < length key"
proof -
  have key: "key \<noteq> []" using assms by (auto simp: binance_indexOfFrom_def)
  have "index_loop payload key start = int (nat idx)"
    using assms by (auto simp: binance_indexOfFrom_def split: if_splits)
  then have "start \<le> nat idx" "prefix key (drop (nat idx) payload)"
    using index_loop_spec [OF key] by blast+
  then show "start \<le> nat idx" "nat idx + length key \<le> length payload" "0 < length key"
    using prefix_length_bound [OF key] key by simp_all
qed

subsection \<open>Fields\<close>

function binance_string_loop :: "string \<Rightarrow> string \<Rightarrow> nat \<Rightarrow> string option" where
  "binance_string_loop payload key start =
     (let idx = binance_indexOfFrom payload key (int start) in
      if idx < 0 then None
      else case after_colon payload (nat idx + length key) of
        None \<Rightarrow> None
      | Some i \<Rightarrow>
          if length payload \<le> i then None
          else if payload ! i \<noteq> CHR 0x22 then binance_string_loop payload key (nat idx + length key)
          else quoted_at payload i)"
  by pat_completeness auto
termination
proof (relation "measure (\<lambda>(payload, key, start). length payload - start)", goal_cases)
  case (2 payload key start idx i)
  then have "0 \<le> idx" "binance_indexOfFrom payload key (int start) = idx" by simp_all
  from binance_indexOfFrom_bounds [OF this(2,1)] show ?case unfolding in_measure prod.case by linarith
qed simp

definition binance_scanStringField :: "string \<Rightarrow> string \<Rightarrow> string option" where
  "binance_scanStringField payload key = binance_string_loop payload key 0"

function binance_uint_field_loop :: "string \<Rightarrow> string \<Rightarrow> nat \<Rightarrow> u64 option" where
  "binance_uint_field_loop payload key start =
     (let idx = binance_indexOfFrom payload key (int start) in
      if idx < 0 then None
      else case after_colon payload (nat idx + length key) of
        None \<Rightarrow> None
      | Some i \<Rightarrow>
          if length payload \<le> i \<or> \<not> is_digit (payload ! i)
          then binance_uint_field_loop payload key (nat idx + length key)
          else Some (uint_loop payload i 0))"
  by pat_completeness auto
termination
proof (relation "measure (\<lambda>(payload, key, start). length payload - start)", goal_cases)
  case (2 payload key start idx i)
  then have "0 \<le> idx" "binance_indexOfFrom payload key (int start) = idx" by simp_all
  from binance_indexOfFrom_bounds [OF this(2,1)] show ?case unfolding in_measure prod.case by linarith
qed simp

declare binance_string_loop.simps [simp del] binance_uint_field_loop.simps [simp del]

definition binance_scanUintField :: "string \<Rightarrow> string \<Rightarrow> u64 option" where
  "binance_scanUintField payload key = binance_uint_field_loop payload key 0"

definition binance_scanNextString :: "string \<Rightarrow> nat \<Rightarrow> nat \<times> string option" where
  "binance_scanNextString payload idx =
     (let i = skip_while (\<lambda>c. c \<noteq> CHR 0x22) payload idx in
      if length payload \<le> i then (i, None)
      else let start = i + 1; i = skip_while (\<lambda>c. c \<noteq> CHR 0x22) payload start in
        if length payload \<le> i then (i, None) else (i + 1, Some (slice payload start i)))"

lemma binance_scanNextString_ge:
  assumes "binance_scanNextString payload idx = (i, v)"
  shows "idx \<le> i"
proof -
  let ?P = "\<lambda>c. c \<noteq> CHR 0x22"
  have "idx \<le> skip_while ?P payload idx" "Suc (skip_while ?P payload idx) \<le> skip_while ?P payload (Suc (skip_while ?P payload idx))"
    by (rule skip_while_ge)+
  with assms show ?thesis by (auto simp: binance_scanNextString_def Let_def split: if_splits)
qed

subsection \<open>Depth rows\<close>

function binance_rows_loop :: "string \<Rightarrow> nat \<Rightarrow> nat \<Rightarrow> DepthRow list \<Rightarrow> DepthRow list \<times> nat \<times> bool" where
  "binance_rows_loop payload i count rows =
     (if i < length payload \<and> count < length rows then
        let i = skip_while (\<lambda>c. binance_isSpace c \<or> c = CHR '','') payload i in
        if length payload \<le> i \<or> payload ! i = CHR '']'' then (rows, count, True)
        else if payload ! i \<noteq> CHR ''['' then binance_rows_loop payload (i + 1) count rows
        else case binance_scanNextString payload (i + 1) of
          (i, None) \<Rightarrow> (rows, count, False)
        | (i, Some priceText) \<Rightarrow>
            (case binance_scanNextString payload i of
               (i, None) \<Rightarrow> (rows, count, False)
             | (i, Some qtyText) \<Rightarrow>
                 (case binance_parseDecimal priceText of
                    Inl e \<Rightarrow> (rows, count, False)
                  | Inr price \<Rightarrow>
                      (case binance_parseDecimal qtyText of
                         Inl e \<Rightarrow> (rows, count, False)
                       | Inr qty \<Rightarrow>
                           let rows = rows[count := \<lparr>Price = price, Quantity = qty\<rparr>];
                               count = count + 1;
                               i = skip_while (\<lambda>c. c \<noteq> CHR '']'') payload i;
                               i = (if i < length payload then i + 1 else i)
                           in binance_rows_loop payload i count rows)))
      else (rows, count, True))"
  by pat_completeness auto
termination
proof (relation "measure (\<lambda>(payload, i, count, rows). length payload - i)", goal_cases)
  case 2
  then show ?case by (simp add: row_skip_progress [simplified])
next
  case 3
  show ?case unfolding in_measure prod.case 3(2,13,14)
    by (rule row_round_progress) (use 3 in \<open>auto dest!: sym [THEN binance_scanNextString_ge]\<close>)
qed simp

declare binance_rows_loop.simps [simp del]

definition binance_scanDepthSide :: "string \<Rightarrow> string \<Rightarrow> DepthRow list \<Rightarrow> DepthRow list \<times> nat \<times> bool" where
  "binance_scanDepthSide payload key rows =
     (let idx = binance_indexOfFrom payload key 0 in
      if idx < 0 then (rows, 0, False)
      else case after_colon payload (nat idx + length key) of
        None \<Rightarrow> (rows, 0, False)
      | Some i \<Rightarrow>
          if length payload \<le> i \<or> payload ! i \<noteq> CHR ''['' then (rows, 0, False)
          else binance_rows_loop payload (i + 1) 0 rows)"

subsection \<open>Enum mappings\<close>

definition mapBinanceSide :: "string \<Rightarrow> OrderSide" where
  "mapBinanceSide value = (if value = ''BUY'' then OrderSideBuy else if value = ''SELL'' then OrderSideSell else 0)"

definition mapBinanceOrderType :: "string \<Rightarrow> OrderType" where
  "mapBinanceOrderType value =
     (if value = ''LIMIT'' then OrderTypeLimit else if value = ''MARKET'' then OrderTypeMarket else 0)"

definition mapBinanceOrderStatus :: "string \<Rightarrow> OrderStatus" where
  "mapBinanceOrderStatus value =
     (if value = ''NEW'' then OrderStatusPlaced
      else if value = ''PARTIALLY_FILLED'' then OrderStatusPartialFilled
      else if value = ''FILLED'' then OrderStatusFilled
      else if value = ''CANCELED'' \<or> value = ''CANCELLED'' then OrderStatusCanceled
      else if value = ''EXPIRED'' then OrderStatusExpired
      else 0)"

definition mapBinanceTimeInForce :: "string \<Rightarrow> OrderTimeInForce" where
  "mapBinanceTimeInForce value =
     (if value = ''GTC'' then OrderTimeInForceGTC else if value = ''IOC'' then OrderTimeInForceIOC
      else if value = ''FOK'' then OrderTimeInForceFOK else 0)"

subsection \<open>Decoding\<close>

definition quoted_name :: "string \<Rightarrow> string" where
  [go_eval]: "quoted_name k = [CHR 0x22] @ k @ [CHR 0x22]"

text \<open>\<open>int64(ms) * int64(time.Millisecond)\<close>: both steps wrap.\<close>

definition millis_to_nano :: "u64 \<Rightarrow> int" where
  [go_eval]: "millis_to_nano ms = wrap64 (wrap64 (uint ms) * 1000000)"

definition binance_side_with_alt ::
  "string \<Rightarrow> string \<Rightarrow> string \<Rightarrow> DepthRow list \<Rightarrow> DepthRow list \<times> nat" where
  "binance_side_with_alt payload key alt rows =
     (case binance_scanDepthSide payload key rows of
        (rows, n, True) \<Rightarrow> (rows, n)
      | (rows, n, False) \<Rightarrow> (case binance_scanDepthSide payload alt rows of (rows, n, ok) \<Rightarrow> (rows, n)))"

definition decodeBinanceDepth :: "int \<Rightarrow> string \<Rightarrow> Symbol \<Rightarrow> binance_error + Depth" where
  "decodeBinanceDepth now payload symbol =
     (let depth = zero_Depth\<lparr>Depth_Symbol := symbol, Depth_Platform := PlatformBinance, Depth_RecvTsNano := now\<rparr>;
          depth = (case binance_scanUintField payload (quoted_name ''E'') of
                     None \<Rightarrow> depth
                   | Some eventMs \<Rightarrow> depth\<lparr>Depth_EventTsNano := millis_to_nano eventMs\<rparr>);
          (bidRows, bids) = binance_side_with_alt payload (quoted_name ''b'') (quoted_name ''bids'') (Depth_Bids depth);
          (askRows, asks) = binance_side_with_alt payload (quoted_name ''a'') (quoted_name ''asks'') (Depth_Asks depth);
          depth = depth\<lparr>Depth_Bids := bidRows, Depth_Asks := askRows,
                        Depth_BidsLength := int bids, Depth_AsksLength := int asks\<rparr>
      in if Depth_BidsLength depth = 0 \<and> Depth_AsksLength depth = 0
         then Inl Binance_ErrInvalidPayload else Inr depth)"

text \<open>\<open>if text, ok := scanStringField(payload, key); ok { parsed, err := parseDecimal(text); if err \<dots> }\<close>\<close>

definition binance_decimal_field :: "string \<Rightarrow> string \<Rightarrow> binance_error + Decimal option" where
  "binance_decimal_field payload key =
     (case binance_scanStringField payload key of
        None \<Rightarrow> Inr None
      | Some t \<Rightarrow> (case binance_parseDecimal t of Inl e \<Rightarrow> Inl e | Inr d \<Rightarrow> Inr (Some d)))"

definition opt_update :: "'a option \<Rightarrow> ('a \<Rightarrow> 'b \<Rightarrow> 'b) \<Rightarrow> 'b \<Rightarrow> 'b" where
  "opt_update r f x = (case r of None \<Rightarrow> x | Some v \<Rightarrow> f v x)"

definition decodeBinanceOrder :: "int \<Rightarrow> string \<Rightarrow> Symbol \<Rightarrow> binance_error + Order" where
  "decodeBinanceOrder now payload symbol =
     (let order = zero_Order\<lparr>Order_Symbol := symbol, Order_Platform := PlatformBinance, Order_RecvTsNano := now\<rparr>;
          order = opt_update (binance_scanUintField payload (quoted_name ''E''))
            (\<lambda>ms o'. o'\<lparr>Order_EventTsNano := millis_to_nano ms\<rparr>) order;
          order = (case binance_scanUintField payload (quoted_name ''T'') of
              Some ms \<Rightarrow> order\<lparr>Order_UpdatedTime := millis_to_nano ms\<rparr>
            | None \<Rightarrow> (if Order_EventTsNano order \<noteq> 0
                       then order\<lparr>Order_UpdatedTime := Order_EventTsNano order\<rparr> else order));
          order = opt_update (binance_scanUintField payload (quoted_name ''i''))
            (\<lambda>v o'. o'\<lparr>Order_ID := wrap64 (uint v)\<rparr>) order;
          order = opt_update (binance_scanStringField payload (quoted_name ''S''))
            (\<lambda>v o'. o'\<lparr>Order_Side := mapBinanceSide v\<rparr>) order;
          order = opt_update (binance_scanStringField payload (quoted_name ''o''))
            (\<lambda>v o'. o'\<lparr>Order_Type := mapBinanceOrderType v\<rparr>) order;
          order = opt_update (binance_scanStringField payload (quoted_name ''X''))
            (\<lambda>v o'. o'\<lparr>Order_Status := mapBinanceOrderStatus v\<rparr>) order;
          order = opt_update (binance_scanStringField payload (quoted_name ''f''))
            (\<lambda>v o'. o'\<lparr>Order_TimeInForce := mapBinanceTimeInForce v\<rparr>) order
      in case binance_decimal_field payload (quoted_name ''q'') of
           Inl e \<Rightarrow> Inl e
         | Inr qty \<Rightarrow>
             (let order = opt_update qty (\<lambda>d o'. o'\<lparr>Order_Quantity := d\<rparr>) order in
              case binance_decimal_field payload (quoted_name ''p'') of
                Inl e \<Rightarrow> Inl e
              | Inr price \<Rightarrow>
                  (let order = opt_update price (\<lambda>d o'. o'\<lparr>Order_Price := d\<rparr>) order in
                   case binance_decimal_field payload (quoted_name ''z'') of
                     Inl e \<Rightarrow> Inl e
                   | Inr cum \<Rightarrow>
                       (let order = (case qty of
                              None \<Rightarrow> order
                            | Some q \<Rightarrow> order\<lparr>Order_LeftQuantity :=
                                (case cum of None \<Rightarrow> q | Some c \<Rightarrow> binance_decimalSub q c)\<rparr>);
                            order = order\<lparr>Order_Source := copy_into (Order_Source order) ''binance''\<rparr>
                        in if Order_ID order = 0 \<and> qty = None
                           then Inl Binance_ErrInvalidPayload else Inr order))))"

definition decodeBinancePayload ::
  "int \<Rightarrow> (nat \<Rightarrow> byte) \<Rightarrow> Topic \<Rightarrow> Symbol \<Rightarrow> string \<Rightarrow> binance_error + byte list" where
  "decodeBinancePayload now pad topic symbol payload =
     (if topic = TopicDepth then
        (case decodeBinanceDepth now payload symbol of
           Inl e \<Rightarrow> Inl e | Inr depth \<Rightarrow> Inr (Depth_Encode pad depth []))
      else if topic = TopicOrder then
        (case decodeBinanceOrder now payload symbol of
           Inl e \<Rightarrow> Inl e | Inr order \<Rightarrow> Inr (Order_Encode pad order []))
      else Inl Binance_ErrInvalidRequest)"

definition binance_DecodeMarketDataPayload ::
  "int \<Rightarrow> (nat \<Rightarrow> byte) \<Rightarrow> Topic \<Rightarrow> Symbol \<Rightarrow> string \<Rightarrow> binance_error + byte list" where
  "binance_DecodeMarketDataPayload now pad topic symbol payload =
     (if \<not> Topic_IsAvailable topic then Inl Binance_ErrInvalidRequest
      else if length payload = 0 then Inl Binance_ErrInvalidPayload
      else decodeBinancePayload now pad topic symbol payload)"

end
