(* ===== verification/Binance_Codec.thy ===== *)
theory Binance_Codec
  imports Binance_Payload Btcc_Codec
begin

section \<open>Binance codec\<close>

text \<open>
  \<open>bundle/internal/ingest/binance/codec.go\<close>: streams by topic, and two routing tables, by stream
  name and by upper-case symbol. Both topics of a symbol share the second table.
\<close>

record binance_codec =
  nc_streamByID :: "TopicID \<rightharpoonup> string"
  nc_streamLookup :: "u64 \<rightharpoonup> TopicID"
  nc_symbolLookup :: "u64 \<rightharpoonup> TopicID"
  nc_authTopicID :: TopicID
  nc_authReqID :: u64
  nc_authAPIKey :: string
  nc_authEnabled :: bool

definition binance_NewCodec :: binance_codec where
  "binance_NewCodec = \<lparr>nc_streamByID = Map.empty, nc_streamLookup = Map.empty, nc_symbolLookup = Map.empty,
     nc_authTopicID = 0, nc_authReqID = 0, nc_authAPIKey = [], nc_authEnabled = False\<rparr>"

definition binance_hashBytes :: "string \<Rightarrow> u64" where
  "binance_hashBytes data =
     foldl (\<lambda>hash c. (hash XOR of_nat (code c)) * 1099511628211) 14695981039346656037 data"

definition binance_appendUint :: "string \<Rightarrow> u64 \<Rightarrow> string" where
  "binance_appendUint dst v = (if v = 0 then dst @ ''0'' else dst @ appendUint_loop v [])"

subsection \<open>Authentication\<close>

definition binance_RegisterAuth ::
  "binance_codec option \<Rightarrow> TopicID \<Rightarrow> string \<Rightarrow> u64 \<Rightarrow> binance_codec option \<times> codec_error option" where
  "binance_RegisterAuth c topicID apiKey reqID =
     (case c of
        None \<Rightarrow> (None, Some errEmptyTopic)
      | Some codec \<Rightarrow>
          if apiKey = [] then (c, Some errEmptyTopic)
          else (Some (codec\<lparr>nc_authTopicID := topicID, nc_authReqID := reqID, nc_authAPIKey := apiKey,
                            nc_authEnabled := True\<rparr>), None))"

definition binance_EncodeAuth ::
  "binance_codec option \<Rightarrow> string \<Rightarrow> string \<Rightarrow> u64 \<Rightarrow> codec_error + MessageType \<times> string" where
  "binance_EncodeAuth c dst apiKey reqID =
     (case c of
        None \<Rightarrow> Inl Codec_ErrWebSocketProtocol
      | Some _ \<Rightarrow>
          if apiKey = [] then Inl Codec_ErrWebSocketProtocol
          else
            let dst = dst @ ''{'' @ quoted_name ''method'' @ '':'' @ quoted_name ''auth'' @ '',''
                        @ quoted_name ''params'' @ '':['' @ [CHR 0x22];
                dst = dst @ apiKey;
                dst = dst @ [CHR 0x22] @ ''],'' @ quoted_name ''id'' @ '':'';
                dst = binance_appendUint dst reqID
            in Inr (MessageText, dst @ ''}''))"

definition binance_encodeAuth :: "binance_codec \<Rightarrow> string \<Rightarrow> codec_error + MessageType \<times> string" where
  "binance_encodeAuth c dst = binance_EncodeAuth (Some c) dst (nc_authAPIKey c) (nc_authReqID c)"

definition isSuccessValue :: "string \<Rightarrow> bool" where
  "isSuccessValue value \<longleftrightarrow> length value = length ''success''
     \<and> list_all (\<lambda>i. value ! i = ''success'' ! i) [0..<length value]"

definition binance_isAuthAck :: "binance_codec \<Rightarrow> string \<Rightarrow> bool" where
  "binance_isAuthAck c payload \<longleftrightarrow>
     (if \<not> nc_authEnabled c then False
      else if ScanUintField payload (quoted_name ''id'') \<noteq> Some (nc_authReqID c) then False
      else case ScanStringField payload (quoted_name ''result'') of
        Some result \<Rightarrow> isSuccessValue result
      | None \<Rightarrow>
          (case ScanStringField payload (quoted_name ''status'') of
             Some status \<Rightarrow> isSuccessValue status
           | None \<Rightarrow> BytesContains payload (quoted_name ''success'' @ '':true'')))"

definition binance_isAuthTopic :: "binance_codec \<Rightarrow> TopicID \<Rightarrow> bool" where
  "binance_isAuthTopic c topic \<longleftrightarrow> nc_authEnabled c \<and> nc_authTopicID c = topic"

subsection \<open>Registration\<close>

text \<open>\<open>strings.ToLower\<close> on ASCII text; the symbol arrays hold ASCII market names.\<close>

definition lower_char :: "char \<Rightarrow> char" where
  [go_eval]: "lower_char c = (if 65 \<le> code c \<and> code c \<le> 90 then char_of (code c + 32) else c)"

definition upper_char :: "char \<Rightarrow> char" where
  [go_eval]: "upper_char c = (if 97 \<le> code c \<and> code c \<le> 122 then char_of (code c - 32) else c)"

definition binance_symbolToMarket :: "Symbol \<Rightarrow> string" where
  "binance_symbolToMarket symbol = Symbol_String symbol"

definition streamForRequest :: "(string \<Rightarrow> string) \<Rightarrow> IngestRequest \<Rightarrow> codec_error + string" where
  "streamForRequest lower_other req =
     (let market = binance_symbolToMarket (Ingest_Symbol req);
          low = (if ascii market then map lower_char market else lower_other market)
      in if Ingest_Topic req = TopicDepth then Inr (low @ ''@depth@100ms'')
         else if Ingest_Topic req = TopicOrder then Inr low
         else Inl errEmptyTopic)"

text \<open>Up to the first \<open>@\<close>, in upper case (bytewise, ASCII letters only).\<close>

definition parseSymbolUpper :: "string \<Rightarrow> string" where
  "parseSymbolUpper stream =
     (if length stream = 0 then []
      else let end' = skip_while (\<lambda>c. c \<noteq> CHR 0x40) stream 0 in
        if end' = 0 then [] else map (\<lambda>i. upper_char (stream ! i)) [0..<end'])"

definition binance_Register ::
  "(string \<Rightarrow> string) \<Rightarrow> binance_codec option \<Rightarrow> TopicID \<Rightarrow> IngestRequest \<Rightarrow> binance_codec option \<times> codec_error option" where
  "binance_Register lower_other c topicID req =
     (case c of
        None \<Rightarrow> (None, Some errEmptyTopic)
      | Some codec \<Rightarrow>
          if \<not> Topic_IsAvailable (Ingest_Topic req) then (c, Some errEmptyTopic)
          else case streamForRequest lower_other req of
            Inl e \<Rightarrow> (c, Some e)
          | Inr stream \<Rightarrow>
              (let symbol = parseSymbolUpper stream;
                   codec = codec\<lparr>nc_streamByID := (nc_streamByID codec)(topicID \<mapsto> stream),
                                 nc_streamLookup := (nc_streamLookup codec)(binance_hashBytes stream \<mapsto> topicID)\<rparr>;
                   codec = (if 0 < length symbol
                     then codec\<lparr>nc_symbolLookup := (nc_symbolLookup codec)(binance_hashBytes symbol \<mapsto> topicID)\<rparr>
                     else codec)
               in (Some codec, None)))"

definition binance_Unregister :: "binance_codec option \<Rightarrow> TopicID \<Rightarrow> binance_codec option" where
  "binance_Unregister c topicID =
     (case c of
        None \<Rightarrow> None
      | Some codec \<Rightarrow>
          (case nc_streamByID codec topicID of
             None \<Rightarrow> Some codec
           | Some stream \<Rightarrow>
               (let codec = codec\<lparr>nc_streamByID := (nc_streamByID codec)(topicID := None),
                                  nc_streamLookup := (nc_streamLookup codec)(binance_hashBytes stream := None)\<rparr>;
                    symbol = parseSymbolUpper stream
                in Some (if 0 < length symbol
                     then codec\<lparr>nc_symbolLookup := (nc_symbolLookup codec)(binance_hashBytes symbol := None)\<rparr>
                     else codec))))"

subsection \<open>Routing and control messages\<close>

definition binance_lookupStream :: "binance_codec \<Rightarrow> string \<Rightarrow> TopicID option" where
  "binance_lookupStream c stream = nc_streamLookup c (binance_hashBytes stream)"

definition binance_lookupSymbol :: "binance_codec \<Rightarrow> string \<Rightarrow> TopicID option" where
  "binance_lookupSymbol c symbol = nc_symbolLookup c (binance_hashBytes symbol)"

definition binance_DecodeTopic :: "binance_codec option \<Rightarrow> string \<Rightarrow> TopicID option" where
  "binance_DecodeTopic c payload =
     (case c of
        None \<Rightarrow> None
      | Some codec \<Rightarrow>
          if binance_isAuthAck codec payload then Some (nc_authTopicID codec)
          else case Option.bind (ScanStringField payload (quoted_name ''e'')) (binance_lookupStream codec) of
            Some id' \<Rightarrow> Some id'
          | None \<Rightarrow> Option.bind (ScanStringField payload (quoted_name ''s'')) (binance_lookupSymbol codec))"

definition binance_control :: "string \<Rightarrow> TopicID \<Rightarrow> string \<Rightarrow> string \<Rightarrow> string" where
  "binance_control dst topic method stream =
     (let dst = dst @ ''{'' @ quoted_name ''method'' @ '':'' @ quoted_name method @ '',''
                  @ quoted_name ''params'' @ '':['' @ [CHR 0x22];
          dst = dst @ stream;
          dst = dst @ [CHR 0x22] @ ''],'' @ quoted_name ''id'' @ '':'';
          dst = binance_appendUint dst (ucast topic)
      in dst @ ''}'')"

definition lookupStreamByID :: "binance_codec \<Rightarrow> TopicID \<Rightarrow> string option" where
  [simp]: "lookupStreamByID c topic = nc_streamByID c topic"

definition binance_EncodeSubscribe ::
  "binance_codec option \<Rightarrow> string \<Rightarrow> TopicID \<Rightarrow> (codec_error + MessageType \<times> string) go" where
  "binance_EncodeSubscribe c dst topic =
     (case c of
        None \<Rightarrow> Panic
      | Some codec \<Rightarrow>
          if binance_isAuthTopic codec topic then Ret (binance_encodeAuth codec dst)
          else case lookupStreamByID codec topic of
            None \<Rightarrow> Ret (Inl Codec_ErrWebSocketProtocol)
          | Some stream \<Rightarrow> Ret (Inr (MessageText, binance_control dst topic ''SUBSCRIBE'' stream)))"

definition binance_EncodeUnsubscribe ::
  "binance_codec option \<Rightarrow> string \<Rightarrow> TopicID \<Rightarrow> (codec_error + MessageType \<times> string) go" where
  "binance_EncodeUnsubscribe c dst topic =
     (case c of
        None \<Rightarrow> Panic
      | Some codec \<Rightarrow>
          if binance_isAuthTopic codec topic then Ret (Inr (MessageText, take 0 dst))
          else case lookupStreamByID codec topic of
            None \<Rightarrow> Ret (Inl Codec_ErrWebSocketProtocol)
          | Some stream \<Rightarrow> Ret (Inr (MessageText, binance_control dst topic ''UNSUBSCRIBE'' stream)))"

end
