(* ===== verification/Binance_Laws.thy ===== *)
theory Binance_Laws
  imports Binance_Codec Btcc_Laws
begin

section \<open>Binance: depth messages, registration and routing\<close>

text \<open>
  The row loop meets the contract of \<open>Depth_Rows\<close> on the rows Binance sends, so a depth message
  is decoded exactly; the codec's tables agree with its topics; and what the shared symbol table
  does when both topics of a symbol are registered.
\<close>

lemma binance_isSpace_sep:
  assumes "elem_sep sep" "rest \<noteq> []" "\<not> is_space (hd rest)" "hd rest \<noteq> CHR '',''"
  shows "skip_while (\<lambda>c. binance_isSpace c \<or> c = CHR '','') (pre @ sep @ rest) (length pre) = length pre + length sep"
  unfolding binance_isSpace_eq by (rule skip_sep) (rule assms)+

subsection \<open>The shared helpers are the BTCC ones\<close>

lemma binance_hashBytes_eq: "binance_hashBytes = btcc_hashBytes"
  by (simp add: fun_eq_iff binance_hashBytes_def btcc_hashBytes_def)

lemma binance_appendUint_eq: "binance_appendUint dst v = appendUint dst (unat v)"
  using btcc_appendUint_eq [of dst v] by (simp add: binance_appendUint_def btcc_appendUint_def)

lemma binance_indexOfFrom_0: "binance_indexOfFrom p key 0 = IndexOf p key"
  by (auto simp: binance_indexOfFrom_def IndexOf_def)

subsection \<open>Depth rows\<close>

definition binance_row_text :: "Decimal \<times> Decimal \<Rightarrow> string" where
  "binance_row_text r = CHR ''['' # jquote (dec_text (fst r)) @ CHR '','' # jquote (dec_text (snd r)) @ [CHR '']'']"

lemma skip_to_quote:
  assumes "CHR 0x22 \<notin> set gap"
  shows "skip_while (\<lambda>c. c \<noteq> CHR 0x22) (pre @ gap @ CHR 0x22 # rest) (length pre) = length pre + length gap"
proof -
  have "takeWhile (\<lambda>c. c \<noteq> CHR 0x22) (gap @ CHR 0x22 # rest) = gap @ takeWhile (\<lambda>c. c \<noteq> CHR 0x22) (CHR 0x22 # rest)"
    by (rule takeWhile_append2) (use assms in auto)
  then show ?thesis
    using skip_while_append [of "\<lambda>c. c \<noteq> CHR 0x22" pre "gap @ CHR 0x22 # rest"] by simp
qed

lemma scanNextString_quoted:
  assumes "CHR 0x22 \<notin> set gap" "CHR 0x22 \<notin> set v"
  shows "binance_scanNextString (pre @ gap @ jquote v @ rest) (length pre) = (length (pre @ gap @ jquote v), Some v)"
proof -
  let ?p = "pre @ gap @ jquote v @ rest" and ?i = "length pre + length gap"
  have a: "skip_while (\<lambda>c. c \<noteq> CHR 0x22) ?p (length pre) = ?i"
    using skip_to_quote [OF assms(1), of pre "v @ CHR 0x22 # rest"] by (simp add: jquote_def)
  have b: "skip_while (\<lambda>c. c \<noteq> CHR 0x22) ?p (?i + 1) = ?i + 1 + length v"
    using skip_to_quote [OF assms(2), of "pre @ gap @ [CHR 0x22]" rest] by (simp add: jquote_def)
  have "slice ?p (?i + 1) (?i + 1 + length v) = v" by (simp add: slice_def jquote_def)
  then show ?thesis unfolding binance_scanNextString_def a Let_def b by (simp add: jquote_def)
qed

lemma binance_loop_row:
  assumes "elem_sep sep" "row_ok d" "count < length rows"
  shows "binance_rows_loop (pre @ sep @ binance_row_text d @ rest) (length pre) count rows =
    binance_rows_loop (pre @ sep @ binance_row_text d @ rest) (length (pre @ sep @ binance_row_text d)) (count + 1)
      (rows[count := mk_row d])"
proof -
  define t where "t = jquote (dec_text (fst d))"
  define u where "u = jquote (dec_text (snd d))"
  define p where "p = pre @ sep @ binance_row_text d @ rest"
  have p: "p = pre @ sep @ CHR ''['' # t @ CHR '','' # u @ CHR '']'' # rest"
    by (simp add: p_def binance_row_text_def t_def u_def)
  let ?i = "length pre + length sep" and ?j = "length (pre @ sep @ CHR ''['' # t)"
  have ok: "dec_ok (fst d)" "dec_ok (snd d)" using assms(2) by (simp_all add: row_ok_def)
  have i: "skip_while (\<lambda>c. binance_isSpace c \<or> c = CHR '','') p (length pre) = ?i"
    unfolding p by (rule binance_isSpace_sep) (use assms(1) in \<open>simp_all add: is_space_def\<close>)
  have at: "p ! ?i = CHR ''[''" "?i < length p" "length pre < length p" by (simp_all add: p nth_append)
  have v1: "binance_scanNextString p (?i + 1) = (?j, Some (dec_text (fst d)))"
    using scanNextString_quoted [of "[]" "dec_text (fst d)" "pre @ sep @ [CHR ''['']" "CHR '','' # u @ CHR '']'' # rest"]
    by (simp add: p dec_text_no_quote [OF ok(1)] flip: t_def)
  have v2: "binance_scanNextString p ?j = (?j + 1 + length u, Some (dec_text (snd d)))"
    using scanNextString_quoted [of "[CHR '','']" "dec_text (snd d)" "pre @ sep @ CHR ''['' # t" "CHR '']'' # rest"]
    by (simp add: p dec_text_no_quote [OF ok(2)] flip: u_def)
  have e: "skip_while (\<lambda>c. c \<noteq> CHR '']'') p (?j + 1 + length u) = ?j + 1 + length u"
    by (subst skip_while.simps) (simp add: p nth_append)
  have step: "binance_rows_loop p (length pre) count rows =
      binance_rows_loop p (?j + 1 + length u + 1) (count + 1) (rows[count := mk_row d])"
    using assms(3) at ok
    by (subst binance_rows_loop.simps, unfold i Let_def)
      (simp add: v1 [simplified] v2 [simplified] e [simplified] binance_parse_dec_text mk_row_def, simp add: p)
  have "?j + 1 + length u + 1 = length (pre @ sep @ binance_row_text d)"
    by (simp add: binance_row_text_def t_def u_def)
  with step show ?thesis by (simp only: flip: p_def)
qed

interpretation binance_rows: depth_rows binance_rows_loop binance_row_text
proof
  fix sep pre rest :: string and count and rows :: "DepthRow list"
  assume "elem_sep sep"
  then have "skip_while (\<lambda>c. binance_isSpace c \<or> c = CHR '','') (pre @ sep @ CHR '']'' # rest) (length pre)
      = length pre + length sep"
    by (intro binance_isSpace_sep) (simp_all add: is_space_def)
  then show "binance_rows_loop (pre @ sep @ CHR '']'' # rest) (length pre) count rows = (rows, count, True)"
    by (subst binance_rows_loop.simps) (simp add: Let_def nth_append)
next
  fix payload i count and rows :: "DepthRow list"
  assume "length rows \<le> count"
  then show "binance_rows_loop payload i count rows = (rows, count, True)"
    by (subst binance_rows_loop.simps) simp
qed (rule binance_loop_row)

subsection \<open>A depth message\<close>

definition side_text :: "string \<Rightarrow> (Decimal \<times> Decimal) list \<Rightarrow> string" where
  "side_text key ds = key @ CHR '':'' # CHR ''['' # commas (map binance_row_text ds) @ [CHR '']'']"

text \<open>The payload carries the side behind the first occurrence of its key.\<close>

definition has_side :: "string \<Rightarrow> string \<Rightarrow> (Decimal \<times> Decimal) list \<Rightarrow> bool" where
  "has_side p key ds \<longleftrightarrow> (\<exists>pre post. p = pre @ side_text key ds @ post \<and> first_at p key pre)"

lemma scanDepthSide_rows:
  assumes "has_side p key ds" "key \<noteq> []" "list_all row_ok ds"
  shows "binance_scanDepthSide p key rows = (store_rows rows 0 ds, min (length ds) (length rows), True)"
proof -
  from assms(1) obtain pre post where "p = pre @ side_text key ds @ post" and f0: "first_at p key pre"
    by (auto simp: has_side_def)
  then have p: "p = pre @ key @ CHR '':'' # CHR ''['' # commas (map binance_row_text ds) @ CHR '']'' # post"
    by (simp add: side_text_def)
  have sp: "\<not> is_space (CHR ''['')" by (simp add: is_space_def)
  note f = field_pos [OF p f0 assms(2), simplified list.sel, OF list.distinct(2) sp]
  have q: "p = (pre @ key @ '':['') @ [] @ commas (map binance_row_text ds) @ CHR '']'' # post" by (simp add: p)
  have "binance_rows_loop p (length (pre @ key @ '':['')) 0 rows
      = (store_rows rows 0 ds, min (length ds) (length rows), True)"
    using binance_rows.loop_rows [of "[]" ds 0 rows "pre @ key @ '':[''" post] assms(3)
    by (simp add: elem_sep_def flip: q [simplified])
  then show ?thesis using f(3,4)
    by (simp add: binance_scanDepthSide_def binance_indexOfFrom_0 f(1,2))
qed

lemma quoted_name_ne [simp]: "quoted_name k \<noteq> []"
  by (simp add: quoted_name_def)

lemma decodeBinanceDepth_rows:
  assumes "has_side p (quoted_name ''b'') bids" "has_side p (quoted_name ''a'') asks"
    and "list_all row_ok bids" "list_all row_ok asks" "bids \<noteq> [] \<or> asks \<noteq> []"
    and "binance_scanUintField p (quoted_name ''E'') = Some ms"
  shows "decodeBinanceDepth now p symbol = Inr (zero_Depth\<lparr>Depth_Symbol := symbol,
    Depth_Platform := PlatformBinance, Depth_RecvTsNano := now, Depth_EventTsNano := millis_to_nano ms,
    Depth_Bids := store_rows (replicate 128 zero_DepthRow) 0 bids, Depth_BidsLength := int (min (length bids) 128),
    Depth_Asks := store_rows (replicate 128 zero_DepthRow) 0 asks, Depth_AsksLength := int (min (length asks) 128)\<rparr>)"
proof -
  have b: "binance_side_with_alt p (quoted_name ''b'') alt (replicate 128 zero_DepthRow)
      = (store_rows (replicate 128 zero_DepthRow) 0 bids, min (length bids) 128)" for alt
    using scanDepthSide_rows [OF assms(1) _ assms(3), of "replicate 128 zero_DepthRow"]
    by (simp add: binance_side_with_alt_def)
  have a: "binance_side_with_alt p (quoted_name ''a'') alt (replicate 128 zero_DepthRow)
      = (store_rows (replicate 128 zero_DepthRow) 0 asks, min (length asks) 128)" for alt
    using scanDepthSide_rows [OF assms(2) _ assms(4), of "replicate 128 zero_DepthRow"]
    by (simp add: binance_side_with_alt_def)
  have "\<not> (min (length bids) 128 = 0 \<and> min (length asks) 128 = 0)" using assms(5) by auto
  then show ?thesis
    by (simp add: decodeBinanceDepth_def zero_Depth_def a b assms(6) Let_def)
qed

subsection \<open>Every decoded depth is well formed\<close>

text \<open>One round of the row loop: it stops, skips a byte, or stores a row of two parsed decimals.\<close>

lemma binance_rows_round:
  obtains (stop) b where "binance_rows_loop p i count rows = (rows, count, b)"
  | (skip) j where "binance_rows_loop p i count rows = binance_rows_loop p j count rows" "length p - j < length p - i"
  | (store) j s t x y where "binance_rows_loop p i count rows
      = binance_rows_loop p j (count + 1) (rows[count := \<lparr>Price = x, Quantity = y\<rparr>])"
      "length p - j < length p - i" "count < length rows"
      "binance_parseDecimal s = Inr x" "binance_parseDecimal t = Inr y"
proof -
  let ?i = "skip_while (\<lambda>c. binance_isSpace c \<or> c = CHR '','') p i"
  show thesis
  proof (cases "i < length p \<and> count < length rows \<and> \<not> (length p \<le> ?i \<or> p ! ?i = CHR '']'')")
    case False
    then have "binance_rows_loop p i count rows = (rows, count, True)"
      by (subst binance_rows_loop.simps) (auto simp: Let_def)
    then show thesis by (rule stop)
  next
    case True
    then have u: "binance_rows_loop p i count rows =
       (if p ! ?i \<noteq> CHR ''['' then binance_rows_loop p (?i + 1) count rows
        else case binance_scanNextString p (?i + 1) of
          (i, None) \<Rightarrow> (rows, count, False)
        | (i, Some priceText) \<Rightarrow>
            (case binance_scanNextString p i of
               (i, None) \<Rightarrow> (rows, count, False)
             | (i, Some qtyText) \<Rightarrow>
                 (case binance_parseDecimal priceText of
                    Inl e \<Rightarrow> (rows, count, False)
                  | Inr price \<Rightarrow>
                      (case binance_parseDecimal qtyText of
                         Inl e \<Rightarrow> (rows, count, False)
                       | Inr qty \<Rightarrow>
                           binance_rows_loop p (if skip_while (\<lambda>c. c \<noteq> CHR '']'') p i < length p
                             then skip_while (\<lambda>c. c \<noteq> CHR '']'') p i + 1 else skip_while (\<lambda>c. c \<noteq> CHR '']'') p i)
                             (count + 1) (rows[count := \<lparr>Price = price, Quantity = qty\<rparr>])))))"
      by (subst binance_rows_loop.simps) (simp only: Let_def if_True if_False simp_thms)
    obtain a va where a: "binance_scanNextString p (?i + 1) = (a, va)" by (cases "binance_scanNextString p (?i + 1)")
    obtain b vb where b: "binance_scanNextString p a = (b, vb)" by (cases "binance_scanNextString p a")
    consider (open') "p ! ?i \<noteq> CHR ''[''" | (bad) "p ! ?i = CHR ''[''" "\<nexists>s t x y. va = Some s \<and> vb = Some t
        \<and> binance_parseDecimal s = Inr x \<and> binance_parseDecimal t = Inr y"
      | (good) s t x y where "p ! ?i = CHR ''[''" "va = Some s" "vb = Some t"
        "binance_parseDecimal s = Inr x" "binance_parseDecimal t = Inr y" by blast
    then show thesis
    proof cases
      case open'
      then show thesis using skip [of "?i + 1"] u True row_skip_progress [of i p] by simp
    next
      case bad
      then have "binance_rows_loop p i count rows = (rows, count, False)"
        unfolding u a prod.case b by (auto split: option.split sum.split)
      then show thesis by (rule stop)
    next
      case good
      have "length p - (if skip_while (\<lambda>c. c \<noteq> CHR '']'') p b < length p
          then skip_while (\<lambda>c. c \<noteq> CHR '']'') p b + 1 else skip_while (\<lambda>c. c \<noteq> CHR '']'') p b) < length p - i"
        by (rule row_round_progress [where P = "\<lambda>c. binance_isSpace c \<or> c = CHR '',''" and a = a])
          (use True binance_scanNextString_ge [OF a] binance_scanNextString_ge [OF b] in simp_all)
      moreover have "binance_rows_loop p i count rows =
          binance_rows_loop p (if skip_while (\<lambda>c. c \<noteq> CHR '']'') p b < length p
             then skip_while (\<lambda>c. c \<noteq> CHR '']'') p b + 1 else skip_while (\<lambda>c. c \<noteq> CHR '']'') p b)
             (count + 1) (rows[count := \<lparr>Price = x, Quantity = y\<rparr>])"
        unfolding u a prod.case b using good by simp
      ultimately show thesis using store good True by blast
    qed
  qed
qed

lemma binance_rows_ok:
  assumes "list_all wf_DepthRow rows" "count \<le> length rows"
  shows "rows_ok (length rows) (binance_rows_loop p i count rows)"
  using assms
proof (induction "length p - i" arbitrary: i count rows rule: less_induct)
  case less
  show ?case
  proof (rule binance_rows_round [of p i count rows])
    fix b assume "binance_rows_loop p i count rows = (rows, count, b)"
    then show ?thesis using less.prems by (simp add: rows_ok_def)
  next
    fix j assume "binance_rows_loop p i count rows = binance_rows_loop p j count rows" "length p - j < length p - i"
    then show ?thesis using less.hyps [of j] less.prems by simp
  next
    fix j s t x y
    assume eq: "binance_rows_loop p i count rows
      = binance_rows_loop p j (count + 1) (rows[count := \<lparr>Price = x, Quantity = y\<rparr>])"
      and j: "length p - j < length p - i" "count < length rows"
      and x: "binance_parseDecimal s = Inr x" and y: "binance_parseDecimal t = Inr y"
    have "wf_DepthRow \<lparr>Price = x, Quantity = y\<rparr>"
      using binance_reader.parse_bounds [OF x] binance_reader.parse_bounds [OF y]
      by (auto simp: wf_DepthRow_def wf_Decimal_def in_int64_def)
    then have "list_all wf_DepthRow (rows[count := \<lparr>Price = x, Quantity = y\<rparr>])"
      using less.prems(1) by (auto simp: list_all_iff dest: set_update_subset_insert [THEN subsetD])
    then show ?thesis
      using less.hyps [of j "rows[count := \<lparr>Price = x, Quantity = y\<rparr>]" "count + 1"] j
      by (simp add: eq)
  qed
qed

lemma binance_side_ok:
  "list_all wf_DepthRow rows \<Longrightarrow> rows_ok (length rows) (binance_scanDepthSide p key rows)"
  using binance_rows_ok [of rows 0]
  by (auto simp: binance_scanDepthSide_def Let_def rows_ok_def split: option.split)

lemma binance_alt_ok:
  assumes "list_all wf_DepthRow rows" "length rows = n" "binance_side_with_alt p k alt rows = (rows', c)"
  shows "length rows' = n \<and> list_all wf_DepthRow rows' \<and> c \<le> n"
proof -
  obtain r1 c1 b1 where e1: "binance_scanDepthSide p k rows = (r1, c1, b1)" by (metis surj_pair)
  obtain r2 c2 b2 where e2: "binance_scanDepthSide p alt r1 = (r2, c2, b2)" by (metis surj_pair)
  have "rows_ok n (r1, c1, b1)" using binance_side_ok [OF assms(1), of p k] assms(2) e1 by simp
  moreover from this have "rows_ok n (r2, c2, b2)"
    using binance_side_ok [of r1 p alt] e2 by (simp add: rows_ok_def)
  ultimately show ?thesis using assms(3) e1 e2
    by (cases b1) (auto simp: binance_side_with_alt_def rows_ok_def)
qed

lemma millis_to_nano_range [simp]: "in_int64 (millis_to_nano ms)"
  by (simp add: millis_to_nano_def)

lemma decodeBinanceDepth_wf:
  assumes "decodeBinanceDepth now p symbol = Inr d" "wf_Symbol symbol" "in_int64 now"
  shows "wf_Depth d" "0 \<le> Depth_BidsLength d" "Depth_BidsLength d \<le> 128"
    "0 \<le> Depth_AsksLength d" "Depth_AsksLength d \<le> 128"
proof -
  let ?z = "replicate 128 zero_DepthRow"
  have z: "list_all wf_DepthRow ?z" "length ?z = 128"
    by (simp_all add: list_all_iff wf_DepthRow_def wf_Decimal_def zero_DepthRow_def zero_Decimal_def in_int64_def)
  obtain bs b where b: "binance_side_with_alt p (quoted_name ''b'') (quoted_name ''bids'') ?z = (bs, b)" by fastforce
  obtain as' a where a: "binance_side_with_alt p (quoted_name ''a'') (quoted_name ''asks'') ?z = (as', a)" by fastforce
  obtain t where "in_int64 t" and d: "d = zero_Depth\<lparr>Depth_Symbol := symbol, Depth_Platform := PlatformBinance,
      Depth_RecvTsNano := now, Depth_EventTsNano := t, Depth_Bids := bs, Depth_Asks := as',
      Depth_BidsLength := int b, Depth_AsksLength := int a\<rparr>"
  proof (cases "binance_scanUintField p (quoted_name ''E'')")
    case None
    then show thesis using assms(1) that [of 0]
      by (auto simp: decodeBinanceDepth_def zero_Depth_def b a Let_def in_int64_def split: if_splits)
  next
    case (Some ms)
    then show thesis using assms(1) that [of "millis_to_nano ms"]
      by (auto simp: decodeBinanceDepth_def zero_Depth_def b a Let_def split: if_splits)
  qed
  then show "wf_Depth d" "0 \<le> Depth_BidsLength d" "Depth_BidsLength d \<le> 128"
    "0 \<le> Depth_AsksLength d" "Depth_AsksLength d \<le> 128"
    using binance_alt_ok [OF z b] binance_alt_ok [OF z a] assms(2,3)
    by (auto simp: wf_Depth_def in_int64_def)
qed

text \<open>So what the worker receives decodes to the depth that was read.\<close>

lemma binance_payload_depth:
  assumes "binance_DecodeMarketDataPayload now pad TopicDepth symbol p = Inr bytes"
    and "wf_Symbol symbol" "in_int64 now"
  shows "decodeBinanceDepth now p symbol = Inr (Depth_Decode bytes)" "length bytes = Depth_SizeInByte"
proof -
  obtain d where d: "decodeBinanceDepth now p symbol = Inr d" "bytes = Depth_Encode pad d []"
    using assms(1) by (auto simp: binance_DecodeMarketDataPayload_def decodeBinancePayload_def
        split: if_splits sum.splits)
  have wf: "wf_Depth d" by (rule decodeBinanceDepth_wf [OF d(1) assms(2,3)])
  show "decodeBinanceDepth now p symbol = Inr (Depth_Decode bytes)"
    using d depth_codable.decode_encode [OF wf, of pad "[]" "[]"] by (simp add: Depth_Encode_def Depth_Decode_def)
  show "length bytes = Depth_SizeInByte"
    using d depth_codable.encode_size [OF wf, of pad "[]"] by (simp add: Depth_Encode_def)
qed

subsection \<open>Registration and routing\<close>

definition binance_codec_ok :: "binance_codec \<Rightarrow> bool" where
  "binance_codec_ok c \<longleftrightarrow>
     (\<forall>h t. nc_streamLookup c h = Some t \<longrightarrow> (\<exists>s. nc_streamByID c t = Some s \<and> binance_hashBytes s = h)) \<and>
     (\<forall>h t. nc_symbolLookup c h = Some t \<longrightarrow>
        (\<exists>s. nc_streamByID c t = Some s \<and> parseSymbolUpper s \<noteq> [] \<and> binance_hashBytes (parseSymbolUpper s) = h))"

lemma binance_codec_ok_New: "binance_codec_ok binance_NewCodec"
  by (simp add: binance_codec_ok_def binance_NewCodec_def)

lemma binance_codec_ok_Register:
  assumes "binance_codec_ok c" "nc_streamByID c t = None" "binance_Register low (Some c) t req = (Some c', e)"
  shows "binance_codec_ok c'"
proof -
  have fresh: "nc_streamLookup c h \<noteq> Some t" "nc_symbolLookup c h \<noteq> Some t" for h
    using assms(1,2) unfolding binance_codec_ok_def by (metis option.distinct(1))+
  show ?thesis
    using assms(3,1) fresh
    by (auto simp: binance_Register_def Let_def binance_codec_ok_def split: if_splits sum.splits)
qed

lemma binance_codec_ok_Unregister:
  assumes "binance_codec_ok c" "binance_Unregister (Some c) t = Some c'"
  shows "binance_codec_ok c'"
proof (cases "nc_streamByID c t")
  case None
  with assms show ?thesis by (simp add: binance_Unregister_def)
next
  case (Some s)
  have d: "nc_streamLookup c h = Some t \<Longrightarrow> h = binance_hashBytes s" for h
    using assms(1) Some unfolding binance_codec_ok_def by (metis option.inject)
  have y: "nc_symbolLookup c h = Some t \<Longrightarrow> parseSymbolUpper s \<noteq> [] \<and> h = binance_hashBytes (parseSymbolUpper s)" for h
    using assms(1) Some unfolding binance_codec_ok_def by (metis option.inject)
  have T: "u \<noteq> t \<Longrightarrow> nc_streamByID c' u = nc_streamByID c u" for u
    using assms(2) Some by (auto simp: binance_Unregister_def Let_def split: if_splits)
  have D: "nc_streamLookup c' h = Some u \<Longrightarrow> nc_streamLookup c h = Some u \<and> u \<noteq> t" for h u
    using assms(2) Some d by (auto simp: binance_Unregister_def Let_def split: if_splits)
  have Y: "nc_symbolLookup c' h = Some u \<Longrightarrow> nc_symbolLookup c h = Some u \<and> u \<noteq> t" for h u
    using assms(2) Some y by (auto simp: binance_Unregister_def Let_def split: if_splits)
  show ?thesis
    unfolding binance_codec_ok_def
  proof (intro conjI allI impI)
    fix h u
    assume "nc_streamLookup c' h = Some u"
    with D have "nc_streamLookup c h = Some u" "u \<noteq> t" by blast+
    then show "\<exists>s. nc_streamByID c' u = Some s \<and> binance_hashBytes s = h"
      using assms(1) T unfolding binance_codec_ok_def by simp
  next
    fix h u
    assume "nc_symbolLookup c' h = Some u"
    with Y have "nc_symbolLookup c h = Some u" "u \<noteq> t" by blast+
    then show "\<exists>s. nc_streamByID c' u = Some s \<and> parseSymbolUpper s \<noteq> [] \<and> binance_hashBytes (parseSymbolUpper s) = h"
      using assms(1) T unfolding binance_codec_ok_def by simp
  qed
qed

text \<open>Upper case of the part before the \<open>@\<close>: both streams of a symbol give the same table entry.\<close>

lemma parseSymbolUpper_eq: "parseSymbolUpper s = map upper_char (takeWhile (\<lambda>c. c \<noteq> CHR 0x40) s)"
proof -
  have n: "skip_while (\<lambda>c. c \<noteq> CHR 0x40) s 0 = length (takeWhile (\<lambda>c. c \<noteq> CHR 0x40) s)" by (simp add: skip_while_eq)
  have "map (\<lambda>i. upper_char (s ! i)) [0..<length (takeWhile (\<lambda>c. c \<noteq> CHR 0x40) s)]
      = map upper_char (takeWhile (\<lambda>c. c \<noteq> CHR 0x40) s)"
    by (rule nth_equalityI) (simp_all add: takeWhile_nth)
  then show ?thesis by (auto simp: parseSymbolUpper_def n Let_def)
qed

lemma streams_share_symbol:
  assumes "CHR 0x40 \<notin> set low"
  shows "parseSymbolUpper (low @ ''@depth@100ms'') = map upper_char low" "parseSymbolUpper low = map upper_char low"
proof -
  have "takeWhile (\<lambda>c. c \<noteq> CHR 0x40) (low @ ''@depth@100ms'')
      = low @ takeWhile (\<lambda>c. c \<noteq> CHR 0x40) ''@depth@100ms''"
    by (rule takeWhile_append2) (use assms in auto)
  then show "parseSymbolUpper (low @ ''@depth@100ms'') = map upper_char low" by (simp add: parseSymbolUpper_eq)
  have "takeWhile (\<lambda>c. c \<noteq> CHR 0x40) low = low" using assms by (auto simp: takeWhile_eq_all_conv)
  then show "parseSymbolUpper low = map upper_char low" by (simp only: parseSymbolUpper_eq)
qed

text \<open>
  After both topics of a symbol are registered its frames, which name the symbol and not the
  stream, all go to the topic registered last; unregistering that one leaves the other without
  any route.
\<close>

lemma binance_symbol_conflict:
  assumes "Ingest_Topic r1 = TopicDepth" "Ingest_Topic r2 = TopicOrder" "Ingest_Symbol r2 = Ingest_Symbol r1"
    and "ascii (Symbol_String (Ingest_Symbol r1))" "Symbol_String (Ingest_Symbol r1) \<noteq> []"
    and "CHR 0x40 \<notin> set (map lower_char (Symbol_String (Ingest_Symbol r1)))" "t1 \<noteq> t2"
    and "binance_Register low (Some c) t1 r1 = (Some c1, None)"
    and "binance_Register low (Some c1) t2 r2 = (Some c2, None)"
  shows "binance_lookupSymbol c2 (map upper_char (map lower_char (Symbol_String (Ingest_Symbol r1)))) = Some t2"
    and "binance_Unregister (Some c2) t2 = Some c3 \<Longrightarrow>
      binance_lookupSymbol c3 (map upper_char (map lower_char (Symbol_String (Ingest_Symbol r1)))) = None
      \<and> nc_streamByID c3 t1 = Some (map lower_char (Symbol_String (Ingest_Symbol r1)) @ ''@depth@100ms'')"
proof -
  define m where "m = map lower_char (Symbol_String (Ingest_Symbol r1))"
  have m: "m \<noteq> []" "CHR 0x40 \<notin> set m" using assms(5,6) by (simp_all add: m_def)
  note share = streams_share_symbol [OF m(2)]
  have s1: "streamForRequest low r1 = Inr (m @ ''@depth@100ms'')"
    using assms(1,4) by (simp add: streamForRequest_def binance_symbolToMarket_def m_def)
  have s2: "streamForRequest low r2 = Inr m"
    using assms(2,3,4) by (simp add: streamForRequest_def binance_symbolToMarket_def m_def)
  have av: "Topic_IsAvailable (Ingest_Topic r1)" "Topic_IsAvailable (Ingest_Topic r2)"
    using assms(1,2) by (simp_all add: Topic_IsAvailable_iff)
  have c1: "c1 = c\<lparr>nc_streamByID := (nc_streamByID c)(t1 \<mapsto> m @ ''@depth@100ms''),
      nc_streamLookup := (nc_streamLookup c)(binance_hashBytes (m @ ''@depth@100ms'') \<mapsto> t1),
      nc_symbolLookup := (nc_symbolLookup c)(binance_hashBytes (map upper_char m) \<mapsto> t1)\<rparr>"
    using assms(8) av s1 m(1) by (simp add: binance_Register_def Let_def share)
  have c2: "c2 = c1\<lparr>nc_streamByID := (nc_streamByID c1)(t2 \<mapsto> m),
      nc_streamLookup := (nc_streamLookup c1)(binance_hashBytes m \<mapsto> t2),
      nc_symbolLookup := (nc_symbolLookup c1)(binance_hashBytes (map upper_char m) \<mapsto> t2)\<rparr>"
    using assms(9) av s2 m(1) by (simp add: binance_Register_def Let_def share)
  show "binance_lookupSymbol c2 (map upper_char (map lower_char (Symbol_String (Ingest_Symbol r1)))) = Some t2"
    unfolding m_def [symmetric] by (simp add: binance_lookupSymbol_def c2)
  assume "binance_Unregister (Some c2) t2 = Some c3"
  then have c3: "c3 = c2\<lparr>nc_streamByID := (nc_streamByID c2)(t2 := None),
      nc_streamLookup := (nc_streamLookup c2)(binance_hashBytes m := None),
      nc_symbolLookup := (nc_symbolLookup c2)(binance_hashBytes (map upper_char m) := None)\<rparr>"
    using m(1) by (simp add: binance_Unregister_def Let_def share c2)
  show "binance_lookupSymbol c3 (map upper_char (map lower_char (Symbol_String (Ingest_Symbol r1)))) = None
      \<and> nc_streamByID c3 t1 = Some (map lower_char (Symbol_String (Ingest_Symbol r1)) @ ''@depth@100ms'')"
    unfolding m_def [symmetric] using assms(7) by (simp add: binance_lookupSymbol_def c3 c2 c1)
qed

end
