(* ===== verification/Payload_Types.thy ===== *)
theory Payload_Types
  imports Binance_Laws Btcc_Payload_Laws
begin

section \<open>The types of decoded payloads\<close>

text \<open>
  Both codecs read what an exchange sends. Whatever the payload is, a decoder that returns a struct returns one
  whose fields have their Go types: integers in the range of \<open>int64\<close>, arrays of their fixed lengths, decimals
  of a scale between 0 and 18 in an order, row counts that index the arrays. The rules of the collection
  \<open>typing\<close> say that each assignment of the decoders keeps the type, so each decoder is typed by applying them.
\<close>

named_theorems typing

definition decimal_typed :: "Decimal \<Rightarrow> bool" where
  "decimal_typed d \<longleftrightarrow> in_int64 (Integer d) \<and> 0 \<le> Scale d \<and> Scale d \<le> 18"

text \<open>What a decoded order book and a decoded order are, for the topic they were decoded for.\<close>

definition depth_typed :: "Platform \<Rightarrow> Symbol \<Rightarrow> int \<Rightarrow> Depth \<Rightarrow> bool" where
  "depth_typed platform symbol now d \<longleftrightarrow> wf_Depth d
     \<and> Depth_Symbol d = symbol \<and> Depth_Platform d = platform \<and> Depth_RecvTsNano d = now
     \<and> 0 \<le> Depth_BidsLength d \<and> Depth_BidsLength d \<le> 128 \<and> 0 \<le> Depth_AsksLength d \<and> Depth_AsksLength d \<le> 128
     \<and> 0 < Depth_BidsLength d + Depth_AsksLength d"

definition order_typed :: "Platform \<Rightarrow> Symbol \<Rightarrow> int \<Rightarrow> Order \<Rightarrow> bool" where
  "order_typed platform symbol now d \<longleftrightarrow> in_int64 (Order_ID d) \<and> wf_Symbol (Order_Symbol d)
     \<and> in_int64 (Order_EventTsNano d) \<and> in_int64 (Order_UpdatedTime d) \<and> in_int64 (Order_RecvTsNano d)
     \<and> decimal_typed (Order_Price d) \<and> decimal_typed (Order_Quantity d) \<and> decimal_typed (Order_LeftQuantity d)
     \<and> wf_Str64 (Order_Source d)
     \<and> Order_Symbol d = symbol \<and> Order_Platform d = platform \<and> Order_RecvTsNano d = now"

lemma order_typed_wf: "order_typed platform symbol now d \<Longrightarrow> wf_Order d"
  by (auto simp: order_typed_def wf_Order_def decimal_typed_def wf_Decimal_def in_int64_def)

lemma order_typed_zero [typing]:
  "wf_Symbol symbol \<Longrightarrow> in_int64 now \<Longrightarrow>
     order_typed platform symbol now (zero_Order\<lparr>Order_Symbol := symbol, Order_Platform := platform, Order_RecvTsNano := now\<rparr>)"
  by (simp add: order_typed_def zero_Order_def decimal_typed_def zero_Decimal_def wf_Str64_def in_int64_def)

text \<open>The assignments.\<close>

lemma order_typed_update [typing]:
  assumes "order_typed platform symbol now d"
  shows "in_int64 v \<Longrightarrow> order_typed platform symbol now (d\<lparr>Order_ID := v\<rparr>)"
    and "in_int64 v \<Longrightarrow> order_typed platform symbol now (d\<lparr>Order_EventTsNano := v\<rparr>)"
    and "in_int64 v \<Longrightarrow> order_typed platform symbol now (d\<lparr>Order_UpdatedTime := v\<rparr>)"
    and "decimal_typed x \<Longrightarrow> order_typed platform symbol now (d\<lparr>Order_Price := x\<rparr>)"
    and "decimal_typed x \<Longrightarrow> order_typed platform symbol now (d\<lparr>Order_Quantity := x\<rparr>)"
    and "decimal_typed x \<Longrightarrow> order_typed platform symbol now (d\<lparr>Order_LeftQuantity := x\<rparr>)"
    and "order_typed platform symbol now (d\<lparr>Order_Side := s\<rparr>)"
    and "order_typed platform symbol now (d\<lparr>Order_Type := ty\<rparr>)"
    and "order_typed platform symbol now (d\<lparr>Order_Status := st\<rparr>)"
    and "order_typed platform symbol now (d\<lparr>Order_TimeInForce := tf\<rparr>)"
    and "order_typed platform symbol now (d\<lparr>Order_Source := copy_into (Order_Source d) src\<rparr>)"
  using assms by (auto simp: order_typed_def wf_Str64_def)

lemma when_some_typed [typing]:
  assumes "order_typed platform symbol now d" "\<And>v. r = Some v \<Longrightarrow> order_typed platform symbol now (f v d)"
  shows "order_typed platform symbol now (when_some r f d)"
  using assms by (simp add: when_some_def split: option.split)

lemma opt_update_typed [typing]:
  assumes "order_typed platform symbol now d" "\<And>v. r = Some v \<Longrightarrow> order_typed platform symbol now (f v d)"
  shows "order_typed platform symbol now (opt_update r f d)"
  using assms by (simp add: opt_update_def split: option.split)

subsection \<open>Fields\<close>

lemma decimalSub_typed [typing]:
  assumes "decimal_typed a" "decimal_typed b"
  shows "decimal_typed (btcc_decimalSub a b)"
proof -
  have "in_int64 0" by (simp add: in_int64_def)
  then show ?thesis using assms by (simp add: btcc_decimalSub_def decimal_typed_def Let_def split: option.split)
qed

lemma parseJSONInt_typed: "btcc_parseJSONInt raw = Some v \<Longrightarrow> in_int64 v"
  using parseInt_in_int64 by (auto simp: btcc_parseJSONInt_def split: option.splits prod.splits) (metis fst_conv)

lemma parseJSONInt_digits:
  "n < 2 ^ 63 \<Longrightarrow> btcc_unquote (dec_nat n) = Some (dec_nat n) \<Longrightarrow> btcc_parseJSONInt (dec_nat n) = Some (int n)"
  by (simp add: btcc_parseJSONInt_def parseInt_dec_nat)

lemma parseJSONTimestamp_typed [typing]: "btcc_parseJSONTimestamp env raw = Some v \<Longrightarrow> in_int64 v"
  using f64_to_int64_range by (auto simp: btcc_parseJSONTimestamp_def split: option.splits if_splits)

lemma btcc_int_field_typed [typing]: "btcc_int_field v key = Some n \<Longrightarrow> in_int64 n"
  by (auto simp: btcc_int_field_def bind_eq_Some_conv dest: parseJSONInt_typed)

lemma btcc_time_field_typed [typing]: "btcc_time_field env v key = Some n \<Longrightarrow> in_int64 n"
  by (auto simp: btcc_time_field_def bind_eq_Some_conv dest: parseJSONTimestamp_typed)

lemma btcc_parse_typed [typing]: "btcc_ok (btcc_parseDecimal t) = Some d \<Longrightarrow> decimal_typed d"
  using btcc_reader.parse_bounds by (auto simp: btcc_ok_def decimal_typed_def split: sum.splits)

lemma btcc_decimal_field_typed [typing]: "btcc_decimal_field v key = Some d \<Longrightarrow> decimal_typed d"
  by (auto simp: btcc_decimal_field_def bind_eq_Some_conv dest: btcc_parse_typed)

lemma binance_decimal_field_typed: "binance_decimal_field p key = Inr (Some d) \<Longrightarrow> decimal_typed d"
  using binance_reader.parse_bounds
  by (auto simp: binance_decimal_field_def decimal_typed_def split: option.splits sum.splits)

lemma btcc_left_quantity_typed [typing]:
  assumes "order_typed platform symbol now d" "\<And>q. qty = Some q \<Longrightarrow> decimal_typed q"
  shows "order_typed platform symbol now (btcc_left_quantity v qty d)"
proof -
  have "order_typed platform symbol now (when_some (btcc_ok (btcc_parseDecimal t)) (\<lambda>x o'. o'\<lparr>Order_LeftQuantity := x\<rparr>) d)" for t
    by (intro when_some_typed order_typed_update btcc_parse_typed assms(1)) auto
  moreover have "order_typed platform symbol now (d\<lparr>Order_LeftQuantity := btcc_decimalSub q x\<rparr>)"
    if "btcc_ok (btcc_parseDecimal t) = Some x" "qty = Some q" for t x q
    using assms that by (auto intro!: order_typed_update decimalSub_typed intro: btcc_parse_typed)
  ultimately show ?thesis using assms(1) by (simp add: btcc_left_quantity_def split: option.split)
qed

subsection \<open>The decoders\<close>

lemma option_typed:
  assumes "r = None \<Longrightarrow> P a" "\<And>v. r = Some v \<Longrightarrow> P (f v)"
  shows "P (case r of None \<Rightarrow> a | Some v \<Rightarrow> f v)"
  using assms by (cases r) simp_all

lemma accepted_typed: "(if c then Inl e else Inr x) = Inr d \<Longrightarrow> P x \<Longrightarrow> P d"
  by (simp split: if_splits)

lemma accepted_go_typed: "(if c then Ret (Inl e) else Ret (Inr x)) = Ret (Inr d) \<Longrightarrow> P x \<Longrightarrow> P d"
  by (simp split: if_splits)

lemma decodeBtccOrder_typed:
  assumes "decodeBtccOrder env p spare symbol = Ret (Inr d)" "wf_Symbol symbol" "in_int64 (go_now env)"
  shows "order_typed PlatformBTCC symbol (go_now env) d"
proof -
  have stamp: "order_typed pl s now (if Order_UpdatedTime x = 0 then x\<lparr>Order_UpdatedTime := Order_EventTsNano x\<rparr> else x)"
    if "order_typed pl s now x" for pl s now x
    using that by (auto simp: order_typed_def)
  note typed = order_typed_zero [OF assms(2,3)] order_typed_update when_some_typed stamp btcc_left_quantity_typed
  obtain status where status: "btcc_scanParamsInt p spare 0 = Ret status"
    using assms(1) by (auto simp: decodeBtccOrder_def Let_def go_bind_Ret_iff)
  obtain r where r: "btcc_scanParamsValue p spare 1 = Ret r"
    using assms(1) by (auto simp: decodeBtccOrder_def Let_def go_bind_Ret_iff)
  obtain v where v: "r = Some v" using assms(1) status r by (cases r) (simp_all add: decodeBtccOrder_def Let_def)
  show ?thesis
    by (rule accepted_go_typed [OF assms(1) [unfolded decodeBtccOrder_def Let_def status r v go_bind.simps option.case]])
      (intro typed; auto dest: btcc_int_field_typed btcc_time_field_typed btcc_decimal_field_typed)
qed

lemma decodeBinanceOrder_typed:
  assumes "decodeBinanceOrder now p symbol = Inr d" "wf_Symbol symbol" "in_int64 now"
  shows "order_typed PlatformBinance symbol now d"
proof -
  have left: "decimal_typed (binance_decimalSub q c)" if "decimal_typed q" "decimal_typed c" for q c
    unfolding binance_decimalSub_eq by (rule decimalSub_typed [OF that])
  have stamp: "order_typed pl s now (if Order_EventTsNano x \<noteq> 0 then x\<lparr>Order_UpdatedTime := Order_EventTsNano x\<rparr> else x)"
    if "order_typed pl s now x" for pl s now x
    using that by (auto simp: order_typed_def)
  note cases = option_typed [where P = "order_typed PlatformBinance symbol now"] option_typed [where P = decimal_typed]
  note typed = order_typed_zero [OF assms(2,3)] order_typed_update opt_update_typed stamp left wrap64_range millis_to_nano_range
  obtain qty price cum where q: "binance_decimal_field p (quoted_name ''q'') = Inr qty"
    "binance_decimal_field p (quoted_name ''p'') = Inr price" "binance_decimal_field p (quoted_name ''z'') = Inr cum"
    using assms(1) unfolding decodeBinanceOrder_def Let_def by (simp split: sum.splits)
  show ?thesis
    by (rule accepted_typed [OF assms(1) [unfolded decodeBinanceOrder_def Let_def q sum.case]])
      (intro typed cases; use q in \<open>auto dest: binance_decimal_field_typed\<close>)
qed

lemma zero_rows_typed: "list_all wf_DepthRow (replicate 128 zero_DepthRow)"
  by (simp add: list_all_iff wf_DepthRow_def wf_Decimal_def zero_DepthRow_def zero_Decimal_def in_int64_def)

lemma decodeBtccDepth_typed:
  assumes "decodeBtccDepth env p spare symbol = Ret (Inr d)" "wf_Symbol symbol" "in_int64 (go_now env)"
  shows "depth_typed PlatformBTCC symbol (go_now env) d"
proof -
  let ?z = "replicate 128 zero_DepthRow"
  obtain r where r: "btcc_scanParamsValue p spare 1 = Ret r"
    using assms(1) by (auto simp: decodeBtccDepth_def Let_def go_bind_Ret_iff)
  obtain book where book: "r = Some book" using assms(1) r by (cases r) (simp_all add: decodeBtccDepth_def Let_def)
  obtain bs b bo where b: "btcc_scanDepthSide book (quoted_key ''bids'') ?z = (bs, b, bo)" by (metis surj_pair)
  obtain as' a ao where a: "btcc_scanDepthSide book (quoted_key ''asks'') ?z = (as', a, ao)" by (metis surj_pair)
  obtain t where "in_int64 t" "0 < (if bo then b else 0) + (if ao then a else 0)"
    and "d = zero_Depth\<lparr>Depth_Symbol := symbol, Depth_Platform := PlatformBTCC, Depth_RecvTsNano := go_now env,
      Depth_EventTsNano := t, Depth_Bids := bs, Depth_Asks := as', Depth_BidsLength := int (if bo then b else 0),
      Depth_AsksLength := int (if ao then a else 0)\<rparr>"
  proof (cases "Option.bind (btcc_scanNumberField book (quoted_key ''time'')) (btcc_parseJSONTimestamp env)")
    case None
    then show thesis using assms(1) r book that [of 0]
      by (auto simp: decodeBtccDepth_def zero_Depth_def b a Let_def in_int64_def split: if_splits option.splits)
  next
    case (Some t)
    then show thesis using assms(1) r book that [of t] parseJSONTimestamp_typed [of env _ t]
      by (auto simp: decodeBtccDepth_def zero_Depth_def b a Let_def bind_eq_Some_conv split: if_splits)
  qed
  then show ?thesis
    using btcc_side_ok [OF zero_rows_typed, of book "quoted_key ''bids''"]
      btcc_side_ok [OF zero_rows_typed, of book "quoted_key ''asks''"] assms(2,3) b a
    by (cases bo; cases ao) (auto simp: depth_typed_def wf_Depth_def rows_ok_def in_int64_def)
qed

lemma decodeBinanceDepth_typed:
  assumes "decodeBinanceDepth now p symbol = Inr d" "wf_Symbol symbol" "in_int64 now"
  shows "depth_typed PlatformBinance symbol now d"
proof -
  have "Depth_Symbol d = symbol \<and> Depth_Platform d = PlatformBinance \<and> Depth_RecvTsNano d = now"
    "\<not> (Depth_BidsLength d = 0 \<and> Depth_AsksLength d = 0)"
    using assms(1) by (auto simp: decodeBinanceDepth_def Let_def split: if_splits prod.splits option.splits)
  with decodeBinanceDepth_wf [OF assms] show ?thesis by (auto simp: depth_typed_def)
qed

subsection \<open>What is handed on\<close>

definition payload_typed :: "Platform \<Rightarrow> Topic \<Rightarrow> Symbol \<Rightarrow> int \<Rightarrow> byte list \<Rightarrow> bool" where
  "payload_typed platform topic symbol now bytes \<longleftrightarrow>
     (topic = TopicDepth \<and> length bytes = Depth_SizeInByte \<and> depth_typed platform symbol now (Depth_Decode bytes))
     \<or> (topic = TopicOrder \<and> length bytes = Order_SizeInByte \<and> order_typed platform symbol now (Order_Decode bytes))"

lemma depth_payload_typed:
  "depth_typed platform symbol now d \<Longrightarrow> payload_typed platform TopicDepth symbol now (Depth_Encode pad d [])"
  using depth_codable.decode_encode [of d pad "[]" "[]"] depth_codable.encode_size [of d pad "[]"]
  by (simp add: payload_typed_def depth_typed_def Depth_Encode_def Depth_Decode_def)

lemma order_payload_typed:
  "order_typed platform symbol now d \<Longrightarrow> payload_typed platform TopicOrder symbol now (Order_Encode pad d [])"
  using order_codable.decode_encode [of d pad "[]" "[]"] order_codable.encode_size [of d pad "[]"]
    order_typed_wf [of platform symbol now d]
  by (simp add: payload_typed_def Order_Encode_def Order_Decode_def)

lemma go_bind_Inr:
  "go_bind m (\<lambda>r. case r of Inl e \<Rightarrow> Ret (Inl e) | Inr d \<Rightarrow> Ret (Inr (f d))) = Ret (Inr b) \<longleftrightarrow> (\<exists>d. m = Ret (Inr d) \<and> f d = b)"
  by (cases m) (auto split: sum.splits)

lemma btcc_payload_typed:
  assumes "btcc_DecodeMarketDataPayload env pad topic symbol p spare = Ret (Inr bytes)"
    and "wf_Symbol symbol" "in_int64 (go_now env)"
  shows "payload_typed PlatformBTCC topic symbol (go_now env) bytes"
  using assms(1) decodeBtccDepth_typed [OF _ assms(2,3), of p spare] decodeBtccOrder_typed [OF _ assms(2,3), of p spare]
    depth_payload_typed [of PlatformBTCC symbol "go_now env"] order_payload_typed [of PlatformBTCC symbol "go_now env"]
  by (auto simp: btcc_DecodeMarketDataPayload_def decodeBtccPayload_def go_bind_Inr split: if_splits)

lemma binance_payload_typed:
  assumes "binance_DecodeMarketDataPayload now pad topic symbol p = Inr bytes" "wf_Symbol symbol" "in_int64 now"
  shows "payload_typed PlatformBinance topic symbol now bytes"
  using assms(1) decodeBinanceDepth_typed [OF _ assms(2,3), of p] decodeBinanceOrder_typed [OF _ assms(2,3), of p]
    depth_payload_typed [of PlatformBinance symbol now] order_payload_typed [of PlatformBinance symbol now]
  by (auto simp: binance_DecodeMarketDataPayload_def decodeBinancePayload_def split: if_splits sum.splits)

end
