(* ===== verification/Market_Properties.thy ===== *)
theory Market_Properties
  imports Btcc_Laws Btcc_Json Btcc_Payload_Laws Binance_Laws Adapter_Codable Payload_Types
begin

section \<open>Properties of the wire structs and of the two exchange adapters\<close>

text \<open>
  The theorems about \<open>libs/adapter\<close>, \<open>libs/shared/scanner\<close> and the packages
  \<open>bundle/internal/ingest/btcc\<close> and \<open>\<dots>/binance\<close>. Each is an instance, over the model's own
  definitions, of the lemmas of the component theories and of the locale interpretations there;
  the closed theorem after it applies it to a concrete input.
\<close>

subsection \<open>Decimal numbers\<close>

text \<open>C9: \<open>parseDecimal\<close> accepts exactly an optional minus sign, digits and at most one dot followed by
  digits (at most 18 of them, the scaled integer part within int64; at least one character in all),
  and returns the number read with the number of fraction digits as its scale.\<close>

theorem btcc_parseDecimal_iff:
  "btcc_parseDecimal src = Inr d \<longleftrightarrow> src \<noteq> [] \<and> (\<exists>sg ip dot fp. sign_ok sg \<and> dec_parts ip dot fp
     \<and> src = sg @ dec_body ip dot fp \<and> dec_fits ip fp \<and> d = dec_value sg ip fp)"
  by (rule btcc_reader.parse_iff)

text \<open>C10: a decimal whose scale is between 0 and 18 and whose integer is not the smallest int64 is
  read back by both exchanges' \<open>parseDecimal\<close> from the text \<open>Decimal.AppendBytes\<close> writes.\<close>

theorem decimal_text_roundtrip:
  assumes "0 \<le> Scale d" "Scale d \<le> 18" "\<bar>Integer d\<bar> \<le> maxInt64"
  shows "btcc_parseDecimal (Decimal_AppendBytes d buf) = Inr d
    \<and> binance_parseDecimal (Decimal_AppendBytes d buf) = Inr d"
  using btcc_reader.parse_append [OF assms] binance_reader.parse_append [OF assms] by blast

theorem decimal_text_roundtrip_witness:
  "btcc_parseDecimal (Decimal_AppendBytes \<lparr>Integer = - 4210500, Scale = 5\<rparr> ''x'') = Inr \<lparr>Integer = - 4210500, Scale = 5\<rparr>
    \<and> binance_parseDecimal (Decimal_AppendBytes \<lparr>Integer = - 4210500, Scale = 5\<rparr> ''x'') = Inr \<lparr>Integer = - 4210500, Scale = 5\<rparr>"
  by (rule decimal_text_roundtrip) (simp_all add: maxInt64_def)



text \<open>\<open>decimalSub\<close> is exact at the finer of the two scales whenever both operands can be rescaled
  and the difference fits int64, and is zero at that scale when one cannot be rescaled.\<close>

lemma decimalSub_spec:
  assumes "0 \<le> Scale a" "0 \<le> Scale b" "s = max (Scale a) (Scale b)" "s \<le> maxInt64"
    and "in_int64 (Integer a * 10 ^ nat (s - Scale a) - Integer b * 10 ^ nat (s - Scale b))"
  shows "binance_decimalSub a b =
    (if rescale_fits a s \<and> rescale_fits b s
     then \<lparr>Integer = Integer a * 10 ^ nat (s - Scale a) - Integer b * 10 ^ nat (s - Scale b), Scale = s\<rparr>
     else \<lparr>Integer = 0, Scale = s\<rparr>)"
  using binance_sub.sub_exact [OF assms(1-4)] binance_sub.sub_overflow [OF assms(1-4)] assms(5) by simp

lemma decimalSub_spec_witness:
  "binance_decimalSub \<lparr>Integer = 15, Scale = 1\<rparr> \<lparr>Integer = 25, Scale = 2\<rparr> = \<lparr>Integer = 125, Scale = 2\<rparr>"
  using decimalSub_spec [of "\<lparr>Integer = 15, Scale = 1\<rparr>" "\<lparr>Integer = 25, Scale = 2\<rparr>" 2]
  by (simp add: maxInt64_def in_int64_def rescale_fits_def)

subsection \<open>Fixed-size structs\<close>

text \<open>C13: the depth, order, order request and ingest request structs survive \<open>Encode\<close> and \<open>Decode\<close>
  whatever their padding bytes are, into any destination buffer and with any bytes after them; the
  encoding has the size \<open>SizeInByte\<close> gives.\<close>

theorem structs_roundtrip:
  assumes "wf_Depth d" "wf_Order q" "wf_OrderRequest r" "wf_IngestRequest i"
  shows "(Depth_Decode (Depth_Encode pad d dst @ rest) = d \<and> length (Depth_Encode pad d dst) = Depth_SizeInByte)
    \<and> (Order_Decode (Order_Encode pad q dst @ rest) = q \<and> length (Order_Encode pad q dst) = Order_SizeInByte)
    \<and> (OrderRequest_Decode (OrderRequest_Encode pad r dst @ rest) = r
      \<and> length (OrderRequest_Encode pad r dst) = OrderRequest_SizeInByte)
    \<and> (IngestRequest_Decode (IngestRequest_Encode pad i dst @ rest) = i
      \<and> length (IngestRequest_Encode pad i dst) = IngestRequest_SizeInByte)"
  unfolding Depth_Decode_def Depth_Encode_def Order_Decode_def Order_Encode_def OrderRequest_Decode_def
    OrderRequest_Encode_def IngestRequest_Decode_def IngestRequest_Encode_def
  by (intro conjI depth_codable.decode_encode depth_codable.encode_size order_codable.decode_encode
    order_codable.encode_size request_codable.decode_encode request_codable.encode_size
    ingest_codable.decode_encode ingest_codable.encode_size assms)

theorem structs_roundtrip_witness:
  "Depth_Decode (Depth_Encode (\<lambda>_. 7) (zero_Depth\<lparr>Depth_BidsLength := - 3\<rparr>) [1, 2] @ [9]) = zero_Depth\<lparr>Depth_BidsLength := - 3\<rparr>"
proof -
  have "wf_Depth (zero_Depth\<lparr>Depth_BidsLength := - 3\<rparr>)"
    using wf_zero_Depth by (simp add: wf_Depth_def in_int64_def del: wf_zero_Depth)
  moreover have "wf_Order zero_Order" by code_simp
  moreover have "wf_OrderRequest \<lparr>Request_Intent = \<lparr>Intent_Symbol = NewSymbol ''A'' ''B'' [], Intent_Platform = 1,
      Intent_Action = 1, Intent_Type = 1, Intent_Side = 1, Intent_Price = zero_Decimal, Intent_Quantity = zero_Decimal,
      Intent_TimeInForce = 1, Intent_CreatedTime = 5, Intent_ID = NewStr64 ''1'', Intent_ClientOrderID = NewStr64 ''2'',
      Intent_Source = NewStr64 ''s''\<rparr>, Request_Token = NewToken ''k'' ''t''\<rparr>" by code_simp
  moreover have "wf_IngestRequest \<lparr>Ingest_Platform = 1, Ingest_Topic = 1, Ingest_Symbol = NewSymbol ''A'' ''B'' [],
      Ingest_APIKey = NewStr64 []\<rparr>" by code_simp
  ultimately show ?thesis using structs_roundtrip by blast
qed

text \<open>A symbol of ASCII base and quote decodes to both, cut at 16 bytes, and its text is their
  concatenation, whatever the memo.\<close>

lemma symbol_roundtrip:
  assumes "ascii base" "ascii quote"
  shows "Symbol_Decode (NewSymbol base quote memo) = (take 16 base, take 16 quote, [])
    \<and> Symbol_String (NewSymbol base quote memo) = take 16 base @ take 16 quote"
  using assms by (simp add: Symbol_Decode_New Symbol_String_New)

lemma symbol_roundtrip_witness:
  "Symbol_Decode (NewSymbol ''BTC'' ''USDT'' [''PERP'']) = (''BTC'', ''USDT'', [])"
proof -
  have "ascii ''BTC''" "ascii ''USDT''" by code_simp+
  then show ?thesis using symbol_roundtrip [of "''BTC''" "''USDT''" "[''PERP'']"] by simp
qed

text \<open>Symbols of ASCII names within 16 bytes differ exactly when base or quote differ, but their
  texts, by which topics are keyed and markets named, are equal as soon as the concatenations are:
  AB/C and A/BC have the same text.\<close>

lemma symbol_text_collisions:
  assumes "ascii b" "ascii q" "ascii b'" "ascii q'" "length b \<le> 16" "length q \<le> 16" "length b' \<le> 16" "length q' \<le> 16"
  shows "(NewSymbol b q m = NewSymbol b' q' m' \<longleftrightarrow> b = b' \<and> q = q')
    \<and> (Symbol_String (NewSymbol b q m) = Symbol_String (NewSymbol b' q' m') \<longleftrightarrow> b @ q = b' @ q')"
proof
  have d: "Symbol_Decode (NewSymbol b q m) = (b, q, [])" "Symbol_Decode (NewSymbol b' q' m') = (b', q', [])"
    using assms by (simp_all add: Symbol_Decode_New)
  have memo: "NewSymbol b q m = NewSymbol b q m'" using assms(1,2) by (simp only: NewSymbol_ascii)
  show "NewSymbol b q m = NewSymbol b' q' m' \<longleftrightarrow> b = b' \<and> q = q'"
    using d memo by (metis prod.inject)
  show "Symbol_String (NewSymbol b q m) = Symbol_String (NewSymbol b' q' m') \<longleftrightarrow> b @ q = b' @ q'"
    using assms by (simp add: Symbol_String_New)
qed

lemma symbol_text_collisions_witness:
  "Symbol_String (NewSymbol ''AB'' ''C'' []) = Symbol_String (NewSymbol ''A'' ''BC'' [])
    \<and> NewSymbol ''AB'' ''C'' [] \<noteq> NewSymbol ''A'' ''BC'' []"
proof -
  have "ascii ''AB''" "ascii ''C''" "ascii ''A''" "ascii ''BC''" by code_simp+
  then have "(NewSymbol ''AB'' ''C'' [] = NewSymbol ''A'' ''BC'' [] \<longleftrightarrow> ''AB'' = ''A'' \<and> ''C'' = ''BC'')
      \<and> (Symbol_String (NewSymbol ''AB'' ''C'' []) = Symbol_String (NewSymbol ''A'' ''BC'' []) \<longleftrightarrow> ''AB'' @ ''C'' = ''A'' @ ''BC'')"
    by (rule symbol_text_collisions) simp_all
  then show ?thesis by simp
qed

text \<open>\<open>Depth.Debug\<close> of a depth with asks shows only the quantity of the last ask: each decimal is
  appended to the buffer cut to length zero.\<close>

lemma Depth_Debug_truncates:
  assumes "0 < clip_length (Depth_AsksLength d) (Depth_Asks d)"
  shows "Depth_Debug d = Decimal_AppendBytes
    (Quantity (Depth_Asks d ! (clip_length (Depth_AsksLength d) (Depth_Asks d) - 1))) [] @ '')]}''"
  unfolding Depth_Debug_def Let_def appendDepthSide_rows [OF assms] by simp

lemma Depth_Debug_truncates_witness:
  "Depth_Debug (zero_Depth\<lparr>Depth_AsksLength := 1,
     Depth_Asks := \<lparr>Price = \<lparr>Integer = 7, Scale = 0\<rparr>, Quantity = \<lparr>Integer = 15, Scale = 1\<rparr>\<rparr> # replicate 127 zero_DepthRow\<rparr>)
     = ''1.5)]}''"
  by (subst Depth_Debug_truncates) (simp add: clip_length_def, code_simp)

subsection \<open>Scanning fields\<close>

text \<open>\<open>ScanStringField\<close> finds a text exactly when the first occurrence of the key is followed, up to
  the next colon and white space, by a quoted text without inner quotes; it returns that text.\<close>

lemma string_field_iff:
  "ScanStringField p key = Some v \<longleftrightarrow>
     key \<noteq> [] \<and> (\<exists>pre gap sp post.
       p = pre @ key @ gap @ '':'' @ sp @ [CHR 0x22] @ v @ [CHR 0x22] @ post
       \<and> first_at p key pre \<and> CHR '':'' \<notin> set gap \<and> list_all is_space sp \<and> CHR 0x22 \<notin> set v)"
  by (rule ScanStringField_iff)

text \<open>\<open>ScanUintField\<close> finds a number exactly when the first occurrence of the key is followed, up to
  the next colon and white space, by a digit; it returns the value of the digits modulo \<open>2 ^ 64\<close>.\<close>

lemma uint_field_iff:
  "ScanUintField p key = Some n \<longleftrightarrow>
     key \<noteq> [] \<and> (\<exists>pre gap sp ds rest.
       p = pre @ key @ gap @ '':'' @ sp @ ds @ rest \<and> first_at p key pre
       \<and> CHR '':'' \<notin> set gap \<and> list_all is_space sp \<and> ds \<noteq> [] \<and> list_all is_digit ds
       \<and> (rest = [] \<or> \<not> is_digit (hd rest)) \<and> n = of_nat (dec_val ds))"
  by (rule ScanUintField_iff)

text \<open>C19: \<open>scanParamsValue\<close> returns the text of the \<open>k\<close>-th element of the first \<open>params\<close> array, for every
  array of nested JSON values with escaped strings, and nothing when the array has no such element.\<close>

theorem params_value_render:
  assumes "p = pre @ quoted_key ''params'' @ '':['' @ commas (map render vs) @ CHR '']'' # post"
    and "first_at p (quoted_key ''params'') pre" "list_all json_ok vs"
  shows "btcc_scanParamsValue p spare (int k) = Ret (if k < length vs then Some (render (vs ! k)) else None)"
  using assms by (rule scanParamsValue_render)

theorem params_value_render_witness:
  "btcc_scanParamsValue (''{'' @ quoted_key ''params'' @ '':[true,{'' @ jquote ''a'' @ '':[1,2]},'' @ jquote ''B]'' @ '']}'') [] 2
     = Ret (Some (jquote ''B]''))"
proof -
  let ?vs = "[JRaw ''true'', JObj [(map Plain ''a'', JArr [JRaw ''1'', JRaw ''2''])], JStr (map Plain ''B]'')]"
  let ?p = "''{'' @ quoted_key ''params'' @ '':['' @ commas (map render ?vs) @ CHR '']'' # ''}''"
  have "first_at ?p (quoted_key ''params'') ''{''" by code_simp
  moreover have "list_all json_ok ?vs" by code_simp
  ultimately have "btcc_scanParamsValue ?p [] (int 2) = Ret (Some (render (?vs ! 2)))"
    using params_value_render [of ?p "''{''" ?vs "''}''" "[]" 2] by simp
  moreover have "?p = ''{'' @ quoted_key ''params'' @ '':[true,{'' @ jquote ''a'' @ '':[1,2]},'' @ jquote ''B]'' @ '']}''"
     by code_simp
  moreover have "render (?vs ! 2) = jquote ''B]''" by code_simp
  ultimately show ?thesis by simp
qed



text \<open>A whole number below \<open>2 ^ 63\<close>, plain or quoted, is read back by \<open>parseJSONInt\<close> from its decimal
  text, and every value \<open>parseJSONInt\<close> returns is an int64.\<close>

lemma json_int_roundtrip:
  assumes "n < 2 ^ 63"
  shows "btcc_parseJSONInt (dec_nat n) = Some (int n) \<and> btcc_parseJSONInt (CHR 0x22 # dec_nat n @ [CHR 0x22]) = Some (int n)
    \<and> (\<forall>raw v. btcc_parseJSONInt raw = Some v \<longrightarrow> in_int64 v)"
  using parseJSONInt_dec_nat [OF assms] parseJSONInt_quoted [OF assms] parseJSONInt_range by blast

lemma json_int_roundtrip_witness: "btcc_parseJSONInt (dec_nat 42) = Some 42"
  using json_int_roundtrip [of 42] by simp

text \<open>\<open>parseJSONTimestamp\<close> takes a whole number above \<open>10 ^ 12\<close> as milliseconds and returns exact
  nanoseconds; a smaller one is seconds, converted through float64, and is exact as long as the
  product fits the 53 bits of the mantissa.\<close>

lemma timestamp_units:
  "(10 ^ 12 < n \<and> n * 1000000 < 2 ^ 63 \<longrightarrow> btcc_parseJSONTimestamp env (dec_nat n) = Some (int n * 1000000))
    \<and> (0 < n \<and> n * 5 ^ 9 < 2 ^ 53 \<longrightarrow> btcc_parseJSONTimestamp env (dec_nat n) = Some (int n * 1000000000))"
  using timestamp_millis timestamp_seconds by blast

lemma timestamp_units_witness:
  "btcc_parseJSONTimestamp \<lparr>go_now = 0, parseFloat_other = (\<lambda>_. None), int64_other = (\<lambda>_. 0)\<rparr> (dec_nat 1700000000123) = Some 1700000000123000000"
  using timestamp_units [of 1700000000123] by simp

subsection \<open>Order books\<close>

text \<open>C11: \<open>decodeBinanceDepth\<close> reads the rows of the arrays \<open>b\<close> and \<open>a\<close> in order, at most 128 of each, with
  the event time of \<open>E\<close> in nanoseconds, as long as one side has a row.\<close>

theorem binance_depth_rows:
  assumes "has_side p (quoted_name ''b'') bids" "has_side p (quoted_name ''a'') asks"
    and "list_all row_ok bids" "list_all row_ok asks" "bids \<noteq> [] \<or> asks \<noteq> []"
    and "binance_scanUintField p (quoted_name ''E'') = Some ms"
  shows "decodeBinanceDepth now p symbol = Inr (zero_Depth\<lparr>Depth_Symbol := symbol,
    Depth_Platform := PlatformBinance, Depth_RecvTsNano := now, Depth_EventTsNano := millis_to_nano ms,
    Depth_Bids := store_rows (replicate 128 zero_DepthRow) 0 bids, Depth_BidsLength := int (min (length bids) 128),
    Depth_Asks := store_rows (replicate 128 zero_DepthRow) 0 asks, Depth_AsksLength := int (min (length asks) 128)\<rparr>)"
  using assms by (rule decodeBinanceDepth_rows)

theorem binance_depth_rows_witness:
  "decodeBinanceDepth 5 (''{'' @ quoted_name ''E'' @ '':7,''
       @ side_text (quoted_name ''b'') [(\<lparr>Integer = 15, Scale = 1\<rparr>, \<lparr>Integer = 2, Scale = 0\<rparr>)]
       @ '','' @ side_text (quoted_name ''a'') [] @ ''}'') (NewSymbol ''BTC'' ''USDT'' []) =
    Inr (zero_Depth\<lparr>Depth_Symbol := NewSymbol ''BTC'' ''USDT'' [],
      Depth_Platform := PlatformBinance, Depth_RecvTsNano := 5, Depth_EventTsNano := 7000000,
      Depth_Bids := store_rows (replicate 128 zero_DepthRow) 0 [(\<lparr>Integer = 15, Scale = 1\<rparr>, \<lparr>Integer = 2, Scale = 0\<rparr>)],
      Depth_BidsLength := 1, Depth_Asks := store_rows (replicate 128 zero_DepthRow) 0 [], Depth_AsksLength := 0\<rparr>)"
proof -
  let ?row = "(\<lparr>Integer = 15, Scale = 1\<rparr>, \<lparr>Integer = 2, Scale = 0\<rparr>) :: Decimal \<times> Decimal"
  let ?pre = "''{'' @ quoted_name ''E'' @ '':7,''"
  let ?pre2 = "?pre @ side_text (quoted_name ''b'') [?row] @ '',''"
  let ?p = "?pre2 @ side_text (quoted_name ''a'') [] @ ''}''"
  have f1: "first_at ?p (quoted_name ''b'') ?pre" by code_simp
  have f2: "first_at ?p (quoted_name ''a'') ?pre2" by code_simp
  have b: "has_side ?p (quoted_name ''b'') [?row]"
    unfolding has_side_def using f1
    by (intro exI [of _ ?pre] exI [of _ "'','' @ side_text (quoted_name ''a'') [] @ ''}''"]) simp
  have a: "has_side ?p (quoted_name ''a'') []"
    unfolding has_side_def using f2 by blast
  have e: "binance_scanUintField ?p (quoted_name ''E'') = Some 7" by code_simp
  have m: "millis_to_nano 7 = 7000000" by code_simp
  have r: "list_all row_ok [?row]" by code_simp
  show ?thesis
    using binance_depth_rows [OF b a r _ _ e, of 5 "NewSymbol ''BTC'' ''USDT'' []"] by (simp add: m)
qed

text \<open>C12: what \<open>DecodeMarketDataPayload\<close> hands on for a depth topic of Binance is the encoding of the decoded
  book, of \<open>Depth\<close>'s size, which a consumer decodes to the same book; its row counts are between 0 and
  128. A payload that does not decode is an error and hands on nothing.\<close>

theorem binance_payload_depth_roundtrip:
  assumes "wf_Symbol symbol" "in_int64 now" "p \<noteq> []"
  shows "case decodeBinanceDepth now p symbol of
      Inl e \<Rightarrow> binance_DecodeMarketDataPayload now pad TopicDepth symbol p = Inl e
    | Inr d \<Rightarrow> 0 \<le> Depth_BidsLength d \<and> Depth_BidsLength d \<le> 128 \<and> 0 \<le> Depth_AsksLength d \<and> Depth_AsksLength d \<le> 128
        \<and> (\<exists>bytes. binance_DecodeMarketDataPayload now pad TopicDepth symbol p = Inr bytes
            \<and> length bytes = Depth_SizeInByte \<and> Depth_Decode bytes = d)"
proof (cases "decodeBinanceDepth now p symbol")
  case (Inl e)
  then show ?thesis using assms(3)
    by (simp add: binance_DecodeMarketDataPayload_def decodeBinancePayload_def Topic_IsAvailable_def TopicDepth_def)
next
  case (Inr d)
  then have b: "binance_DecodeMarketDataPayload now pad TopicDepth symbol p = Inr (Depth_Encode pad d [])"
    using assms(3) by (simp add: binance_DecodeMarketDataPayload_def decodeBinancePayload_def Topic_IsAvailable_def TopicDepth_def)
  with binance_payload_depth [OF b assms(1,2)] decodeBinanceDepth_wf(2-5) [OF Inr assms(1,2)] Inr
  show ?thesis by simp
qed

theorem binance_payload_depth_roundtrip_witness:
  "\<exists>bytes. binance_DecodeMarketDataPayload 5 (\<lambda>_. 0) TopicDepth (NewSymbol ''BTC'' ''USDT'' [])
      (''{'' @ side_text (quoted_name ''b'') [(\<lparr>Integer = 15, Scale = 1\<rparr>, \<lparr>Integer = 2, Scale = 0\<rparr>)] @ ''}'') = Inr bytes
    \<and> length bytes = 8264"
proof -
  let ?p = "''{'' @ side_text (quoted_name ''b'') [(\<lparr>Integer = 15, Scale = 1\<rparr>, \<lparr>Integer = 2, Scale = 0\<rparr>)] @ ''}''"
  have w: "wf_Symbol (NewSymbol ''BTC'' ''USDT'' [])" "in_int64 5" "?p \<noteq> []" by (simp_all add: in_int64_def)
  have "\<not> isl (decodeBinanceDepth 5 ?p (NewSymbol ''BTC'' ''USDT'' []))" by code_simp
  with binance_payload_depth_roundtrip [OF w, of "\<lambda>_. 0"] show ?thesis
    by (auto split: sum.splits)
qed

text \<open>C20: \<open>decodeBtccDepth\<close> rejects an order book whose bids and asks begin with a row written as a JSON
  array of two values, such as ["1.5","2"]: \<open>scanNextValue\<close> does not step over the comma between price
  and quantity, so no row is read and the payload is invalid.\<close>

theorem btcc_depth_comma_rejected:
  assumes "btcc_scanParamsValue payload spare 1 = Ret (Some book)"
    and "comma_side book (quoted_key ''bids'') \<or> \<not> sublist (quoted_key ''bids'') book"
    and "comma_side book (quoted_key ''asks'') \<or> \<not> sublist (quoted_key ''asks'') book"
  shows "decodeBtccDepth env payload spare symbol = Ret (Inl Btcc_ErrInvalidPayload)"
  using assms by (rule decodeBtccDepth_comma)

theorem btcc_depth_comma_rejected_witness:
  "decodeBtccDepth \<lparr>go_now = 0, parseFloat_other = (\<lambda>_. None), int64_other = (\<lambda>_. 0)\<rparr>
     (''{'' @ quoted_key ''params'' @ '':['' @ ''true,'' @ ''{'' @ quoted_key ''bids'' @ '':[['' @ jquote ''1.5'' @ '',''
       @ jquote ''2'' @ '']]},'' @ jquote ''BTCUSDT'' @ '']}'') [] (NewSymbol ''BTC'' ''USDT'' [])
     = Ret (Inl Btcc_ErrInvalidPayload)"
proof -
  let ?book = "''{'' @ quoted_key ''bids'' @ '':[['' @ jquote ''1.5'' @ '','' @ jquote ''2'' @ '']]}''"
  let ?p = "''{'' @ quoted_key ''params'' @ '':['' @ ''true,'' @ ''{'' @ quoted_key ''bids'' @ '':[['' @ jquote ''1.5'' @ '',''
       @ jquote ''2'' @ '']]},'' @ jquote ''BTCUSDT'' @ '']}''"
  have v: "btcc_scanParamsValue ?p [] 1 = Ret (Some ?book)" by code_simp
  have b: "comma_side ?book (quoted_key ''bids'')"
  proof -
    have "first_at ?book (quoted_key ''bids'') ''{''" by code_simp
    moreover have "price_text (jquote ''1.5'') ''1.5''" by code_simp
    ultimately show ?thesis unfolding comma_side_def
      by (intro exI [of _ "''{''"] exI [of _ "jquote ''1.5''"] exI [of _ "''1.5''"] exI [of _ "jquote ''2'' @ '']]}''"]) simp
  qed
  have a: "\<not> sublist (quoted_key ''asks'') ?book" by code_simp
  show ?thesis by (rule btcc_depth_comma_rejected [OF v disjI1 [OF b] disjI2 [OF a]])
qed

text \<open>With the two values of each row separated by a blank instead, \<open>scanDepthSide\<close> of BTCC reads
  all rows of the array in order, as many as fit.\<close>

lemma btcc_side_blank_rows:
  assumes "p = pre @ key @ CHR '':'' # CHR ''['' # commas (map btcc_row_text ds) @ CHR '']'' # post"
    and "first_at p key pre" "key \<noteq> []" "list_all row_ok ds"
  shows "btcc_scanDepthSide p key rows = (store_rows rows 0 ds, min (length ds) (length rows), True)"
  using assms by (rule scanDepthSide_blank_rows)

lemma btcc_side_blank_rows_witness:
  "btcc_scanDepthSide (''{'' @ jquote ''bids'' @ '':['' @ btcc_row_text (\<lparr>Integer = 15, Scale = 1\<rparr>, \<lparr>Integer = 2, Scale = 0\<rparr>) @ '']}'')
     (jquote ''bids'') [zero_DepthRow, zero_DepthRow]
     = ([\<lparr>Price = \<lparr>Integer = 15, Scale = 1\<rparr>, Quantity = \<lparr>Integer = 2, Scale = 0\<rparr>\<rparr>, zero_DepthRow], 1, True)"
proof -
  let ?ds = "[(\<lparr>Integer = 15, Scale = 1\<rparr>, \<lparr>Integer = 2, Scale = 0\<rparr>)] :: (Decimal \<times> Decimal) list"
  let ?p = "''{'' @ jquote ''bids'' @ CHR '':'' # CHR ''['' # commas (map btcc_row_text ?ds) @ CHR '']'' # ''}''"
  have f: "first_at ?p (jquote ''bids'') ''{''" by code_simp
  have r: "list_all row_ok ?ds" "jquote ''bids'' \<noteq> []" by code_simp+
  show ?thesis
    using btcc_side_blank_rows [OF refl f r(2,1), of "[zero_DepthRow, zero_DepthRow]"]
    by (simp add: store_rows_def mk_row_def)
qed

subsection \<open>The types of decoded payloads\<close>

text \<open>C14: whatever bytes an exchange sends, what \<open>DecodeMarketDataPayload\<close> of either codec hands on without an
  error is the encoding of a well-typed struct of the topic: it has the size of \<open>Depth\<close> or \<open>Order\<close>, names the
  platform, symbol and time it was decoded for, its integers are in the range of \<open>int64\<close>; a book has row
  counts between 0 and 128, not both 0, and an order has decimals of a scale between 0 and 18.\<close>

theorem decoded_payloads_typed:
  assumes "wf_Symbol symbol" "in_int64 (go_now env)"
  shows "(btcc_DecodeMarketDataPayload env pad topic symbol payload spare = Ret (Inr bytes)
      \<longrightarrow> payload_typed PlatformBTCC topic symbol (go_now env) bytes)
    \<and> (binance_DecodeMarketDataPayload (go_now env) pad topic symbol payload = Inr bytes
      \<longrightarrow> payload_typed PlatformBinance topic symbol (go_now env) bytes)"
  using btcc_payload_typed binance_payload_typed assms by blast

text \<open>An order of 2.50 with the id 7.\<close>

definition demo_order_text :: string where
  "demo_order_text = ''{'' @ quoted_key ''id'' @ '':7,'' @ quoted_key ''amount'' @ '':'' @ quoted_key ''2.50'' @ ''}''"

definition demo_order :: string where
  "demo_order = ''{'' @ quoted_key ''params'' @ '':[1,'' @ demo_order_text @ '']}''"

definition demo_env :: go_env where
  "demo_env = \<lparr>go_now = 5, parseFloat_other = (\<lambda>_. None), int64_other = (\<lambda>_. 0)\<rparr>"

lemma demo_order_decoded:
  obtains d where "decodeBtccOrder demo_env demo_order [] symbol = Ret (Inr d)" "Order_ID d = 7"
    "Order_Quantity d = \<lparr>Integer = 250, Scale = 2\<rparr>"
proof -
  let ?v = demo_order_text
  have parts: "btcc_scanParamsValue demo_order [] 0 = Ret (Some (dec_nat 1))" "btcc_unquote (dec_nat 1) = Some (dec_nat 1)"
    "btcc_scanParamsValue demo_order [] 1 = Ret (Some ?v)"
    "btcc_scanNumberField ?v (quoted_key ''id'') = Some (dec_nat 7)" "btcc_unquote (dec_nat 7) = Some (dec_nat 7)"
    by code_simp+
  have fields: "btcc_int_field ?v (quoted_key ''side'') = None" "btcc_int_field ?v (quoted_key ''type'') = None"
    "btcc_int_field ?v (quoted_key ''option'') = None" "btcc_decimal_field ?v (quoted_key ''price'') = None"
    "btcc_decimal_field ?v (quoted_key ''amount'') = Some \<lparr>Integer = 250, Scale = 2\<rparr>"
    "btcc_scanNumberField ?v (quoted_key ''left'') = None" "btcc_scanNumberField ?v (quoted_key ''deal_stock'') = None"
    "btcc_time_field demo_env ?v (quoted_key ''ctime'') = None" "btcc_time_field demo_env ?v (quoted_key ''mtime'') = None"
    by code_simp+
  have "btcc_parseJSONInt (dec_nat 1) = Some 1" "btcc_int_field ?v (quoted_key ''id'') = Some 7"
    using parseJSONInt_digits [of 1] parseJSONInt_digits [of 7] parts by (simp_all add: btcc_int_field_def)
  then show thesis using that parts fields
    by (simp add: decodeBtccOrder_def btcc_scanParamsInt_def Let_def when_some_def btcc_left_quantity_def)
qed

theorem decoded_payloads_typed_witness:
  "\<exists>bytes. btcc_DecodeMarketDataPayload demo_env (\<lambda>_. 0) TopicOrder (NewSymbol ''BTC'' ''USDT'' []) demo_order [] = Ret (Inr bytes)
    \<and> payload_typed PlatformBTCC TopicOrder (NewSymbol ''BTC'' ''USDT'' []) 5 bytes"
proof -
  let ?s = "NewSymbol ''BTC'' ''USDT'' []"
  obtain d where "decodeBtccOrder demo_env demo_order [] ?s = Ret (Inr d)" by (rule demo_order_decoded)
  then have e: "btcc_DecodeMarketDataPayload demo_env (\<lambda>_. 0) TopicOrder ?s demo_order [] = Ret (Inr (Order_Encode (\<lambda>_. 0) d []))"
    by (simp add: btcc_DecodeMarketDataPayload_def decodeBtccPayload_def Topic_IsAvailable_iff demo_order_def)
  have "go_now demo_env = 5" "in_int64 5" by (simp_all add: demo_env_def in_int64_def)
  with decoded_payloads_typed [of ?s demo_env "\<lambda>_. 0" TopicOrder demo_order "[]"] show ?thesis using e by simp
qed

end
