(* ===== verification/Codec_Laws.thy ===== *)
theory Codec_Laws
  imports Btcc_Laws Binance_Laws
begin

section \<open>What the ingest layer needs of a codec\<close>

text \<open>
  \<open>platformCodec\<close> of \<open>bundle/internal/ingest/usecase.go\<close> is the interface both exchange codecs implement.
  The locale \<open>codec_tables\<close> states what its registration methods promise: which topics are known after each
  of them, and that the codec's own consistency predicate is kept. Both codecs are instances; the codecs
  reachable by registering fresh topics, unregistering and authenticating are \<open>codec_reach\<close>.
\<close>

inductive codec_reach ::
  "'c \<Rightarrow> ('c option \<Rightarrow> TopicID \<Rightarrow> IngestRequest \<Rightarrow> 'c option \<times> codec_error option)
     \<Rightarrow> ('c option \<Rightarrow> TopicID \<Rightarrow> 'c option)
     \<Rightarrow> ('c option \<Rightarrow> TopicID \<Rightarrow> string \<Rightarrow> u64 \<Rightarrow> 'c option \<times> codec_error option)
     \<Rightarrow> ('c \<Rightarrow> TopicID \<Rightarrow> bool) \<Rightarrow> 'c \<Rightarrow> bool"
  for new reg unreg auth known where
  fresh: "codec_reach new reg unreg auth known new"
| register: "codec_reach new reg unreg auth known c \<Longrightarrow> \<not> known c t \<Longrightarrow> reg (Some c) t req = (Some c', e) \<Longrightarrow>
    codec_reach new reg unreg auth known c'"
| unregister: "codec_reach new reg unreg auth known c \<Longrightarrow> unreg (Some c) t = Some c' \<Longrightarrow>
    codec_reach new reg unreg auth known c'"
| authenticate: "codec_reach new reg unreg auth known c \<Longrightarrow> auth (Some c) t key reqID = (Some c', e) \<Longrightarrow>
    codec_reach new reg unreg auth known c'"

locale codec_tables =
  fixes new :: 'c
    and reg :: "'c option \<Rightarrow> TopicID \<Rightarrow> IngestRequest \<Rightarrow> 'c option \<times> codec_error option"
    and unreg :: "'c option \<Rightarrow> TopicID \<Rightarrow> 'c option"
    and auth :: "'c option \<Rightarrow> TopicID \<Rightarrow> string \<Rightarrow> u64 \<Rightarrow> 'c option \<times> codec_error option"
    and known :: "'c \<Rightarrow> TopicID \<Rightarrow> bool"
    and ok :: "'c \<Rightarrow> bool"
  assumes ok_new: "ok new"
    and known_new: "\<not> known new t"
    and ok_reg: "ok c \<Longrightarrow> \<not> known c t \<Longrightarrow> reg (Some c) t req = (Some c', e) \<Longrightarrow> ok c'"
    and known_reg: "reg (Some c) t req = (r, e) \<Longrightarrow> \<exists>c'. r = Some c' \<and> (known c' u \<longleftrightarrow> known c u \<or> u = t \<and> e = None)"
    and ok_unreg: "ok c \<Longrightarrow> unreg (Some c) t = Some c' \<Longrightarrow> ok c'"
    and known_unreg: "\<exists>c'. unreg (Some c) t = Some c' \<and> (known c' u \<longleftrightarrow> known c u \<and> u \<noteq> t)"
    and ok_auth: "ok c \<Longrightarrow> auth (Some c) t key reqID = (Some c', e) \<Longrightarrow> ok c'"
    and known_auth: "auth (Some c) t key reqID = (r, e) \<Longrightarrow> \<exists>c'. r = Some c' \<and> known c' u = known c u"
begin

lemma reach_ok: "codec_reach new reg unreg auth known c \<Longrightarrow> ok c"
  by (induction rule: codec_reach.induct) (auto intro: ok_new ok_reg ok_unreg ok_auth)

end

definition btcc_known :: "btcc_codec \<Rightarrow> TopicID \<Rightarrow> bool" where
  "btcc_known c t \<longleftrightarrow> bc_topicsByID c t \<noteq> None"

definition binance_known :: "binance_codec \<Rightarrow> TopicID \<Rightarrow> bool" where
  "binance_known c t \<longleftrightarrow> nc_streamByID c t \<noteq> None"

interpretation btcc_tables: codec_tables btcc_NewCodec btcc_Register btcc_Unregister btcc_RegisterAuth btcc_known btcc_codec_ok
proof
  show "btcc_codec_ok btcc_NewCodec" by (rule btcc_codec_ok_New)
  show "\<not> btcc_known btcc_NewCodec t" for t by (simp add: btcc_known_def btcc_NewCodec_def)
  show "btcc_codec_ok c \<Longrightarrow> \<not> btcc_known c t \<Longrightarrow> btcc_Register (Some c) t req = (Some c', e) \<Longrightarrow> btcc_codec_ok c'"
    for c c' t req e using btcc_codec_ok_Register by (simp add: btcc_known_def)
  show "\<exists>c'. r = Some c' \<and> (btcc_known c' u \<longleftrightarrow> btcc_known c u \<or> u = t \<and> e = None)"
    if "btcc_Register (Some c) t req = (r, e)" for c t req r e u
    using that by (auto simp: btcc_Register_def btcc_known_def Let_def split: sum.splits if_splits)
  show "btcc_codec_ok c \<Longrightarrow> btcc_Unregister (Some c) t = Some c' \<Longrightarrow> btcc_codec_ok c'" for c c' t
    by (rule btcc_codec_ok_Unregister)
  show "\<exists>c'. btcc_Unregister (Some c) t = Some c' \<and> (btcc_known c' u \<longleftrightarrow> btcc_known c u \<and> u \<noteq> t)" for c t u
    by (auto simp: btcc_Unregister_def btcc_known_def Let_def split: option.splits)
  show "btcc_codec_ok c \<Longrightarrow> btcc_RegisterAuth (Some c) t key reqID = (Some c', e) \<Longrightarrow> btcc_codec_ok c'"
    for c c' t key reqID e by (rule btcc_codec_ok_RegisterAuth)
  show "\<exists>c'. r = Some c' \<and> btcc_known c' u = btcc_known c u"
    if "btcc_RegisterAuth (Some c) t key reqID = (r, e)" for c t key reqID r e u
    using that by (auto simp: btcc_RegisterAuth_def btcc_known_def split: option.splits prod.splits)
qed

interpretation binance_tables: codec_tables binance_NewCodec "binance_Register low" binance_Unregister binance_RegisterAuth
  binance_known binance_codec_ok
proof
  show "binance_codec_ok binance_NewCodec" by (rule binance_codec_ok_New)
  show "\<not> binance_known binance_NewCodec t" for t by (simp add: binance_known_def binance_NewCodec_def)
  show "binance_codec_ok c \<Longrightarrow> \<not> binance_known c t \<Longrightarrow> binance_Register low (Some c) t req = (Some c', e) \<Longrightarrow> binance_codec_ok c'"
    for c c' t req e using binance_codec_ok_Register by (simp add: binance_known_def)
  show "\<exists>c'. r = Some c' \<and> (binance_known c' u \<longleftrightarrow> binance_known c u \<or> u = t \<and> e = None)"
    if "binance_Register low (Some c) t req = (r, e)" for c t req r e u
    using that by (auto simp: binance_Register_def binance_known_def Let_def split: sum.splits if_splits)
  show "binance_codec_ok c \<Longrightarrow> binance_Unregister (Some c) t = Some c' \<Longrightarrow> binance_codec_ok c'" for c c' t
    by (rule binance_codec_ok_Unregister)
  show "\<exists>c'. binance_Unregister (Some c) t = Some c' \<and> (binance_known c' u \<longleftrightarrow> binance_known c u \<and> u \<noteq> t)" for c t u
    by (auto simp: binance_Unregister_def binance_known_def Let_def split: option.splits if_splits)
  show "binance_codec_ok c \<Longrightarrow> binance_RegisterAuth (Some c) t key reqID = (Some c', e) \<Longrightarrow> binance_codec_ok c'"
    for c c' t key reqID e
    by (auto simp: binance_RegisterAuth_def binance_codec_ok_def split: if_splits)
  show "\<exists>c'. r = Some c' \<and> binance_known c' u = binance_known c u"
    if "binance_RegisterAuth (Some c) t key reqID = (r, e)" for c t key reqID r e u
    using that by (auto simp: binance_RegisterAuth_def binance_known_def split: if_splits)
qed

end
