(* ===== verification/Codec_Properties.thy ===== *)
theory Codec_Properties
  imports Codec_Laws Btcc_Payload_Laws
begin

section \<open>Properties of the exchange codecs\<close>

text \<open>
  The theorems about the registration tables, the routing and the control messages of
  \<open>bundle/internal/ingest/btcc/codec.go\<close> and \<open>\<dots>/binance/codec.go\<close>.
\<close>

subsection \<open>Codecs\<close>

text \<open>C16: in every BTCC codec reached by registering fresh topics, unregistering and authenticating, the
  depth table only names topics registered as depth and the order table only topics registered as
  order, each under the hash of the topic's own market.\<close>

theorem btcc_lookup_registered:
  assumes "codec_reach btcc_NewCodec btcc_Register btcc_Unregister btcc_RegisterAuth btcc_known c"
  shows "(btcc_lookupDepth c market = Some t \<longrightarrow> (\<exists>m. bc_topicsByID c t = Some m
      \<and> meta_kind m \<noteq> topicKindOrder \<and> btcc_hashBytes (meta_market m) = btcc_hashBytes market))
    \<and> (btcc_lookupOrder c market = Some t \<longrightarrow> (\<exists>m. bc_topicsByID c t = Some m
      \<and> meta_kind m = topicKindOrder \<and> btcc_hashBytes (meta_market m) = btcc_hashBytes market))"
  using btcc_tables.reach_ok [OF assms]
  unfolding btcc_codec_ok_def btcc_lookupDepth_def btcc_lookupOrder_def by blast

theorem btcc_lookup_registered_witness:
  "let c = the (fst (btcc_Register (Some btcc_NewCodec) 7 \<lparr>Ingest_Platform = PlatformBTCC, Ingest_Topic = TopicDepth,
      Ingest_Symbol = NewSymbol ''BTC'' ''USDT'' [], Ingest_APIKey = NewStr64 []\<rparr>))
   in btcc_lookupDepth c ''BTCUSDT'' = Some 7 \<and> (\<exists>m. bc_topicsByID c 7 = Some m \<and> meta_kind m \<noteq> topicKindOrder)"
proof -
  let ?req = "\<lparr>Ingest_Platform = PlatformBTCC, Ingest_Topic = TopicDepth, Ingest_Symbol = NewSymbol ''BTC'' ''USDT'' [],
      Ingest_APIKey = NewStr64 []\<rparr>"
  let ?r = "btcc_Register (Some btcc_NewCodec) 7 ?req"
  have k: "\<not> btcc_known btcc_NewCodec 7" by (rule btcc_tables.known_new)
  have l: "btcc_lookupDepth (the (fst ?r)) ''BTCUSDT'' = Some 7" by code_simp
  obtain c e where c: "?r = (Some c, e)"
    using btcc_tables.known_reg [OF prod.collapse [symmetric]] by (metis prod.collapse)
  note lc = l [unfolded c fst_conv option.sel]
  have "codec_reach btcc_NewCodec btcc_Register btcc_Unregister btcc_RegisterAuth btcc_known c"
    using codec_reach.fresh k c by (rule codec_reach.register)
  from btcc_lookup_registered [OF this] lc
  show ?thesis unfolding c Let_def fst_conv option.sel by blast
qed

text \<open>C17: the same of Binance: the stream and symbol tables only name registered topics, under the hash of
  the topic's own stream or of its upper-case market.\<close>

theorem binance_lookup_registered:
  assumes "codec_reach binance_NewCodec (binance_Register low) binance_Unregister binance_RegisterAuth binance_known c"
  shows "(binance_lookupStream c name = Some t \<longrightarrow>
      (\<exists>s. nc_streamByID c t = Some s \<and> binance_hashBytes s = binance_hashBytes name))
    \<and> (binance_lookupSymbol c name = Some t \<longrightarrow>
      (\<exists>s. nc_streamByID c t = Some s \<and> binance_hashBytes (parseSymbolUpper s) = binance_hashBytes name))"
  using binance_tables.reach_ok [OF assms]
  unfolding binance_codec_ok_def binance_lookupStream_def binance_lookupSymbol_def by blast

theorem binance_lookup_registered_witness:
  "let c = the (fst (binance_Register (\<lambda>s. s) (Some binance_NewCodec) 7 \<lparr>Ingest_Platform = PlatformBinance, Ingest_Topic = TopicDepth,
      Ingest_Symbol = NewSymbol ''BTC'' ''USDT'' [], Ingest_APIKey = NewStr64 []\<rparr>))
   in binance_lookupSymbol c ''BTCUSDT'' = Some 7 \<and> (\<exists>s. nc_streamByID c 7 = Some s)"
proof -
  let ?req = "\<lparr>Ingest_Platform = PlatformBinance, Ingest_Topic = TopicDepth, Ingest_Symbol = NewSymbol ''BTC'' ''USDT'' [],
      Ingest_APIKey = NewStr64 []\<rparr>"
  let ?r = "binance_Register (\<lambda>s. s) (Some binance_NewCodec) 7 ?req"
  have k: "\<not> binance_known binance_NewCodec 7" by (rule binance_tables.known_new)
  have l: "binance_lookupSymbol (the (fst ?r)) ''BTCUSDT'' = Some 7" by code_simp
  obtain c e where c: "?r = (Some c, e)"
    using binance_tables.known_reg [OF prod.collapse [symmetric]] by (metis prod.collapse)
  note lc = l [unfolded c fst_conv option.sel]
  have "codec_reach binance_NewCodec (binance_Register (\<lambda>s. s)) binance_Unregister binance_RegisterAuth binance_known c"
    using codec_reach.fresh k c by (rule codec_reach.register)
  from binance_lookup_registered [OF this] lc
  show ?thesis unfolding c Let_def fst_conv option.sel by blast
qed

text \<open>C18: after registering a depth topic, a \<open>depth.update\<close> whose third parameter is the topic's market is
  routed to it by \<open>DecodeTopic\<close>.\<close>

theorem btcc_routes_depth:
  assumes "btcc_Register (Some c) t req = (Some c', None)" "Ingest_Topic req = TopicDepth"
    and "\<not> btcc_isAuthAck c' payload"
    and "ScanStringField payload (quoted_key ''method'') = Some ''depth.update''"
    and "btcc_scanParamsValue payload spare 2 = Ret (Some (jquote (Symbol_String (Ingest_Symbol req))))"
    and "plain_text (Symbol_String (Ingest_Symbol req))"
  shows "btcc_DecodeTopic (Some c') payload spare = Ret (Some t)"
  using assms by (rule btcc_route_depth)

theorem btcc_routes_depth_witness:
  "btcc_DecodeTopic (fst (btcc_Register (Some btcc_NewCodec) 7 \<lparr>Ingest_Platform = PlatformBTCC, Ingest_Topic = TopicDepth,
      Ingest_Symbol = NewSymbol ''BTC'' ''USDT'' [], Ingest_APIKey = NewStr64 []\<rparr>))
    (''{'' @ quoted_key ''method'' @ '':'' @ quoted_key ''depth.update'' @ '','' @ quoted_key ''params'' @ '':[true,{},''
       @ jquote ''BTCUSDT'' @ '']}'') [] = Ret (Some 7)"
proof -
  let ?req = "\<lparr>Ingest_Platform = PlatformBTCC, Ingest_Topic = TopicDepth, Ingest_Symbol = NewSymbol ''BTC'' ''USDT'' [],
      Ingest_APIKey = NewStr64 []\<rparr>"
  let ?r = "btcc_Register (Some btcc_NewCodec) 7 ?req"
  let ?p = "''{'' @ quoted_key ''method'' @ '':'' @ quoted_key ''depth.update'' @ '','' @ quoted_key ''params'' @ '':[true,{},''
       @ jquote ''BTCUSDT'' @ '']}''"
  have "snd ?r = None" by code_simp
  then obtain c where c: "?r = (Some c, None)"
    using btcc_tables.known_reg [OF prod.collapse [symmetric]] by (metis prod.collapse)
  have "\<not> btcc_isAuthAck (the (fst ?r)) ?p" by code_simp
  with c have a: "\<not> btcc_isAuthAck c ?p" by simp
  have m: "ScanStringField ?p (quoted_key ''method'') = Some ''depth.update''" by code_simp
  have t: "Symbol_String (Ingest_Symbol ?req) = ''BTCUSDT''" by code_simp
  have v: "btcc_scanParamsValue ?p [] 2 = Ret (Some (jquote ''BTCUSDT''))" by code_simp
  have pt: "plain_text ''BTCUSDT''" by code_simp
  have d: "Ingest_Topic ?req = TopicDepth" by simp
  show ?thesis
    unfolding c fst_conv by (rule btcc_routes_depth [OF c d a m, unfolded t, OF v pt])
qed

text \<open>C21: Binance keys depth and order topics of one symbol alike in the symbol table: registering the order
  topic second takes the symbol over, and unregistering it leaves the depth topic registered but without
  a symbol entry, so its updates, which carry only the symbol, are no longer routed.\<close>

theorem binance_symbol_taken_over:
  assumes "Ingest_Topic r1 = TopicDepth" "Ingest_Topic r2 = TopicOrder" "Ingest_Symbol r2 = Ingest_Symbol r1"
    and "ascii (Symbol_String (Ingest_Symbol r1))" "Symbol_String (Ingest_Symbol r1) \<noteq> []"
    and "CHR 0x40 \<notin> set (map lower_char (Symbol_String (Ingest_Symbol r1)))" "t1 \<noteq> t2"
    and "binance_Register low (Some c) t1 r1 = (Some c1, None)"
    and "binance_Register low (Some c1) t2 r2 = (Some c2, None)"
    and "binance_Unregister (Some c2) t2 = Some c3"
    and "name = map upper_char (map lower_char (Symbol_String (Ingest_Symbol r1)))"
  shows "binance_lookupSymbol c2 name = Some t2 \<and> binance_lookupSymbol c3 name = None
    \<and> nc_streamByID c3 t1 = Some (map lower_char (Symbol_String (Ingest_Symbol r1)) @ ''@depth@100ms'')"
  unfolding assms(11)
  by (intro conjI binance_symbol_conflict(1) [OF assms(1-9)]
    conjunct1 [OF binance_symbol_conflict(2) [OF assms(1-10)]] conjunct2 [OF binance_symbol_conflict(2) [OF assms(1-10)]])

theorem binance_symbol_taken_over_witness:
  "\<exists>c2 c3. binance_lookupSymbol c2 ''BTCUSDT'' = Some 8 \<and> binance_Unregister (Some c2) 8 = Some c3
     \<and> binance_lookupSymbol c3 ''BTCUSDT'' = None \<and> nc_streamByID c3 7 = Some ''btcusdt@depth@100ms''"
proof -
  let ?req = "\<lambda>t. \<lparr>Ingest_Platform = PlatformBinance, Ingest_Topic = t, Ingest_Symbol = NewSymbol ''BTC'' ''USDT'' [],
      Ingest_APIKey = NewStr64 []\<rparr>"
  let ?r1 = "binance_Register (\<lambda>s. s) (Some binance_NewCodec) 7 (?req TopicDepth)"
  let ?r2 = "binance_Register (\<lambda>s. s) (fst ?r1) 8 (?req TopicOrder)"
  have "snd ?r1 = None" "snd ?r2 = None" by code_simp+
  then obtain c1 where c1: "?r1 = (Some c1, None)"
    using binance_tables.known_reg [OF prod.collapse [symmetric]] by (metis prod.collapse)
  with \<open>snd ?r2 = None\<close> obtain c2 where c2: "binance_Register (\<lambda>s. s) (Some c1) 8 (?req TopicOrder) = (Some c2, None)"
    using binance_tables.known_reg [OF prod.collapse [symmetric]] by (metis prod.collapse fst_conv)
  obtain c3 where c3: "binance_Unregister (Some c2) 8 = Some c3" using binance_tables.known_unreg by blast
  have t: "Symbol_String (NewSymbol ''BTC'' ''USDT'' []) = ''BTCUSDT''" by code_simp
  have lo: "map lower_char ''BTCUSDT'' = ''btcusdt''" "map upper_char ''btcusdt'' = ''BTCUSDT''" by code_simp+
  have a: "ascii ''BTCUSDT''" by code_simp
  have r: "Ingest_Topic (?req TopicDepth) = TopicDepth" "Ingest_Topic (?req TopicOrder) = TopicOrder"
      "Ingest_Symbol (?req TopicOrder) = Ingest_Symbol (?req TopicDepth)"
      "Symbol_String (Ingest_Symbol (?req TopicDepth)) = ''BTCUSDT''" using t by simp_all
  have n: "''BTCUSDT'' \<noteq> []" "CHR 0x40 \<notin> set ''btcusdt''" "(7 :: TopicID) \<noteq> 8" by simp_all
  show ?thesis
    using binance_symbol_taken_over [OF r(1-3), unfolded r(4) lo(1), OF a n c1 c2 c3 lo(2) [symmetric]] c3
    by (simp only: append.simps) blast
qed

text \<open>\<open>appendUint\<close> of both codecs writes the decimal text of the number, which fits its 20 byte array
  for every uint64 and differs for different numbers.\<close>

lemma appendUint_decimal:
  "btcc_appendUint dst v = dst @ dec_nat (unat v) \<and> binance_appendUint dst v = dst @ dec_nat (unat v)
    \<and> length (btcc_appendUint [] v) \<le> 20 \<and> (btcc_appendUint dst v = btcc_appendUint dst w \<longleftrightarrow> v = w)"
  using btcc_appendUint_fits [of v] btcc_appendUint_inj [of dst v w]
  by (simp only: btcc_appendUint_eq binance_appendUint_eq appendUint_def)

end
