(* ===== verification/Ws_Wire.thy ===== *)
theory Ws_Wire
  imports Ws_Types Go_Crypto
begin

section \<open>The websocket wire format\<close>

text \<open>
  \<open>libs/shared/websocket/dialer.go\<close>. A connection holds the bytes still to be read from the
  peer, the bytes written to it, the mask state and the pending read. \<open>io.ReadFull\<close> past the last
  byte is an error that consumes the rest; a write fails when the connection is broken. TCP, TLS,
  HTTP and the deadlines are outside. \<open>Read\<close> is one call of the method: it returns the bytes it
  put at the front of \<open>dst\<close>, whose length is the argument.
\<close>

definition opContinuation :: byte where [simp]: "opContinuation = 0"
definition opText :: byte where [simp]: "opText = 1"
definition opBinary :: byte where [simp]: "opBinary = 2"
definition opClose :: byte where [simp]: "opClose = 8"
definition opPing :: byte where [simp]: "opPing = 9"
definition opPong :: byte where [simp]: "opPong = 10"

definition maxPayloadLen :: nat where [simp]: "maxPayloadLen = 2147483647"

record pendingRead =
  pr_data :: "byte list"
  pr_msgType :: MessageType
  pr_fin :: bool
  pr_masked :: bool
  pr_maskKey :: "byte list"
  pr_payloadLen :: nat

record wsConn =
  wc_input :: "byte list"
  wc_output :: "byte list"
  wc_broken :: bool
  wc_mask :: u32
  wc_pending :: "pendingRead option"

record frame_header =
  fh_fin :: bool
  fh_opcode :: byte
  fh_masked :: bool
  fh_maskKey :: "byte list"
  fh_payloadLen :: nat

subsection \<open>Opcodes\<close>

definition messageTypeToOpcode :: "MessageType \<Rightarrow> byte" where
  "messageTypeToOpcode t =
     (if t = MessageText then opText else if t = MessageBinary then opBinary
      else if t = MessagePing then opPing else if t = MessagePong then opPong
      else if t = MessageClose then opClose else 0)"

definition opcodeToMessageType :: "byte \<Rightarrow> MessageType" where
  "opcodeToMessageType opcode =
     (if opcode = opText then MessageText else if opcode = opBinary then MessageBinary else 0)"

definition is_control :: "byte \<Rightarrow> bool" where
  [simp]: "is_control opcode \<longleftrightarrow> opcode = opPing \<or> opcode = opPong \<or> opcode = opClose"

subsection \<open>Masking\<close>

text \<open>\<open>dst[i] ^= maskKey[i&3]\<close>\<close>

definition apply_mask :: "byte list \<Rightarrow> byte list \<Rightarrow> byte list" where
  "apply_mask key bs = map (\<lambda>i. bs ! i XOR key ! (i mod 4)) [0..<length bs]"

definition nextMask :: "u32 \<Rightarrow> u32" where
  "nextMask m =
     (let m = m XOR push_bit 13 m;
          m = m XOR drop_bit 17 m;
          m = m XOR push_bit 5 m
      in if m = 0 then 0x9e3779b9 else m)"

definition seedMask :: "int \<Rightarrow> u32" where
  "seedMask now = (let n = word_of_int now in if n = 0 then 0x9e3779b9 else n)"

definition mask_key :: "u32 \<Rightarrow> byte list" where
  "mask_key m = [ucast m, ucast (drop_bit 8 m), ucast (drop_bit 16 m), ucast (drop_bit 24 m)]"

subsection \<open>Writing\<close>

text \<open>The bytes of the header from \<open>dst[1]\<close> on; \<open>dst[0]\<close> is set by the caller.\<close>

definition buildLengthHeader :: "nat \<Rightarrow> bool \<Rightarrow> byte list \<Rightarrow> byte list" where
  "buildLengthHeader payloadLen masked maskKey =
     (let (b, ext) = (if payloadLen \<le> 125 then (of_nat payloadLen, [])
                      else if payloadLen \<le> 0xffff then (126, enc_be 2 (int payloadLen))
                      else (127, enc_be 8 (int payloadLen)));
          b = (if masked then b OR 0x80 else b)
      in b # ext @ (if masked then take 4 maskKey else []))"

text \<open>The payload is masked in place: the caller's buffer is the second result.\<close>

definition writeFrame :: "wsConn \<Rightarrow> byte \<Rightarrow> byte list \<Rightarrow> wsConn \<times> byte list \<times> conn_error option" where
  "writeFrame c opcode payload =
     (let m = nextMask (wc_mask c);
          c = c\<lparr>wc_mask := m\<rparr>;
          key = mask_key m;
          header = (0x80 OR opcode) # buildLengthHeader (length payload) True key
      in if wc_broken c then (c, payload, Some errWrite)
         else
           let c = c\<lparr>wc_output := wc_output c @ header\<rparr>;
               masked = apply_mask key payload
           in (c\<lparr>wc_output := wc_output c @ masked\<rparr>, masked, None))"

definition wsConn_Write :: "wsConn \<Rightarrow> MessageType \<Rightarrow> byte list \<Rightarrow> wsConn \<times> byte list \<times> conn_error option" where
  "wsConn_Write c msgType payload =
     (let opcode = messageTypeToOpcode msgType in
      if opcode = 0 then (c, payload, Some errProtocol) else writeFrame c opcode payload)"

definition makeClosePayload :: "16 word \<Rightarrow> string \<Rightarrow> byte list" where
  "makeClosePayload code' reason =
     (if code' = 0 then []
      else let buf = enc_be 2 (uint code') in
        if reason = [] then buf else buf @ bytes_of reason)"

text \<open>\<open>Close\<close> writes a close frame, ignoring the error, and closes the socket: nothing passes any more.\<close>

definition wsConn_Close :: "wsConn \<Rightarrow> 16 word \<Rightarrow> string \<Rightarrow> wsConn" where
  "wsConn_Close c code' reason =
     (case writeFrame c opClose (makeClosePayload code' reason) of
        (c, _, _) \<Rightarrow> c\<lparr>wc_broken := True, wc_input := []\<rparr>)"

subsection \<open>Reading\<close>

definition readFull :: "wsConn \<Rightarrow> nat \<Rightarrow> wsConn \<times> (conn_error + byte list)" where
  "readFull c n =
     (if n \<le> length (wc_input c)
      then (c\<lparr>wc_input := drop n (wc_input c)\<rparr>, Inr (take n (wc_input c)))
      else (c\<lparr>wc_input := []\<rparr>, Inl EOF))"

definition readPayload :: "wsConn \<Rightarrow> nat \<Rightarrow> bool \<Rightarrow> byte list \<Rightarrow> wsConn \<times> (conn_error + byte list)" where
  "readPayload c n masked key =
     (case readFull c n of
        (c, Inl e) \<Rightarrow> (c, Inl e)
      | (c, Inr bs) \<Rightarrow> (c, Inr (if masked then apply_mask key bs else bs)))"

text \<open>The extended length: 16 or 64 bits, the latter without the sign bit and within \<open>maxPayloadLen\<close>.\<close>

definition readLength :: "wsConn \<Rightarrow> nat \<Rightarrow> wsConn \<times> (conn_error + nat)" where
  "readLength c len7 =
     (if len7 = 126 then
        (case readFull c 2 of
           (c, Inl e) \<Rightarrow> (c, Inl e)
         | (c, Inr ext) \<Rightarrow> (c, Inr (nat (dec_be ext))))
      else if len7 = 127 then
        (case readFull c 8 of
           (c, Inl e) \<Rightarrow> (c, Inl e)
         | (c, Inr ext) \<Rightarrow>
             if ext ! 0 AND 0x80 \<noteq> 0 then (c, Inl errProtocol)
             else if maxPayloadLen < nat (dec_be ext) then (c, Inl errFrameTooLarge)
             else (c, Inr (nat (dec_be ext))))
      else (c, Inr len7))"

definition readHeader :: "wsConn \<Rightarrow> wsConn \<times> (conn_error + frame_header)" where
  "readHeader c =
     (case readFull c 2 of
        (c, Inl e) \<Rightarrow> (c, Inl e)
      | (c, Inr header) \<Rightarrow>
          (let fin = (header ! 0 AND 0x80 \<noteq> 0) in
           if header ! 0 AND 0x70 \<noteq> 0 then (c, Inl errProtocol)
           else
             let opcode = header ! 0 AND 0x0f; masked = (header ! 1 AND 0x80 \<noteq> 0) in
             (case readLength c (unat (header ! 1 AND 0x7f)) of
                (c, Inl e) \<Rightarrow> (c, Inl e)
              | (c, Inr payloadLen) \<Rightarrow>
                  (case (if masked then readFull c 4 else (c, Inr (replicate 4 0))) of
                     (c, Inl e) \<Rightarrow> (c, Inl e)
                   | (c, Inr maskKey) \<Rightarrow>
                       if is_control opcode \<and> (\<not> fin \<or> 125 < payloadLen) then (c, Inl errProtocol)
                       else (c, Inr \<lparr>fh_fin = fin, fh_opcode = opcode, fh_masked = masked,
                                     fh_maskKey = maskKey, fh_payloadLen = payloadLen\<rparr>)))))"

text \<open>Progress: a header takes at least two bytes, so the loop of \<open>Read\<close> ends with its input.\<close>

lemma readFull_input: "readFull c n = (c', Inr bs) \<Longrightarrow>
    wc_input c = bs @ wc_input c' \<and> length bs = n \<and> c' = c\<lparr>wc_input := wc_input c'\<rparr>"
  by (auto simp: readFull_def split: if_splits)

lemma readLength_input: "readLength c l = (c', Inr n) \<Longrightarrow> length (wc_input c') \<le> length (wc_input c)"
  by (auto simp: readLength_def split: if_splits prod.splits sum.splits dest!: readFull_input)

lemma readHeader_input:
  assumes "readHeader c = (c', Inr h)"
  shows "length (wc_input c') + 2 \<le> length (wc_input c)"
proof -
  obtain c1 hd' where 1: "readFull c 2 = (c1, Inr hd')"
    using assms by (auto simp: readHeader_def split: prod.splits sum.splits)
  obtain c2 n where 2: "readLength c1 (unat (hd' ! 1 AND 0x7f)) = (c2, Inr n)"
    using assms 1 by (auto simp: readHeader_def Let_def split: prod.splits sum.splits if_splits)
  have "length (wc_input c') \<le> length (wc_input c2)"
    using assms 1 2 by (auto simp: readHeader_def Let_def split: prod.splits sum.splits if_splits dest!: readFull_input)
  then show ?thesis using readFull_input [OF 1] readLength_input [OF 2] by simp
qed

lemma writeFrame_input [simp]: "wc_input (fst (writeFrame c opcode payload)) = wc_input c"
  by (simp add: writeFrame_def Let_def)

definition stashPending :: "wsConn \<Rightarrow> byte list \<Rightarrow> MessageType \<Rightarrow> bool \<Rightarrow> bool \<Rightarrow> byte list \<Rightarrow> nat \<Rightarrow> wsConn" where
  [simp]: "stashPending c data msgType fin masked maskKey payloadLen =
     c\<lparr>wc_pending := Some \<lparr>pr_data = data, pr_msgType = msgType, pr_fin = fin, pr_masked = masked,
       pr_maskKey = maskKey, pr_payloadLen = payloadLen\<rparr>\<rparr>"

text \<open>\<open>acc\<close> is \<open>dst[:total]\<close>; the pong for a ping is written with its error ignored.\<close>

function read_loop :: "wsConn \<Rightarrow> nat \<Rightarrow> byte list \<Rightarrow> MessageType \<Rightarrow> wsConn \<times> (conn_error + byte list \<times> MessageType)" where
  "read_loop c dstLen acc msgType =
     (case readHeader c of
        (c, Inl e) \<Rightarrow> (c, Inl e)
      | (c, Inr h) \<Rightarrow>
          if is_control (fh_opcode h) then
            (if 125 < fh_payloadLen h then (c, Inl errProtocol)
             else case readPayload c (fh_payloadLen h) (fh_masked h) (fh_maskKey h) of
               (c, Inl e) \<Rightarrow> (c, Inl e)
             | (c, Inr ctrl) \<Rightarrow>
                 (let c = (if fh_opcode h = opPing then fst (writeFrame c opPong ctrl) else c) in
                  if fh_opcode h = opClose then (c, Inl EOF)
                  else read_loop c dstLen acc msgType))
          else
            let msgType = (if fh_opcode h \<noteq> opContinuation then opcodeToMessageType (fh_opcode h) else msgType) in
            if msgType = 0 then (c, Inl errProtocol)
            else if dstLen < length acc + fh_payloadLen h then
              (stashPending c acc msgType (fh_fin h) (fh_masked h) (fh_maskKey h) (fh_payloadLen h), Inl errFrameTooLarge)
            else case readPayload c (fh_payloadLen h) (fh_masked h) (fh_maskKey h) of
              (c, Inl e) \<Rightarrow> (c, Inl e)
            | (c, Inr bs) \<Rightarrow>
                if fh_fin h then (c, Inr (acc @ bs, msgType))
                else read_loop c dstLen (acc @ bs) msgType)"
  by pat_completeness auto
termination
proof (relation "measure (\<lambda>(c, dstLen, acc, msgType). length (wc_input c))", goal_cases)
  case (2 c dstLen acc msgType c1 r h c2 r2 ctrl c3)
  then have "length (wc_input c1) + 2 \<le> length (wc_input c)" using readHeader_input [of c c1 h] by auto
  moreover have "length (wc_input c2) \<le> length (wc_input c1)"
    using 2 by (auto simp: readPayload_def split: prod.splits sum.splits dest!: readFull_input)
  ultimately show ?case using 2 by auto
next
  case (3 c dstLen acc msgType c1 r h mt c2 r2 bs)
  then have "length (wc_input c1) + 2 \<le> length (wc_input c)" using readHeader_input [of c c1 h] by auto
  moreover have "length (wc_input c2) \<le> length (wc_input c1)"
    using 3 by (auto simp: readPayload_def split: prod.splits sum.splits dest!: readFull_input)
  ultimately show ?case by simp
qed simp

declare read_loop.simps [simp del]

definition wsConn_Read :: "wsConn \<Rightarrow> nat \<Rightarrow> wsConn \<times> (conn_error + byte list \<times> MessageType)" where
  "wsConn_Read c dstLen =
     (case wc_pending c of
        None \<Rightarrow> read_loop c dstLen [] 0
      | Some pending \<Rightarrow>
          if dstLen < length (pr_data pending) + pr_payloadLen pending then (c, Inl errFrameTooLarge)
          else
            let c = c\<lparr>wc_pending := None\<rparr> in
            case readPayload c (pr_payloadLen pending) (pr_masked pending) (pr_maskKey pending) of
              (c, Inl e) \<Rightarrow> (c, Inl e)
            | (c, Inr bs) \<Rightarrow>
                if pr_fin pending then (c, Inr (pr_data pending @ bs, pr_msgType pending))
                else read_loop c dstLen (pr_data pending @ bs) (pr_msgType pending))"

end
