(* ===== verification/Ws_Wire_Laws.thy ===== *)
theory Ws_Wire_Laws
  imports Ws_Wire
begin

section \<open>Laws of the wire format\<close>

text \<open>
  Masking is an involution and the mask is never zero; a header is read back as it was written;
  a message cut into fragments with control frames between them is reassembled; and a read that
  failed for lack of space gives, when repeated with a larger buffer, what the larger buffer
  would have given at once.
\<close>

subsection \<open>Masking\<close>

lemma length_apply_mask [simp]: "length (apply_mask key bs) = length bs"
  by (simp add: apply_mask_def)

lemma apply_mask_twice [simp]: "apply_mask key (apply_mask key bs) = bs"
  by (rule nth_equalityI) (simp_all add: apply_mask_def xor.assoc)

lemma nextMask_nonzero: "nextMask m \<noteq> 0"
  by (simp add: nextMask_def Let_def)

lemma seedMask_nonzero: "seedMask t \<noteq> 0"
  by (simp add: seedMask_def Let_def)

lemma length_mask_key [simp]: "length (mask_key m) = 4"
  by (simp add: mask_key_def)

subsection \<open>Headers\<close>

definition opcodes :: "byte list" where
  "opcodes = [opContinuation, opText, opBinary, opClose, opPing, opPong]"

definition first_byte :: "bool \<Rightarrow> byte \<Rightarrow> byte" where
  "first_byte fin opcode = (if fin then 0x80 OR opcode else opcode)"

lemma first_byte_fields:
  assumes "opcode \<in> set opcodes"
  shows "(first_byte fin opcode AND 0x80 \<noteq> 0) = fin" "first_byte fin opcode AND 0x70 = 0"
    "first_byte fin opcode AND 0x0f = opcode"
  using assms by (auto simp: opcodes_def first_byte_def)

lemma len_byte:
  assumes "n < 128"
  shows "unat ((of_nat n OR 0x80 :: byte) AND 0x7f) = n" "(of_nat n OR 0x80 :: byte) AND 0x80 \<noteq> 0"
    "unat ((of_nat n :: byte) AND 0x7f) = n" "(of_nat n :: byte) AND 0x80 = 0"
proof -
  let ?w = "of_nat n :: byte"
  have u: "unat ?w = n" using assms by (simp add: unat_of_nat)
  have m: "(0x7f :: byte) = mask 7" by (simp add: mask_eq_exp_minus_1)
  have t: "take_bit 7 ?w = ?w"
    using assms u by (simp add: word_unat_eq_iff unsigned_take_bit_eq take_bit_nat_eq_self)
  have b: "\<not> bit ?w 7" using t by (metis bit_take_bit_iff less_irrefl)
  have e: "(0x80 :: byte) = push_bit 7 1" by simp
  have "(?w OR 0x80) AND 0x7f = ?w"
    unfolding m e by (simp add: take_bit_eq_mask [symmetric] take_bit_or t take_bit_push_bit)
  then show "unat ((?w OR 0x80) AND 0x7f) = n" using u by simp
  have "?w AND 0x7f = ?w" unfolding m by (simp add: take_bit_eq_mask [symmetric] t)
  then show "unat (?w AND 0x7f) = n" using u by simp
  have "(?w OR 0x80) AND 0x80 = 0x80" by (rule bit_word_eqI) (auto simp: bit_and_iff bit_or_iff)
  then show "(?w OR 0x80) AND 0x80 \<noteq> 0" by simp
  have h: "bit (0x80 :: byte) i \<longleftrightarrow> i = 7" for i unfolding e bit_push_bit_iff bit_1_iff by auto
  show "?w AND 0x80 = 0"
  proof (rule bit_word_eqI)
    fix i
    show "bit (?w AND 0x80) i \<longleftrightarrow> bit (0 :: byte) i"
      unfolding bit_and_iff h using b by (cases "i = 7") simp_all
  qed
qed

text \<open>The bytes of a frame, with or without a mask, and what \<open>readHeader\<close> makes of its head.\<close>

definition frame_head :: "bool \<Rightarrow> byte \<Rightarrow> bool \<Rightarrow> byte list \<Rightarrow> nat \<Rightarrow> byte list" where
  "frame_head fin opcode masked key n = first_byte fin opcode # buildLengthHeader n masked key"

definition frame_ok :: "bool \<Rightarrow> byte \<Rightarrow> byte list \<Rightarrow> nat \<Rightarrow> bool" where
  "frame_ok fin opcode key n \<longleftrightarrow> opcode \<in> set opcodes \<and> length key = 4 \<and> n \<le> maxPayloadLen
     \<and> (is_control opcode \<longrightarrow> fin \<and> n \<le> 125)"

lemma readFull_append: "wc_input c = bs @ rest \<Longrightarrow> length bs = n \<Longrightarrow> readFull c n = (c\<lparr>wc_input := rest\<rparr>, Inr bs)"
  by (auto simp: readFull_def)

lemma enc_be_8_small:
  assumes "n \<le> maxPayloadLen"
  shows "enc_be 8 (int n) ! 0 = 0"
proof -
  have "enc_le 8 v ! 7 = word_of_int (v div 256 ^ 7)" for v
    by (simp add: numeral_eq_Suc zdiv_zmult2_eq [symmetric])
  moreover have "int n div 256 ^ 7 = 0" using assms by simp
  ultimately have "enc_le 8 (int n) ! 7 = 0" by (simp only: word_of_int_0)
  then show ?thesis by (simp add: enc_be_def rev_nth)
qed

definition ext_bytes :: "nat \<Rightarrow> byte list" where
  "ext_bytes n = (if n \<le> 125 then [] else if n \<le> 0xffff then enc_be 2 (int n) else enc_be 8 (int n))"

definition len7 :: "nat \<Rightarrow> nat" where
  "len7 n = (if n \<le> 125 then n else if n \<le> 0xffff then 126 else 127)"

lemma buildLengthHeader_eq:
  assumes "length key = 4"
  shows "buildLengthHeader n masked key =
    (if masked then of_nat (len7 n) OR 0x80 else of_nat (len7 n)) # ext_bytes n @ (if masked then key else [])"
  using assms by (simp add: buildLengthHeader_def len7_def ext_bytes_def Let_def)

lemma len7_less: "len7 n < 128"
  by (simp add: len7_def)

lemma readLength_ext:
  assumes "wc_input c = ext_bytes n @ rest" "n \<le> maxPayloadLen"
  shows "readLength c (len7 n) = (c\<lparr>wc_input := rest\<rparr>, Inr n)"
proof -
  consider (a) "n \<le> 125" | (b) "125 < n" "n \<le> 0xffff" | (c) "0xffff < n" by linarith
  then show ?thesis
  proof cases
    case a
    then have "c\<lparr>wc_input := rest\<rparr> = c" using assms(1) by (simp add: ext_bytes_def)
    with a show ?thesis by (simp add: readLength_def len7_def)
  next
    case b
    then have "readFull c 2 = (c\<lparr>wc_input := rest\<rparr>, Inr (enc_be 2 (int n)))"
      using assms(1) by (intro readFull_append) (simp_all add: ext_bytes_def)
    moreover have "nat (dec_be (enc_be 2 (int n))) = n" using b by (simp add: dec_enc_be)
    ultimately show ?thesis using b by (simp add: readLength_def len7_def)
  next
    case c
    then have "readFull c 8 = (c\<lparr>wc_input := rest\<rparr>, Inr (enc_be 8 (int n)))"
      using assms(1) by (intro readFull_append) (simp_all add: ext_bytes_def)
    moreover have "nat (dec_be (enc_be 8 (int n))) = n" using assms(2) by (simp add: dec_enc_be)
    ultimately show ?thesis using c assms(2) enc_be_8_small [OF assms(2)]
      by (simp add: readLength_def len7_def)
  qed
qed

lemma readHeader_frame:
  assumes "wc_input c = frame_head fin opcode masked key n @ rest" "frame_ok fin opcode key n"
  shows "readHeader c = (c\<lparr>wc_input := rest\<rparr>, Inr \<lparr>fh_fin = fin, fh_opcode = opcode, fh_masked = masked,
     fh_maskKey = (if masked then key else replicate 4 0), fh_payloadLen = n\<rparr>)"
proof -
  let ?b0 = "first_byte fin opcode"
  define b1 where "b1 = (if masked then of_nat (len7 n) OR 0x80 else of_nat (len7 n) :: byte)"
  define tail where "tail = (if masked then key else []) @ rest"
  have k: "length key = 4" "opcode \<in> set opcodes" "n \<le> maxPayloadLen" and ctl: "is_control opcode \<longrightarrow> fin \<and> n \<le> 125"
    using assms(2) by (auto simp: frame_ok_def)
  have "wc_input c = [?b0, b1] @ ext_bytes n @ tail"
    using assms(1) by (simp add: frame_head_def buildLengthHeader_eq [OF k(1)] b1_def tail_def)
  then have h: "readFull c 2 = (c\<lparr>wc_input := ext_bytes n @ tail\<rparr>, Inr [?b0, b1])"
    by (rule readFull_append) simp
  have l: "readLength (c\<lparr>wc_input := ext_bytes n @ tail\<rparr>) (len7 n) = (c\<lparr>wc_input := tail\<rparr>, Inr n)"
    using readLength_ext [of "c\<lparr>wc_input := ext_bytes n @ tail\<rparr>" n tail] k(3) by simp
  have b1: "unat (b1 AND 0x7f) = len7 n" "(b1 AND 0x80 \<noteq> 0) = masked"
    using len_byte [OF len7_less] by (auto simp: b1_def)
  have m: "(if masked then readFull (c\<lparr>wc_input := tail\<rparr>) 4 else (c\<lparr>wc_input := tail\<rparr>, Inr (replicate 4 0)))
      = (c\<lparr>wc_input := rest\<rparr>, Inr (if masked then key else replicate 4 0))"
    using readFull_append [of "c\<lparr>wc_input := tail\<rparr>" key rest 4] k(1) by (simp add: tail_def)
  show ?thesis
    unfolding readHeader_def h prod.case sum.case Let_def nth_Cons_0 nth_Cons_Suc One_nat_def
      first_byte_fields [OF k(2)] b1 l m
    using ctl by (auto simp: not_less)
qed

definition frame_bytes :: "bool \<Rightarrow> byte \<Rightarrow> bool \<Rightarrow> byte list \<Rightarrow> byte list \<Rightarrow> byte list" where
  "frame_bytes fin opcode masked key payload =
     frame_head fin opcode masked key (length payload) @ (if masked then apply_mask key payload else payload)"

lemma readPayload_frame:
  assumes "wc_input c = (if masked then apply_mask key payload else payload) @ rest" "length payload = n"
  shows "readPayload c n masked (if masked then key else k0) = (c\<lparr>wc_input := rest\<rparr>, Inr payload)"
  using readFull_append [OF assms(1), of n] assms(2) by (simp add: readPayload_def)

text \<open>\<open>writeFrame\<close> writes one final, masked frame.\<close>

lemma writeFrame_bytes:
  assumes "\<not> wc_broken c"
  shows "writeFrame c opcode payload =
    (c\<lparr>wc_mask := nextMask (wc_mask c),
       wc_output := wc_output c @ frame_bytes True opcode True (mask_key (nextMask (wc_mask c))) payload\<rparr>,
     apply_mask (mask_key (nextMask (wc_mask c))) payload, None)"
  using assms by (simp add: writeFrame_def Let_def frame_bytes_def frame_head_def first_byte_def)

subsection \<open>Messages\<close>

record fragment =
  fr_masked :: bool
  fr_key :: "byte list"
  fr_data :: "byte list"

text \<open>A fragment with the pings and pongs the peer sends before it.\<close>

type_synonym piece = "(byte \<times> fragment) list \<times> fragment"

definition fragment_bytes :: "bool \<Rightarrow> byte \<Rightarrow> fragment \<Rightarrow> byte list" where
  "fragment_bytes fin opcode f = frame_bytes fin opcode (fr_masked f) (fr_key f) (fr_data f)"

definition control_ok :: "byte \<times> fragment \<Rightarrow> bool" where
  "control_ok x \<longleftrightarrow> fst x \<in> {opPing, opPong} \<and> length (fr_key (snd x)) = 4 \<and> length (fr_data (snd x)) \<le> 125"

definition piece_ok :: "piece \<Rightarrow> bool" where
  "piece_ok p \<longleftrightarrow> list_all control_ok (fst p) \<and> length (fr_key (snd p)) = 4
     \<and> length (fr_data (snd p)) \<le> maxPayloadLen"

definition controls_bytes :: "(byte \<times> fragment) list \<Rightarrow> byte list" where
  "controls_bytes cs = concat (map (\<lambda>x. fragment_bytes True (fst x) (snd x)) cs)"

fun message_bytes :: "byte \<Rightarrow> piece list \<Rightarrow> byte list" where
  "message_bytes opcode [] = []"
| "message_bytes opcode [p] = controls_bytes (fst p) @ fragment_bytes True opcode (snd p)"
| "message_bytes opcode (p # q # r) =
     controls_bytes (fst p) @ fragment_bytes False opcode (snd p) @ message_bytes opContinuation (q # r)"

definition message_data :: "piece list \<Rightarrow> byte list" where
  "message_data ps = concat (map (\<lambda>p. fr_data (snd p)) ps)"

lemma writeFrame_pending [simp]: "wc_pending (fst (writeFrame c opcode payload)) = wc_pending c"
  by (simp add: writeFrame_def Let_def)

lemma control_frame_ok: "control_ok x \<Longrightarrow> frame_ok True (fst x) (fr_key (snd x)) (length (fr_data (snd x)))"
  by (auto simp: control_ok_def frame_ok_def opcodes_def)

lemma read_loop_control:
  assumes "wc_input c = fragment_bytes True (fst x) (snd x) @ rest" "control_ok x"
  obtains c' where "wc_input c' = rest" "wc_pending c' = wc_pending c"
    "read_loop c dstLen acc mt = read_loop c' dstLen acc mt"
proof -
  let ?f = "snd x" and ?m = "fr_masked (snd x)"
  let ?p = "(if ?m then apply_mask (fr_key ?f) (fr_data ?f) else fr_data ?f) @ rest"
  have i: "wc_input c = frame_head True (fst x) ?m (fr_key ?f) (length (fr_data ?f)) @ ?p"
    using assms(1) by (simp add: fragment_bytes_def frame_bytes_def)
  note h = readHeader_frame [OF i control_frame_ok [OF assms(2)]]
  have pl: "readPayload (c\<lparr>wc_input := ?p\<rparr>) (length (fr_data ?f)) ?m (if ?m then fr_key ?f else replicate 4 0)
      = (c\<lparr>wc_input := rest\<rparr>, Inr (fr_data ?f))"
    using readPayload_frame [of "c\<lparr>wc_input := ?p\<rparr>" ?m "fr_key ?f" "fr_data ?f" rest] by simp
  let ?c = "if fst x = opPing then fst (writeFrame (c\<lparr>wc_input := rest\<rparr>) opPong (fr_data ?f)) else c\<lparr>wc_input := rest\<rparr>"
  have ctl: "is_control (fst x)" "fst x \<noteq> opClose" "\<not> 125 < length (fr_data ?f)"
    using assms(2) by (auto simp: control_ok_def)
  have "read_loop c dstLen acc mt = read_loop ?c dstLen acc mt"
    using ctl by (subst read_loop.simps) (simp only: h prod.case sum.case frame_header.simps if_True if_False pl Let_def)
  then show thesis by (rule that [rotated 2]) simp_all
qed

lemma read_loop_controls:
  assumes "wc_input c = controls_bytes cs @ rest" "list_all control_ok cs"
  obtains c' where "wc_input c' = rest" "wc_pending c' = wc_pending c"
    "read_loop c dstLen acc mt = read_loop c' dstLen acc mt"
  using assms
proof (induction cs arbitrary: c thesis)
  case Nil
  then show ?case by (simp add: controls_bytes_def)
next
  case (Cons x cs)
  have "wc_input c = fragment_bytes True (fst x) (snd x) @ controls_bytes cs @ rest" "control_ok x"
    using Cons.prems(2,3) by (simp_all add: controls_bytes_def)
  then obtain c1 where c1: "wc_input c1 = controls_bytes cs @ rest" "wc_pending c1 = wc_pending c"
      "read_loop c dstLen acc mt = read_loop c1 dstLen acc mt" by (rule read_loop_control)
  obtain c2 where "wc_input c2 = rest" "wc_pending c2 = wc_pending c1"
      "read_loop c1 dstLen acc mt = read_loop c2 dstLen acc mt"
    using Cons.IH [OF _ c1(1)] Cons.prems(3) by auto
  with c1 Cons.prems(1) show ?case by simp
qed

text \<open>One data fragment that fits.\<close>

lemma read_loop_fragment:
  assumes "wc_input c = fragment_bytes fin opcode f @ rest" "length (fr_key f) = 4"
    "length (fr_data f) \<le> maxPayloadLen" "length acc + length (fr_data f) \<le> dstLen"
    and "opcode \<in> {opText, opBinary} \<or> opcode = opContinuation \<and> mt \<noteq> 0"
  shows "read_loop c dstLen acc mt =
    (let mt = (if opcode = opContinuation then mt else opcodeToMessageType opcode); c = c\<lparr>wc_input := rest\<rparr>
     in if fin then (c, Inr (acc @ fr_data f, mt)) else read_loop c dstLen (acc @ fr_data f) mt)"
proof -
  let ?m = "fr_masked f"
  let ?p = "(if ?m then apply_mask (fr_key f) (fr_data f) else fr_data f) @ rest"
  have i: "wc_input c = frame_head fin opcode ?m (fr_key f) (length (fr_data f)) @ ?p"
    using assms(1) by (simp add: fragment_bytes_def frame_bytes_def)
  have ok: "frame_ok fin opcode (fr_key f) (length (fr_data f))"
    using assms(2,3,5) by (auto simp: frame_ok_def opcodes_def)
  note h = readHeader_frame [OF i ok]
  have pl: "readPayload (c\<lparr>wc_input := ?p\<rparr>) (length (fr_data f)) ?m (if ?m then fr_key f else replicate 4 0)
      = (c\<lparr>wc_input := rest\<rparr>, Inr (fr_data f))"
    using readPayload_frame [of "c\<lparr>wc_input := ?p\<rparr>" ?m "fr_key f" "fr_data f" rest] by simp
  have nc: "\<not> is_control opcode" "\<not> dstLen < length acc + length (fr_data f)" using assms(4,5) by auto
  have mt: "(if opcode \<noteq> opContinuation then opcodeToMessageType opcode else mt)
      = (if opcode = opContinuation then mt else opcodeToMessageType opcode)"
    "(if opcode = opContinuation then mt else opcodeToMessageType opcode) \<noteq> 0"
    using assms(5) by (auto simp: opcodeToMessageType_def)
  show ?thesis
    by (subst read_loop.simps)
      (simp only: h prod.case sum.case frame_header.simps nc if_False Let_def mt pl)
qed

text \<open>A fragmented message, with control frames anywhere between the fragments, is reassembled.\<close>

lemma read_loop_message:
  assumes "wc_input c = message_bytes opcode ps @ rest" "ps \<noteq> []" "list_all piece_ok ps"
    and "opcode \<in> {opText, opBinary} \<or> opcode = opContinuation \<and> mt \<noteq> 0"
    and "length acc + length (message_data ps) \<le> dstLen"
  obtains c' where "wc_input c' = rest" "wc_pending c' = wc_pending c"
    "read_loop c dstLen acc mt =
       (c', Inr (acc @ message_data ps, if opcode = opContinuation then mt else opcodeToMessageType opcode))"
  using assms
proof (induction opcode ps arbitrary: c acc mt thesis rule: message_bytes.induct)
  case (1 opcode)
  then show ?case by simp
next
  case (2 opcode p)
  have "wc_input c = controls_bytes (fst p) @ fragment_bytes True opcode (snd p) @ rest" "list_all control_ok (fst p)"
    using "2.prems"(2,4) by (simp_all add: piece_ok_def)
  then obtain c1 where c1: "wc_input c1 = fragment_bytes True opcode (snd p) @ rest" "wc_pending c1 = wc_pending c"
      "read_loop c dstLen acc mt = read_loop c1 dstLen acc mt" by (rule read_loop_controls)
  have "read_loop c1 dstLen acc mt = (c1\<lparr>wc_input := rest\<rparr>,
      Inr (acc @ fr_data (snd p), if opcode = opContinuation then mt else opcodeToMessageType opcode))"
    using read_loop_fragment [OF c1(1) _ _ _ "2.prems"(5), of acc dstLen] "2.prems"(4,6)
    by (simp add: piece_ok_def message_data_def)
  then show ?case using "2.prems"(1) [of "c1\<lparr>wc_input := rest\<rparr>"] c1 by (simp add: message_data_def)
next
  case (3 opcode p q r)
  let ?mt = "if opcode = opContinuation then mt else opcodeToMessageType opcode"
  let ?rest = "message_bytes opContinuation (q # r) @ rest"
  have "wc_input c = controls_bytes (fst p) @ fragment_bytes False opcode (snd p) @ ?rest" "list_all control_ok (fst p)"
    using "3.prems"(2,4) by (simp_all add: piece_ok_def)
  then obtain c1 where c1: "wc_input c1 = fragment_bytes False opcode (snd p) @ ?rest" "wc_pending c1 = wc_pending c"
      "read_loop c dstLen acc mt = read_loop c1 dstLen acc mt" by (rule read_loop_controls)
  have step: "read_loop c1 dstLen acc mt = read_loop (c1\<lparr>wc_input := ?rest\<rparr>) dstLen (acc @ fr_data (snd p)) ?mt"
    using read_loop_fragment [OF c1(1) _ _ _ "3.prems"(5), of acc dstLen] "3.prems"(4,6)
    by (simp add: piece_ok_def message_data_def Let_def)
  have mt: "?mt \<noteq> 0" using "3.prems"(5) by (auto simp: opcodeToMessageType_def)
  obtain c2 where c2: "wc_input c2 = rest" "wc_pending c2 = wc_pending (c1\<lparr>wc_input := ?rest\<rparr>)"
    "read_loop (c1\<lparr>wc_input := ?rest\<rparr>) dstLen (acc @ fr_data (snd p)) ?mt
      = (c2, Inr ((acc @ fr_data (snd p)) @ message_data (q # r), ?mt))"
    using "3.IH" [of "c1\<lparr>wc_input := ?rest\<rparr>" "acc @ fr_data (snd p)" ?mt] "3.prems"(4,6) mt
    by (auto simp: message_data_def)
  then show ?case using "3.prems"(1) [of c2] c1 step by (simp add: message_data_def)
qed

subsection \<open>Reading what was written\<close>

lemma frame_bytes_message:
  "frame_bytes True opcode True key payload
     = message_bytes opcode [([], \<lparr>fr_masked = True, fr_key = key, fr_data = payload\<rparr>)]"
  by (simp add: controls_bytes_def fragment_bytes_def)

lemma read_written:
  assumes "msgType \<in> {MessageText, MessageBinary}" "\<not> wc_broken c" "length payload \<le> maxPayloadLen"
    and "wsConn_Write c msgType payload = (c', masked, e)"
    and "wc_output c' = wc_output c @ sent" "wc_input r = sent @ rest" "wc_pending r = None" "length payload \<le> dstLen"
  obtains r' where "wsConn_Read r dstLen = (r', Inr (payload, msgType))" "wc_input r' = rest" "wc_pending r' = None"
proof -
  define opcode where "opcode = messageTypeToOpcode msgType"
  have o': "opcode \<in> {opText, opBinary}" "opcode \<noteq> 0" "opcodeToMessageType opcode = msgType" "opcode \<noteq> opContinuation"
    using assms(1) by (auto simp: opcode_def messageTypeToOpcode_def opcodeToMessageType_def)
  let ?key = "mask_key (nextMask (wc_mask c))"
  let ?ps = "[([], \<lparr>fr_masked = True, fr_key = ?key, fr_data = payload\<rparr>)] :: piece list"
  have "wc_output c' = wc_output c @ frame_bytes True opcode True ?key payload"
    using assms(4) o'(2) writeFrame_bytes [OF assms(2), of opcode payload]
    by (auto simp: wsConn_Write_def opcode_def [symmetric])
  then have i: "wc_input r = message_bytes opcode ?ps @ rest"
    using assms(5,6) by (simp add: frame_bytes_message)
  obtain r' where "wc_input r' = rest" "wc_pending r' = wc_pending r"
      "read_loop r dstLen [] 0 = (r', Inr ([] @ message_data ?ps, if opcode = opContinuation then 0 else opcodeToMessageType opcode))"
    by (rule read_loop_message [OF i, of 0 "[]" dstLen])
      (use o' assms(3,8) in \<open>simp_all add: piece_ok_def message_data_def\<close>)
  then show thesis using that [of r'] o' assms(7)
    by (simp add: wsConn_Read_def message_data_def)
qed

subsection \<open>Retrying with a larger buffer\<close>

lemma readFull_pending: "readFull c n = (c', r) \<Longrightarrow> wc_pending c' = wc_pending c"
  by (auto simp: readFull_def split: if_splits)

lemma readLength_pending: "readLength c l = (c', r) \<Longrightarrow> wc_pending c' = wc_pending c"
  by (auto simp: readLength_def split: if_splits prod.splits sum.splits dest!: readFull_pending)

lemma readHeader_pending:
  assumes "readHeader c = (c', r)"
  shows "wc_pending c' = wc_pending c"
proof -
  obtain c1 r1 where 1: "readFull c 2 = (c1, r1)" by (cases "readFull c 2")
  show ?thesis
  proof (cases r1)
    case (Inl e)
    then show ?thesis using assms 1 readFull_pending [OF 1] by (simp add: readHeader_def)
  next
    case (Inr hd')
    obtain c2 r2 where 2: "readLength c1 (unat (hd' ! 1 AND 0x7f)) = (c2, r2)"
      by (cases "readLength c1 (unat (hd' ! 1 AND 0x7f))")
    obtain c3 r3 where 3: "readFull c2 4 = (c3, r3)" by (cases "readFull c2 4")
    have "wc_pending c3 = wc_pending c" "wc_pending c2 = wc_pending c" "wc_pending c1 = wc_pending c"
      using readFull_pending [OF 1] readLength_pending [OF 2] readFull_pending [OF 3] by simp_all
    moreover have "c' \<in> {c1, c2, c3}"
      using assms unfolding readHeader_def 1 Inr prod.case sum.case Let_def 2
      by (cases r2; cases r3) (auto simp: 3 split: if_splits)
    ultimately show ?thesis by auto
  qed
qed

lemma readPayload_pending: "readPayload c n m k = (c', r) \<Longrightarrow> wc_pending c' = wc_pending c"
  by (auto simp: readPayload_def split: prod.splits sum.splits dest!: readFull_pending)

text \<open>
  A read that gave up at a fragment that does not fit keeps what it has: repeating it with a
  larger buffer gives the same result and the same state as reading with that buffer at once.
\<close>

lemma read_loop_retry:
  assumes "wc_pending c = None" "L \<le> L'" "read_loop c L acc mt = (c1, Inl errFrameTooLarge)" "wc_pending c1 \<noteq> None"
  shows "wsConn_Read c1 L' = read_loop c L' acc mt"
  using assms
proof (induction c L acc mt rule: read_loop.induct)
  case (1 c L acc mt)
  obtain ch rh where h: "readHeader c = (ch, rh)" by (cases "readHeader c")
  have ph: "wc_pending ch = None" using readHeader_pending [OF h] 1(3) by simp
  show ?case
  proof (cases rh)
    case (Inl e)
    then have "c1 = ch" using 1(5) h by (subst (asm) read_loop.simps) simp
    with 1(6) ph show ?thesis by simp
  next
    case (Inr hdr)
    note hh = h [unfolded Inr]
    obtain cp rp where p: "readPayload ch (fh_payloadLen hdr) (fh_masked hdr) (fh_maskKey hdr) = (cp, rp)"
      by (cases "readPayload ch (fh_payloadLen hdr) (fh_masked hdr) (fh_maskKey hdr)")
    have pp: "wc_pending cp = None" using readPayload_pending [OF p] ph by simp
    note u = read_loop.simps [of c _ acc mt, unfolded hh prod.case sum.case p Let_def]
    show ?thesis
    proof (cases "is_control (fh_opcode hdr)")
      case True
      let ?c = "if fh_opcode hdr = opPing then fst (writeFrame cp opPong (projr rp)) else cp"
      have ok: "\<not> 125 < fh_payloadLen hdr" "\<not> isl rp" "fh_opcode hdr \<noteq> opClose"
        using 1(5,6) True ph pp by (auto simp: u split: if_splits sum.splits)
      then obtain ctrl where rp: "rp = Inr ctrl" by (cases rp) auto
      have step: "read_loop c l acc mt = read_loop ?c l acc mt" for l
        using True ok rp by (simp only: u if_True if_False sum.case sum.sel)
      have "wc_pending ?c = None" using pp by simp
      moreover have "read_loop ?c L acc mt = (c1, Inl errFrameTooLarge)" using step 1(5) by metis
      ultimately have "wsConn_Read c1 L' = read_loop ?c L' acc mt"
        using 1(1) [OF hh [symmetric] refl True _ p [symmetric]] rp ok 1(4,6) by (simp add: Let_def)
      then show ?thesis by (simp only: step)
    next
      case False
      let ?mt = "if fh_opcode hdr \<noteq> opContinuation then opcodeToMessageType (fh_opcode hdr) else mt"
      have mt: "?mt \<noteq> 0" using 1(5) False by (auto simp: u split: if_splits)
      show ?thesis
      proof (cases "L < length acc + fh_payloadLen hdr")
        case True
        let ?pr = "\<lparr>pr_data = acc, pr_msgType = ?mt, pr_fin = fh_fin hdr, pr_masked = fh_masked hdr,
            pr_maskKey = fh_maskKey hdr, pr_payloadLen = fh_payloadLen hdr\<rparr>"
        have c1: "c1 = ch\<lparr>wc_pending := Some ?pr\<rparr>"
          using 1(5) False mt True by (simp only: u if_False if_True prod.inject stashPending_def)
        have cleared: "c1\<lparr>wc_pending := None\<rparr> = ch" using ph by (simp add: c1)
        show ?thesis
        proof (cases "L' < length acc + fh_payloadLen hdr")
          case True
          then show ?thesis using False mt c1 by (simp only: u wsConn_Read_def if_False if_True) simp
        next
          case f: False
          have pend: "wc_pending c1 = Some ?pr" by (simp add: c1)
          show ?thesis
            unfolding wsConn_Read_def pend option.case pendingRead.simps cleared Let_def p prod.case
            using False mt f by (simp only: u if_False)
        qed
      next
        case fits: False
        obtain bs where rp: "rp = Inr bs" using 1(5) False mt fits pp 1(6) by (cases rp) (auto simp: u)
        have nf: "\<not> fh_fin hdr" using 1(5) False mt fits rp by (auto simp: u split: if_splits)
        have step: "read_loop c l acc mt = read_loop cp l (acc @ bs) ?mt" if "L \<le> l" for l
          using False mt fits nf rp that by (simp only: u if_False sum.case) simp
        have "wsConn_Read c1 L' = read_loop cp L' (acc @ bs) ?mt"
          using 1(2) [OF hh [symmetric] refl False refl mt fits p [symmetric]] rp nf pp 1(4,6) step [of L] 1(5) by simp
        then show ?thesis using step [OF 1(4)] by simp
      qed
    qed
  qed
qed

lemma read_retry:
  assumes "wc_pending c = None" "L \<le> L'" "wsConn_Read c L = (c1, Inl errFrameTooLarge)" "wc_pending c1 \<noteq> None"
  shows "wsConn_Read c1 L' = wsConn_Read c L'"
  using read_loop_retry [of c L L' "[]" 0 c1] assms by (simp add: wsConn_Read_def)

text \<open>A larger buffer changes nothing once the smaller one was no obstacle.\<close>

lemma read_loop_mono:
  assumes "wc_pending c = None" "L \<le> L'" "read_loop c L acc mt = (c1, r)"
    and "r \<noteq> Inl errFrameTooLarge \<or> wc_pending c1 = None"
  shows "read_loop c L' acc mt = (c1, r)"
  using assms
proof (induction c L acc mt rule: read_loop.induct)
  case (1 c L acc mt)
  obtain ch rh where h: "readHeader c = (ch, rh)" by (cases "readHeader c")
  have ph: "wc_pending ch = None" using readHeader_pending [OF h] 1(3) by simp
  show ?case
  proof (cases rh)
    case (Inl e)
    then show ?thesis using 1(5) h by (simp add: read_loop.simps [of c])
  next
    case (Inr hdr)
    note hh = h [unfolded Inr]
    obtain cp rp where p: "readPayload ch (fh_payloadLen hdr) (fh_masked hdr) (fh_maskKey hdr) = (cp, rp)"
      by (cases "readPayload ch (fh_payloadLen hdr) (fh_masked hdr) (fh_maskKey hdr)")
    have pp: "wc_pending cp = None" using readPayload_pending [OF p] ph by simp
    note u = read_loop.simps [of c _ acc mt, unfolded hh prod.case sum.case p Let_def]
    show ?thesis
    proof (cases "is_control (fh_opcode hdr)")
      case True
      let ?c = "if fh_opcode hdr = opPing then fst (writeFrame cp opPong (projr rp)) else cp"
      show ?thesis
      proof (cases "125 < fh_payloadLen hdr \<or> isl rp \<or> fh_opcode hdr = opClose")
        case stop: True
        then show ?thesis using 1(5) True by (cases rp) (auto simp: u)
      next
        case go: False
        then obtain ctrl where rp: "rp = Inr ctrl" by (cases rp) auto
        have step: "read_loop c l acc mt = read_loop ?c l acc mt" for l
          using True go rp by (simp add: u)
        have "wc_pending ?c = None" using pp by simp
        moreover have "read_loop ?c L acc mt = (c1, r)" using step 1(5) by metis
        ultimately have "read_loop ?c L' acc mt = (c1, r)"
          using 1(1) [OF hh [symmetric] refl True _ p [symmetric]] rp go 1(4,6) by (simp add: Let_def)
        then show ?thesis by (simp only: step)
      qed
    next
      case False
      let ?mt = "if fh_opcode hdr \<noteq> opContinuation then opcodeToMessageType (fh_opcode hdr) else mt"
      show ?thesis
      proof (cases "?mt = 0")
        case True
        then show ?thesis using 1(5) False by (auto simp: u)
      next
        case mt: False
        have fits: "\<not> L < length acc + fh_payloadLen hdr"
          using 1(5,6) False mt by (auto simp: u split: if_splits)
        show ?thesis
        proof (cases rp)
          case (Inl e)
          then show ?thesis using 1(4,5) False mt fits by (simp add: u)
        next
          case rp: (Inr bs)
          show ?thesis
          proof (cases "fh_fin hdr")
            case True
            then show ?thesis using 1(4,5) False mt fits rp by (simp add: u)
          next
            case nf: False
            have step: "read_loop c l acc mt = read_loop cp l (acc @ bs) ?mt" if "L \<le> l" for l
              using False mt fits nf rp that by (simp add: u)
            have "read_loop cp L' (acc @ bs) ?mt = (c1, r)"
              using 1(2) [OF hh [symmetric] refl False refl mt fits p [symmetric]] rp nf pp 1(4,6) step [of L] 1(5) by simp
            then show ?thesis using step [OF 1(4)] by simp
          qed
        qed
      qed
    qed
  qed
qed

lemma read_mono:
  assumes "wc_pending c = None" "L \<le> L'" "wsConn_Read c L = (c1, r)"
    and "r \<noteq> Inl errFrameTooLarge \<or> wc_pending c1 = None"
  shows "wsConn_Read c L' = (c1, r)"
  using read_loop_mono [OF assms(1,2)] assms by (simp add: wsConn_Read_def)

end
