(* ===== verification/Ws_Handshake.thy ===== *)
theory Ws_Handshake
  imports Ws_Wire Scan_Lib
begin

section \<open>The opening handshake\<close>

text \<open>
  The checks \<open>dialWebSocket\<close> makes on the server's answer (\<open>dialer.go\<close>): the status, the two
  header tokens and the accept key. Sending the request and parsing the response are \<open>net/http\<close>;
  the response enters as its status and three header values, the random key as its 16 bytes.
\<close>

definition ws_toLowerByte :: "char \<Rightarrow> char" where
  [go_eval]: "ws_toLowerByte b = (if 65 \<le> code b \<and> code b \<le> 90 then char_of (code b + 32) else b)"

definition ws_isSpace :: "char \<Rightarrow> bool" where
  "ws_isSpace b \<longleftrightarrow> b = CHR '' '' \<or> b = CHR 0x09 \<or> b = CHR 0x0A \<or> b = CHR 0x0D"

lemma ws_isSpace_eq [simp]: "ws_isSpace = is_space"
  by (simp add: fun_eq_iff ws_isSpace_def is_space_def)

text \<open>\<open>for j >= i && isSpace(value[j]) { j-- }\<close>, with \<open>e = j + 1\<close>.\<close>

function ws_trim_right :: "string \<Rightarrow> nat \<Rightarrow> nat \<Rightarrow> nat" where
  "ws_trim_right value i e =
     (if i < e \<and> ws_isSpace (value ! (e - 1)) then ws_trim_right value i (e - 1) else e)"
  by pat_completeness auto
termination
  by (relation "measure (\<lambda>(value, i, e). e)") auto

declare ws_trim_right.simps [simp del]

definition trimLowerEqual :: "string \<Rightarrow> string \<Rightarrow> bool" where
  "trimLowerEqual value tokenLower \<longleftrightarrow>
     (let i = skip_while ws_isSpace value 0;
          e = ws_trim_right value i (length value)
      in if e \<le> i then False
         else if e - i \<noteq> length tokenLower then False
         else list_all (\<lambda>k. ws_toLowerByte (value ! (i + k)) = tokenLower ! k) [0..<length tokenLower])"

function header_loop :: "string \<Rightarrow> string \<Rightarrow> nat \<Rightarrow> nat \<Rightarrow> bool" where
  "header_loop headerValue token start i =
     (if i \<le> length headerValue then
        if i = length headerValue \<or> headerValue ! i = CHR '','' then
          (if trimLowerEqual (slice headerValue start i) token then True
           else header_loop headerValue token (i + 1) (i + 1))
        else header_loop headerValue token start (i + 1)
      else False)"
  by pat_completeness auto
termination
  by (relation "measure (\<lambda>(headerValue, token, start, i). Suc (length headerValue) - i)") auto

declare header_loop.simps [simp del]

definition headerContainsToken :: "string \<Rightarrow> string \<Rightarrow> bool" where
  "headerContainsToken headerValue token =
     (if headerValue = [] then False else header_loop headerValue token 0 0)"

definition newWebSocketKey :: "byte list \<Rightarrow> string" where
  "newWebSocketKey random = base64_EncodeToString random"

definition validateAcceptKey :: "string \<Rightarrow> string \<Rightarrow> bool" where
  "validateAcceptKey key accept \<longleftrightarrow>
     (let sum = sha1 (bytes_of key @ bytes_of ''258EAFA5-E914-47DA-95CA-C5AB0DC85B11'');
          expected = base64_EncodeToString sum
      in accept = expected)"

definition dialWebSocket :: "string \<Rightarrow> nat \<Rightarrow> string \<Rightarrow> string \<Rightarrow> string \<Rightarrow> int \<Rightarrow> byte list \<Rightarrow> conn_error + wsConn" where
  "dialWebSocket key status upgrade connection accept now input =
     (if status \<noteq> 101 then Inl errHandshakeFailed
      else if \<not> headerContainsToken upgrade ''websocket'' then Inl errHandshakeFailed
      else if \<not> headerContainsToken connection ''upgrade'' then Inl errHandshakeFailed
      else if \<not> validateAcceptKey key accept then Inl errHandshakeFailed
      else Inr \<lparr>wc_input = input, wc_output = [], wc_broken = False, wc_mask = seedMask now, wc_pending = None\<rparr>)"

subsection \<open>What the token search accepts\<close>

definition trim :: "string \<Rightarrow> string" where
  "trim s = rev (dropWhile is_space (rev (dropWhile is_space s)))"

lemma ws_trim_right_eq:
  "i \<le> e \<Longrightarrow> e \<le> length p \<Longrightarrow> i \<le> ws_trim_right p i e \<and> ws_trim_right p i e \<le> e
     \<and> slice p i (ws_trim_right p i e) = rev (dropWhile is_space (rev (slice p i e)))"
proof (induction p i e rule: ws_trim_right.induct)
  case (1 p i e)
  show ?case
  proof (cases "i < e")
    case True
    then have s: "slice p i e = slice p i (e - 1) @ [p ! (e - 1)]"
      using 1(3) by (cases e) (simp_all add: slice_def Suc_diff_le take_Suc_conv_app_nth)
    show ?thesis
    proof (cases "is_space (p ! (e - 1))")
      case sp: True
      then have "ws_trim_right p i e = ws_trim_right p i (e - 1)"
        using True by (simp add: ws_trim_right.simps [of p i e])
      moreover have "i \<le> ws_trim_right p i (e - 1) \<and> ws_trim_right p i (e - 1) \<le> e - 1
        \<and> slice p i (ws_trim_right p i (e - 1)) = rev (dropWhile is_space (rev (slice p i (e - 1))))"
        using 1 True sp by simp
      ultimately show ?thesis using True s sp by auto
    next
      case False
      then have "ws_trim_right p i e = e" by (simp add: ws_trim_right.simps [of p i e])
      then show ?thesis using False True s by simp
    qed
  next
    case False
    then have "ws_trim_right p i e = e" by (simp add: ws_trim_right.simps [of p i e])
    with 1(2) False show ?thesis by (simp add: slice_def)
  qed
qed

lemma trimLowerEqual_iff:
  assumes "token \<noteq> []"
  shows "trimLowerEqual value token \<longleftrightarrow> map ws_toLowerByte (trim value) = token"
proof -
  let ?i = "skip_while is_space value 0"
  let ?e = "ws_trim_right value ?i (length value)"
  have i: "?i \<le> length value" by (simp add: skip_while_le)
  note e = ws_trim_right_eq [OF i order_refl]
  have "slice value ?i (length value) = dropWhile is_space value"
    using drop_skip_while [of 0 "value" is_space] by (simp add: slice_def flip: length_drop)
  then have t: "slice value ?i ?e = trim value" using e by (simp add: trim_def)
  have len: "length (slice value ?i ?e) = ?e - ?i" using e [THEN conjunct2, THEN conjunct1] i by (simp add: slice_def)
  have nth: "slice value ?i ?e ! k = value ! (?i + k)" if "k < ?e - ?i" for k
    using that e [THEN conjunct2, THEN conjunct1] i by (simp add: slice_def)
  have "trimLowerEqual value token \<longleftrightarrow> ?i < ?e \<and> ?e - ?i = length token
      \<and> (\<forall>k < length token. ws_toLowerByte (value ! (?i + k)) = token ! k)"
    by (auto simp: trimLowerEqual_def Let_def list_all_iff)
  also have "\<dots> \<longleftrightarrow> length (trim value) = length token
      \<and> (\<forall>k < length token. map ws_toLowerByte (trim value) ! k = token ! k)"
  proof -
    have "?e - ?i = length token \<Longrightarrow> ?i < ?e" using assms by (metis length_greater_0_conv zero_less_diff)
    then show ?thesis using nth len by (auto simp flip: t)
  qed
  also have "\<dots> \<longleftrightarrow> map ws_toLowerByte (trim value) = token"
    by (auto simp: list_eq_iff_nth_eq)
  finally show ?thesis .
qed

text \<open>The parts between the commas.\<close>

function comma_parts :: "string \<Rightarrow> string list" where
  "comma_parts s = (case dropWhile (\<lambda>c. c \<noteq> CHR '','') s of
     [] \<Rightarrow> [s] | _ # r \<Rightarrow> takeWhile (\<lambda>c. c \<noteq> CHR '','') s # comma_parts r)"
  by pat_completeness auto
termination
proof (relation "measure length", goal_cases)
  case (2 s x r)
  then have "length (dropWhile (\<lambda>c. c \<noteq> CHR '','') s) = Suc (length r)" by simp
  then show ?case using length_dropWhile_le [of "\<lambda>c. c \<noteq> CHR '',''" s] by simp
qed simp

declare comma_parts.simps [simp del]

lemma header_loop_parts:
  "CHR '','' \<notin> set part \<Longrightarrow>
     header_loop (pre @ part @ s) token (length pre) (length pre + length part)
       \<longleftrightarrow> (\<exists>x \<in> set (comma_parts (part @ s)). trimLowerEqual x token)"
proof (induction "length s" arbitrary: pre part s rule: less_induct)
  case less
  let ?p = "pre @ part @ s"
  have tw: "takeWhile (\<lambda>c. c \<noteq> CHR '','') (part @ t) = part @ takeWhile (\<lambda>c. c \<noteq> CHR '','') t"
    "dropWhile (\<lambda>c. c \<noteq> CHR '','') (part @ t) = dropWhile (\<lambda>c. c \<noteq> CHR '','') t" for t
    using less.prems by (auto simp: takeWhile_append dropWhile_append)
  show ?case
  proof (cases s)
    case Nil
    have "header_loop ?p token (length pre) (length pre + length part) \<longleftrightarrow> trimLowerEqual part token"
      using Nil by (simp add: header_loop.simps [of _ _ "length pre"] slice_def)
        (simp add: header_loop.simps [of _ _ "Suc _"])
    moreover have "dropWhile (\<lambda>c. c \<noteq> CHR '','') (part @ s) = []" using tw(2) [of "[]"] Nil by simp
    then have "comma_parts (part @ s) = [part]" using Nil by (subst comma_parts.simps) (simp only: list.case append_Nil2)
    ultimately show ?thesis by simp
  next
    case (Cons c r)
    show ?thesis
    proof (cases "c = CHR '',''")
      case True
      have "header_loop (pre @ part @ '','' @ r) token (length (pre @ part @ '','')) (length (pre @ part @ '',''))
          \<longleftrightarrow> (\<exists>x \<in> set (comma_parts r). trimLowerEqual x token)"
        using less.hyps [of r "[]" "pre @ part @ '',''"] Cons by simp
      moreover have "header_loop ?p token (length pre) (length pre + length part) \<longleftrightarrow> trimLowerEqual part token
          \<or> header_loop ?p token (length pre + length part + 1) (length pre + length part + 1)"
        using True Cons by (simp add: header_loop.simps [of _ _ "length pre"] slice_def nth_append)
      moreover have "comma_parts (part @ s) = part # comma_parts r"
        using tw True Cons by (simp add: comma_parts.simps [of "part @ CHR '','' # r"])
      ultimately show ?thesis using Cons True by simp
    next
      case False
      have "header_loop (pre @ (part @ [c]) @ r) token (length pre) (length pre + length (part @ [c]))
          \<longleftrightarrow> (\<exists>x \<in> set (comma_parts ((part @ [c]) @ r)). trimLowerEqual x token)"
        by (rule less.hyps) (use less.prems False Cons in auto)
      moreover have "header_loop ?p token (length pre) (length pre + length part)
          = header_loop ?p token (length pre) (length pre + length part + 1)"
        using False Cons by (simp add: header_loop.simps [of _ _ "length pre" "length pre + length part"] nth_append)
      ultimately show ?thesis using Cons by simp
    qed
  qed
qed

lemma headerContainsToken_iff:
  assumes "token \<noteq> []"
  shows "headerContainsToken v token \<longleftrightarrow> (\<exists>x \<in> set (comma_parts v). map ws_toLowerByte (trim x) = token)"
proof (cases "v = []")
  case True
  have "comma_parts [] = [[]]" by (simp add: comma_parts.simps)
  then show ?thesis using True assms by (simp add: headerContainsToken_def trim_def)
next
  case False
  then show ?thesis
    using header_loop_parts [of "[]" "[]" v token] trimLowerEqual_iff [OF assms]
    by (simp add: headerContainsToken_def)
qed

end
