(* ===== verification/Ws_Buffer_Pool.thy ===== *)
theory Ws_Buffer_Pool
  imports Ws_Types
begin

section \<open>The buffer pool\<close>

text \<open>
  \<open>libs/shared/websocket/buffer_pool.go\<close>. A bucket holds the buffers put back; \<open>sync.Pool\<close> may
  also have dropped them, so \<open>Get\<close> takes a pooled buffer or makes one, as its argument says. A
  buffer is its full extent (its length is its capacity) with the slice length beside it.
  Allocation panics above \<open>max_alloc\<close>, the limit of the Go runtime on a 64-bit target.
\<close>

definition max_alloc :: int where
  "max_alloc = 2 ^ 48"

definition make_bytes :: "int \<Rightarrow> byte list go" where
  "make_bytes n = (if n < 0 \<or> max_alloc < n then Panic else Ret (replicate (nat n) 0))"

definition defaultBufferPoolBuckets :: "int list" where
  "defaultBufferPoolBuckets = [2 ^ 4, 2 ^ 8, 2 ^ 12, 2 ^ 16, 2 ^ 32, 2 ^ 63 - 1]"

record bufferPool =
  bp_sizes :: "int list"
  bp_pools :: "byte list list list"

record buffer =
  buf_data :: "byte list"
  buf_len :: nat

text \<open>\<open>sort.SearchInts\<close> on a sorted slice: the first index with a value not below \<open>x\<close>.\<close>

definition searchInts :: "int list \<Rightarrow> int \<Rightarrow> nat" where
  "searchInts sizes x = length (takeWhile (\<lambda>s. s < x) sizes)"

fun dedup_loop :: "int list \<Rightarrow> bool \<Rightarrow> int \<Rightarrow> int list" where
  "dedup_loop [] first last' = []"
| "dedup_loop (x # xs) first last' =
     (if first \<or> x \<noteq> last' then x # dedup_loop xs False x else dedup_loop xs False last')"

definition normalizeBucketSizes :: "int list \<Rightarrow> int list" where
  "normalizeBucketSizes sizes =
     (if length sizes = 0 then []
      else let filtered = filter (\<lambda>s. \<not> (s \<le> 0 \<or> s > maxInt64)) sizes in
        if length filtered = 0 then [] else dedup_loop (sort filtered) True 0)"

definition newBufferPool :: "int list \<Rightarrow> bufferPool" where
  "newBufferPool sizes =
     (let cleaned = normalizeBucketSizes sizes;
          cleaned = (if length cleaned = 0 then normalizeBucketSizes defaultBufferPoolBuckets else cleaned)
      in \<lparr>bp_sizes = cleaned, bp_pools = replicate (length cleaned) []\<rparr>)"

definition defaultBufferPool :: bufferPool where
  "defaultBufferPool = newBufferPool defaultBufferPoolBuckets"

definition bufferPool_bucketIndex :: "bufferPool \<Rightarrow> int \<Rightarrow> int" where
  "bufferPool_bucketIndex p s =
     (let idx = searchInts (bp_sizes p) s in if length (bp_sizes p) \<le> idx then - 1 else int idx)"

definition bufferPool_sizeAt :: "bufferPool \<Rightarrow> nat \<Rightarrow> int" where
  "bufferPool_sizeAt p idx = bp_sizes p ! idx"

definition bufferPool_InitSize :: "bufferPool option \<Rightarrow> int" where
  "bufferPool_InitSize p = (case p of None \<Rightarrow> 0 | Some p \<Rightarrow> if length (bp_sizes p) = 0 then 0 else bufferPool_sizeAt p 0)"

text \<open>\<open>sync.Pool.Get\<close>: the pooled buffer at position \<open>k\<close> of the bucket, or a new one.\<close>

definition pool_take :: "bufferPool \<Rightarrow> nat \<Rightarrow> nat option \<Rightarrow> (bufferPool \<times> byte list) go" where
  "pool_take p idx choice =
     (case choice of
        Some k \<Rightarrow>
          (let bucket = bp_pools p ! idx in
           if k < length bucket
           then Ret (p\<lparr>bp_pools := (bp_pools p)[idx := take k bucket @ drop (k + 1) bucket]\<rparr>, bucket ! k)
           else go_bind (make_bytes (bp_sizes p ! idx)) (\<lambda>b. Ret (p, b)))
      | None \<Rightarrow> go_bind (make_bytes (bp_sizes p ! idx)) (\<lambda>b. Ret (p, b)))"

definition bufferPool_Get :: "bufferPool option \<Rightarrow> int \<Rightarrow> nat option \<Rightarrow> (bufferPool option \<times> buffer option) go" where
  "bufferPool_Get p s choice =
     (case p of
        None \<Rightarrow> Ret (None, None)
      | Some q \<Rightarrow>
          if s \<le> 0 \<or> length (bp_pools q) = 0 then Ret (p, None)
          else
            let idx = bufferPool_bucketIndex q s in
            if idx < 0 then go_bind (make_bytes s) (\<lambda>b. Ret (p, Some \<lparr>buf_data = b, buf_len = nat s\<rparr>))
            else go_bind (pool_take q (nat idx) choice) (\<lambda>r.
              case r of (q, b) \<Rightarrow>
                if int (length b) < s
                then go_bind (make_bytes s) (\<lambda>b. Ret (Some q, Some \<lparr>buf_data = b, buf_len = nat s\<rparr>))
                else Ret (Some q, Some \<lparr>buf_data = b, buf_len = nat s\<rparr>)))"

definition bufferPool_Put :: "bufferPool option \<Rightarrow> buffer option \<Rightarrow> bufferPool option" where
  "bufferPool_Put p buf =
     (case (p, buf) of
        (Some q, Some b) \<Rightarrow>
          (let s = int (length (buf_data b)); idx = bufferPool_bucketIndex q s in
           if idx < 0 \<or> bufferPool_sizeAt q (nat idx) \<noteq> s then p
           else Some (q\<lparr>bp_pools := (bp_pools q)[nat idx := buf_data b # bp_pools q ! nat idx]\<rparr>))
      | _ \<Rightarrow> p)"

definition bufferPool_EnsureSize :: "bufferPool option \<Rightarrow> int \<Rightarrow> int" where
  "bufferPool_EnsureSize p s =
     (case p of
        None \<Rightarrow> 0
      | Some q \<Rightarrow>
          if s \<le> 0 then 0
          else let idx = bufferPool_bucketIndex q s in if idx < 0 then 0 else bufferPool_sizeAt q (nat idx))"

definition bufferPool_NextBucketSize :: "bufferPool option \<Rightarrow> int \<Rightarrow> int" where
  "bufferPool_NextBucketSize p s =
     (case p of
        None \<Rightarrow> 0
      | Some q \<Rightarrow>
          if s \<le> 0 then 0
          else
            let idx = searchInts (bp_sizes q) s;
                idx = (if idx < length (bp_sizes q) \<and> bp_sizes q ! idx = s then idx + 1 else idx)
            in if length (bp_sizes q) \<le> idx then 0 else bp_sizes q ! idx)"

subsection \<open>Invariant\<close>

definition pool_ok :: "bufferPool \<Rightarrow> bool" where
  "pool_ok p \<longleftrightarrow> sorted_wrt (<) (bp_sizes p) \<and> (\<forall>s \<in> set (bp_sizes p). 0 < s)
     \<and> length (bp_pools p) = length (bp_sizes p)
     \<and> (\<forall>i < length (bp_sizes p). \<forall>b \<in> set (bp_pools p ! i). int (length b) = bp_sizes p ! i)"

lemma dedup_loop_sorted:
  "sorted xs \<Longrightarrow> (\<not> first \<Longrightarrow> \<forall>x \<in> set xs. l \<le> x) \<Longrightarrow>
     sorted_wrt (<) (dedup_loop xs first l) \<and> set (dedup_loop xs first l) \<subseteq> set xs
     \<and> (\<not> first \<longrightarrow> (\<forall>x \<in> set (dedup_loop xs first l). l < x))
     \<and> set xs \<subseteq> set (dedup_loop xs first l) \<union> (if first then {} else {l})"
proof (induction xs arbitrary: first l)
  case (Cons x xs)
  have a: "sorted_wrt (<) (dedup_loop xs False x) \<and> set (dedup_loop xs False x) \<subseteq> set xs
     \<and> (\<forall>y \<in> set (dedup_loop xs False x). x < y) \<and> set xs \<subseteq> set (dedup_loop xs False x) \<union> {x}"
    using Cons.IH [of False x] Cons.prems by auto
  have b: "sorted_wrt (<) (dedup_loop xs False l) \<and> set (dedup_loop xs False l) \<subseteq> set xs
     \<and> (\<forall>y \<in> set (dedup_loop xs False l). l < y) \<and> set xs \<subseteq> set (dedup_loop xs False l) \<union> {l}" if "\<not> first"
    using Cons.IH [of False l] Cons.prems that by auto
  show ?case
  proof (cases "first \<or> x \<noteq> l")
    case True
    then have "\<not> first \<Longrightarrow> l < x" using Cons.prems(2) by fastforce
    then show ?thesis using a True by (auto dest: less_trans)
  next
    case False
    then show ?thesis using b by auto
  qed
qed simp

lemma normalize_spec:
  "sorted_wrt (<) (normalizeBucketSizes sizes)"
  "set (normalizeBucketSizes sizes) = {s \<in> set sizes. 0 < s \<and> s \<le> maxInt64}"
proof -
  let ?f = "filter (\<lambda>s. \<not> (s \<le> 0 \<or> s > maxInt64)) sizes"
  have d: "sorted_wrt (<) (dedup_loop (sort ?f) True 0) \<and> set (dedup_loop (sort ?f) True 0) = set ?f"
    using dedup_loop_sorted [of "sort ?f" True 0] by auto
  then show "sorted_wrt (<) (normalizeBucketSizes sizes)"
    by (simp add: normalizeBucketSizes_def Let_def)
  show "set (normalizeBucketSizes sizes) = {s \<in> set sizes. 0 < s \<and> s \<le> maxInt64}"
  proof (cases "length sizes = 0 \<or> length ?f = 0")
    case True
    then show ?thesis by (auto simp: normalizeBucketSizes_def filter_empty_conv Let_def)
  next
    case False
    then have "normalizeBucketSizes sizes = dedup_loop (sort ?f) True 0"
      by (simp only: normalizeBucketSizes_def Let_def if_False de_Morgan_disj)
    then have "set (normalizeBucketSizes sizes) = set ?f" using d by metis
    also have "\<dots> = {s \<in> set sizes. 0 < s \<and> s \<le> maxInt64}" by auto
    finally show ?thesis .
  qed
qed

lemma pool_ok_new: "pool_ok (newBufferPool sizes)"
proof -
  define c where "c = (if length (normalizeBucketSizes sizes) = 0
     then normalizeBucketSizes defaultBufferPoolBuckets else normalizeBucketSizes sizes)"
  have "sorted_wrt (<) c" "\<forall>s \<in> set c. 0 < s" using normalize_spec by (auto simp: c_def)
  then show ?thesis unfolding newBufferPool_def Let_def c_def [symmetric] by (simp add: pool_ok_def)
qed

lemma searchInts_spec:
  assumes "sorted_wrt (<) sizes"
  shows "searchInts sizes x \<le> length sizes" "\<forall>i < searchInts sizes x. sizes ! i < x"
    "searchInts sizes x < length sizes \<Longrightarrow> x \<le> sizes ! searchInts sizes x"
proof -
  show "searchInts sizes x \<le> length sizes" by (simp add: searchInts_def length_takeWhile_le)
  show "\<forall>i < searchInts sizes x. sizes ! i < x"
  proof (intro allI impI)
    fix i assume i: "i < searchInts sizes x"
    then have "takeWhile (\<lambda>s. s < x) sizes ! i = sizes ! i" by (simp add: searchInts_def takeWhile_nth)
    moreover have "takeWhile (\<lambda>s. s < x) sizes ! i \<in> set (takeWhile (\<lambda>s. s < x) sizes)"
      using i by (simp add: searchInts_def)
    ultimately show "sizes ! i < x" using set_takeWhileD by metis
  qed
  assume "searchInts sizes x < length sizes"
  then show "x \<le> sizes ! searchInts sizes x"
    using nth_length_takeWhile [of "\<lambda>s. s < x" sizes] by (simp add: searchInts_def)
qed

lemma pool_take_ok:
  assumes "pool_ok p" "idx < length (bp_sizes p)" "pool_take p idx choice = Ret (q, b)"
  shows "pool_ok q" "bp_sizes q = bp_sizes p" "int (length b) = bp_sizes p ! idx"
proof -
  consider (made) "q = p" "make_bytes (bp_sizes p ! idx) = Ret b"
    | (taken) k where "k < length (bp_pools p ! idx)" "b = bp_pools p ! idx ! k"
        "q = p\<lparr>bp_pools := (bp_pools p)[idx := take k (bp_pools p ! idx) @ drop (k + 1) (bp_pools p ! idx)]\<rparr>"
  proof (cases "choice = None \<or> \<not> the choice < length (bp_pools p ! idx)")
    case True
    then have "pool_take p idx choice = go_bind (make_bytes (bp_sizes p ! idx)) (\<lambda>b. Ret (p, b))"
      by (cases choice) (simp_all add: pool_take_def Let_def)
    then show thesis using assms(3) made by (cases "make_bytes (bp_sizes p ! idx)") simp_all
  next
    case False
    then show thesis using assms(3) taken by (auto simp: pool_take_def Let_def)
  qed
  then have "pool_ok q \<and> bp_sizes q = bp_sizes p \<and> int (length b) = bp_sizes p ! idx"
  proof cases
    case made
    moreover have "0 < bp_sizes p ! idx" using assms(1,2) by (simp add: pool_ok_def)
    ultimately show ?thesis using assms(1) by (auto simp: make_bytes_def split: if_splits)
  next
    case taken
    then show ?thesis using assms(1,2)
      by (auto simp: pool_ok_def nth_list_update dest: in_set_takeD in_set_dropD)
  qed
  then show "pool_ok q" "bp_sizes q = bp_sizes p" "int (length b) = bp_sizes p ! idx" by simp_all
qed

subsection \<open>Get and Put\<close>

lemma bucketIndex_cases:
  assumes "pool_ok p"
  obtains "bufferPool_bucketIndex p s = - 1" "\<forall>i < length (bp_sizes p). bp_sizes p ! i < s"
  | i where "bufferPool_bucketIndex p s = int i" "i < length (bp_sizes p)" "s \<le> bp_sizes p ! i"
      "\<forall>j < i. bp_sizes p ! j < s"
proof -
  have sw: "sorted_wrt (<) (bp_sizes p)" using assms by (simp add: pool_ok_def)
  note sp = searchInts_spec [OF sw, of s]
  show thesis
  proof (cases "searchInts (bp_sizes p) s < length (bp_sizes p)")
    case True
    then show thesis using that(2) [of "searchInts (bp_sizes p) s"] sp
      by (simp add: bufferPool_bucketIndex_def Let_def)
  next
    case False
    then have "searchInts (bp_sizes p) s = length (bp_sizes p)" using sp(1) by simp
    then show thesis using that(1) sp(2) by (simp add: bufferPool_bucketIndex_def Let_def)
  qed
qed

text \<open>A buffer from \<open>Get\<close> has the requested length and lies within its extent.\<close>

lemma Get_ok:
  assumes "pool_ok p" "0 < s" "bufferPool_Get (Some p) s choice = Ret (p', Some b)"
  shows "int (buf_len b) = s" "s \<le> int (length (buf_data b))" "\<exists>q. p' = Some q \<and> pool_ok q \<and> bp_sizes q = bp_sizes p"
proof -
  have "int (buf_len b) = s \<and> s \<le> int (length (buf_data b)) \<and> (\<exists>q. p' = Some q \<and> pool_ok q \<and> bp_sizes q = bp_sizes p)"
  proof (cases "length (bp_pools p) = 0")
    case True
    then show ?thesis using assms by (simp add: bufferPool_Get_def)
  next
    case False
    show ?thesis
    proof (rule bucketIndex_cases [OF assms(1), of s])
      assume i: "bufferPool_bucketIndex p s = - 1"
      then show ?thesis using assms False
        by (cases "make_bytes s") (auto simp: bufferPool_Get_def make_bytes_def split: if_splits)
    next
      fix i
      assume i: "bufferPool_bucketIndex p s = int i" "i < length (bp_sizes p)" "s \<le> bp_sizes p ! i"
      obtain q d where t: "pool_take p i choice = Ret (q, d)"
        using assms(2,3) False i(1) by (cases "pool_take p i choice") (auto simp: bufferPool_Get_def)
      note ok = pool_take_ok [OF assms(1) i(2) t]
      have "p' = Some q \<and> b = \<lparr>buf_data = d, buf_len = nat s\<rparr>"
        using assms(2,3) False i ok(3) by (simp add: bufferPool_Get_def t)
      then show ?thesis using ok i(3) assms(2) by simp
    qed
  qed
  then show "int (buf_len b) = s" "s \<le> int (length (buf_data b))"
    "\<exists>q. p' = Some q \<and> pool_ok q \<and> bp_sizes q = bp_sizes p" by blast+
qed

lemma Put_ok:
  assumes "pool_ok p" "bufferPool_Put (Some p) b = Some q"
  shows "pool_ok q" "bp_sizes q = bp_sizes p"
proof -
  have "pool_ok q \<and> bp_sizes q = bp_sizes p"
  proof (cases b)
    case None
    then show ?thesis using assms by (simp add: bufferPool_Put_def)
  next
    case (Some x)
    let ?s = "int (length (buf_data x))"
    show ?thesis
    proof (rule bucketIndex_cases [OF assms(1), of ?s])
      assume "bufferPool_bucketIndex p ?s = - 1"
      then show ?thesis using assms Some by (simp add: bufferPool_Put_def)
    next
      fix i
      assume i: "bufferPool_bucketIndex p ?s = int i" "i < length (bp_sizes p)"
      show ?thesis
      proof (cases "bp_sizes p ! i = ?s")
        case True
        then have "q = p\<lparr>bp_pools := (bp_pools p)[i := buf_data x # bp_pools p ! i]\<rparr>"
          using assms(2) Some i by (simp add: bufferPool_Put_def bufferPool_sizeAt_def Let_def)
        then show ?thesis using assms(1) i True by (auto simp: pool_ok_def nth_list_update)
      next
        case False
        then show ?thesis using assms Some i by (simp add: bufferPool_Put_def bufferPool_sizeAt_def Let_def)
      qed
    qed
  qed
  then show "pool_ok q" "bp_sizes q = bp_sizes p" by simp_all
qed

text \<open>The next bucket is the smallest one above, 0 when there is none; growing is strict.\<close>

lemma NextBucketSize_spec:
  assumes "pool_ok p" "0 < s"
  shows "bufferPool_NextBucketSize (Some p) s = 0 \<and> (\<forall>x \<in> set (bp_sizes p). x \<le> s)
    \<or> bufferPool_NextBucketSize (Some p) s \<in> set (bp_sizes p) \<and> s < bufferPool_NextBucketSize (Some p) s
      \<and> (\<forall>x \<in> set (bp_sizes p). s < x \<longrightarrow> bufferPool_NextBucketSize (Some p) s \<le> x)"
proof -
  let ?S = "bp_sizes p" and ?i = "searchInts (bp_sizes p) s"
  have sw: "sorted_wrt (<) ?S" using assms by (simp add: pool_ok_def)
  note sp = searchInts_spec [OF sw, of s]
  define k where "k = (if ?i < length ?S \<and> ?S ! ?i = s then ?i + 1 else ?i)"
  have v: "bufferPool_NextBucketSize (Some p) s = (if length ?S \<le> k then 0 else ?S ! k)"
    using assms(2) by (simp add: bufferPool_NextBucketSize_def k_def Let_def)
  have below: "?S ! j \<le> s" if "j < k" "j < length ?S" for j
  proof (cases "j < ?i")
    case True
    then show ?thesis using sp(2) by (simp add: less_imp_le)
  next
    case False
    then have "j = ?i" "?S ! ?i = s" using that by (auto simp: k_def split: if_splits)
    then show ?thesis by simp
  qed
  have above: "s < ?S ! k" if "k < length ?S"
  proof (cases "?i < length ?S \<and> ?S ! ?i = s")
    case True
    then have "k = ?i + 1" by (simp add: k_def)
    then have "?S ! ?i < ?S ! k" using that by (intro sorted_wrt_nth_less [OF sw]) simp_all
    with True show ?thesis by simp
  next
    case False
    then have "k = ?i" by (simp add: k_def)
    then show ?thesis using that False sp(3) by (auto simp: less_le)
  qed
  have least: "?S ! k \<le> ?S ! j" if "k < length ?S" "j < length ?S" "s < ?S ! j" for j
  proof (cases "j < k")
    case True
    then show ?thesis using below that by force
  next
    case False
    then show ?thesis using sorted_wrt_nth_less [OF sw, of k j] that(1,2) by (cases "j = k") (simp_all add: less_imp_le)
  qed
  show ?thesis
  proof (cases "length ?S \<le> k")
    case True
    then have "\<forall>x \<in> set ?S. x \<le> s" using below by (auto simp: in_set_conv_nth)
    then show ?thesis using v True by simp
  next
    case False
    then have "?S ! k \<in> set ?S" "bufferPool_NextBucketSize (Some p) s = ?S ! k" using v by simp_all
    moreover have "\<forall>x \<in> set ?S. s < x \<longrightarrow> ?S ! k \<le> x"
      using least False by (auto simp: in_set_conv_nth)
    ultimately show ?thesis using above False by simp
  qed
qed

end
