(* ===== verification/Ws_Frames.thy ===== *)
theory Ws_Frames
  imports Ws_Buffer_Pool
begin

section \<open>Frames, frame queues and the router\<close>

text \<open>
  \<open>frame.go\<close>, \<open>consumer.go\<close> and \<open>router.go\<close>. Frames are shared by reference and counted, so they
  live in a store and are named by number; the frame pool is the list of recycled frames, and
  \<open>sync.Pool\<close> may hand out any of them or make a new one, as the argument \<open>choice\<close> says. The
  reference counter stays far below \<open>2 ^ 31\<close> (one per consumer of a topic), so it is an integer.
  Each critical section of a queue is one step; waiting on a condition variable is a result of
  its own, after which the caller tries again.
\<close>

subsection \<open>Frames\<close>

record Frame =
  Frame_Buf :: "buffer option"
  Frame_Topic :: TopicID
  Frame_Meta :: u64
  Frame_ref :: int
  Frame_pooled :: bool

record frame_store =
  fs_frames :: "nat \<Rightarrow> Frame"
  fs_next :: nat
  fs_pool :: "nat list"
  fs_buffers :: "bufferPool option"

definition fs_upd :: "nat \<Rightarrow> (Frame \<Rightarrow> Frame) \<Rightarrow> frame_store \<Rightarrow> frame_store" where
  "fs_upd f g st = st\<lparr>fs_frames := (fs_frames st)(f := g (fs_frames st f))\<rparr>"

definition framePool_New :: "frame_store \<Rightarrow> buffer option \<Rightarrow> nat option \<Rightarrow> frame_store \<times> nat" where
  "framePool_New st buf choice =
     (let (st, f) = (case choice of
            Some k \<Rightarrow> (if k < length (fs_pool st)
              then (st\<lparr>fs_pool := take k (fs_pool st) @ drop (k + 1) (fs_pool st)\<rparr>, fs_pool st ! k)
              else (st\<lparr>fs_next := fs_next st + 1\<rparr>, fs_next st))
          | None \<Rightarrow> (st\<lparr>fs_next := fs_next st + 1\<rparr>, fs_next st))
      in (st\<lparr>fs_frames := (fs_frames st)(f := \<lparr>Frame_Buf = buf, Frame_Topic = 0, Frame_Meta = 0,
            Frame_ref = 1, Frame_pooled = True\<rparr>)\<rparr>, f))"

definition framePool_recycle :: "frame_store \<Rightarrow> nat \<Rightarrow> frame_store" where
  "framePool_recycle st f =
     (let fr = fs_frames st f;
          st = (if Frame_Buf fr \<noteq> None \<and> fs_buffers st \<noteq> None
                then st\<lparr>fs_buffers := bufferPool_Put (fs_buffers st) (Frame_Buf fr)\<rparr> else st);
          st = fs_upd f (\<lambda>fr. fr\<lparr>Frame_Buf := None, Frame_Topic := 0, Frame_Meta := 0, Frame_pooled := False\<rparr>) st
      in st\<lparr>fs_pool := f # fs_pool st\<rparr>)"

definition Frame_Retain :: "frame_store \<Rightarrow> nat \<Rightarrow> frame_store" where
  "Frame_Retain st f = fs_upd f (\<lambda>fr. fr\<lparr>Frame_ref := Frame_ref fr + 1\<rparr>) st"

definition Frame_Release :: "frame_store \<Rightarrow> nat \<Rightarrow> frame_store" where
  "Frame_Release st f =
     (let st = fs_upd f (\<lambda>fr. fr\<lparr>Frame_ref := Frame_ref fr - 1\<rparr>) st in
      if Frame_ref (fs_frames st f) \<noteq> 0 then st
      else if Frame_pooled (fs_frames st f) then framePool_recycle st f
      else st)"

subsection \<open>The ring buffer\<close>

record frameQueue =
  fq_buf :: "nat option list"
  fq_head :: nat
  fq_tail :: nat
  fq_size :: nat
  fq_closed :: bool
  fq_policy :: OverflowPolicy

definition newFrameQueue :: "int \<Rightarrow> OverflowPolicy \<Rightarrow> frameQueue" where
  "newFrameQueue capacity policy =
     (let capacity = (if capacity \<le> 0 then 1 else capacity) in
      \<lparr>fq_buf = replicate (nat capacity) None, fq_head = 0, fq_tail = 0, fq_size = 0, fq_closed = False,
       fq_policy = policy\<rparr>)"

datatype push_result = Pushed | Rejected | PushWait

function frameQueue_Push :: "frame_store \<Rightarrow> frameQueue \<Rightarrow> nat \<Rightarrow> (frame_store \<times> frameQueue \<times> push_result) go" where
  "frameQueue_Push st q frame =
     (if fq_closed q then Ret (st, q, Rejected)
      else if fq_size q < length (fq_buf q) then
        (if length (fq_buf q) \<le> fq_tail q then Panic
         else Ret (st, q\<lparr>fq_buf := (fq_buf q)[fq_tail q := Some frame],
                         fq_tail := (fq_tail q + 1) mod length (fq_buf q),
                         fq_size := fq_size q + 1\<rparr>, Pushed))
      else if fq_policy q = OverflowBlock then Ret (st, q, PushWait)
      else if fq_policy q = OverflowDropOldest then
        (if length (fq_buf q) \<le> fq_head q then Panic
         else
           let old = fq_buf q ! fq_head q;
               q = q\<lparr>fq_buf := (fq_buf q)[fq_head q := None],
                     fq_head := (fq_head q + 1) mod length (fq_buf q),
                     fq_size := fq_size q - 1\<rparr>;
               st = (case old of None \<Rightarrow> st | Some f \<Rightarrow> Frame_Release st f)
           in frameQueue_Push st q frame)
      else Ret (st, q, Rejected))"
  by pat_completeness auto
termination
  by (relation "measure (\<lambda>(st, q, frame). fq_size q)") auto

declare frameQueue_Push.simps [simp del]

datatype pop_result = Popped "nat option" | PopClosed | PopWait

definition frameQueue_Pop :: "frameQueue \<Rightarrow> frameQueue \<times> pop_result" where
  "frameQueue_Pop q =
     (if 0 < fq_size q then
        (q\<lparr>fq_buf := (fq_buf q)[fq_head q := None], fq_head := (fq_head q + 1) mod length (fq_buf q),
           fq_size := fq_size q - 1\<rparr>, Popped (fq_buf q ! fq_head q))
      else if fq_closed q then (q, PopClosed)
      else (q, PopWait))"

definition close_slot :: "nat \<Rightarrow> frame_store \<times> frameQueue \<Rightarrow> frame_store \<times> frameQueue" where
  "close_slot i = (\<lambda>(st, q).
     let idx = (fq_head q + i) mod length (fq_buf q) in
     case fq_buf q ! idx of
       None \<Rightarrow> (st, q)
     | Some f \<Rightarrow> (Frame_Release st f, q\<lparr>fq_buf := (fq_buf q)[idx := None]\<rparr>))"

definition frameQueue_Close :: "frame_store \<Rightarrow> frameQueue \<Rightarrow> frame_store \<times> frameQueue" where
  "frameQueue_Close st q =
     (if fq_closed q then (st, q)
      else
        let q = q\<lparr>fq_closed := True\<rparr>;
            (st, q) = fold close_slot [0..<fq_size q] (st, q)
        in (st, q\<lparr>fq_size := 0, fq_head := 0, fq_tail := 0\<rparr>))"

definition frameQueue_Len :: "frameQueue \<Rightarrow> nat" where
  "frameQueue_Len q = fq_size q"

subsection \<open>The ring buffer is a list\<close>

definition fq_slot :: "frameQueue \<Rightarrow> nat \<Rightarrow> nat" where
  "fq_slot q i = (fq_head q + i) mod length (fq_buf q)"

definition fq_ok :: "frameQueue \<Rightarrow> bool" where
  "fq_ok q \<longleftrightarrow> 0 < length (fq_buf q) \<and> fq_head q < length (fq_buf q) \<and> fq_size q \<le> length (fq_buf q)
     \<and> fq_tail q = (fq_head q + fq_size q) mod length (fq_buf q)
     \<and> (\<forall>i < fq_size q. fq_buf q ! fq_slot q i \<noteq> None)
     \<and> (\<forall>i. fq_size q \<le> i \<and> i < length (fq_buf q) \<longrightarrow> fq_buf q ! fq_slot q i = None)"

definition fq_list :: "frameQueue \<Rightarrow> nat list" where
  "fq_list q = map (\<lambda>i. the (fq_buf q ! fq_slot q i)) [0..<fq_size q]"

lemma fq_slot_less: "fq_ok q \<Longrightarrow> fq_slot q i < length (fq_buf q)"
  by (simp add: fq_ok_def fq_slot_def)

lemma fq_slot_inj:
  assumes "fq_ok q" "i < length (fq_buf q)" "j < length (fq_buf q)" "fq_slot q i = fq_slot q j"
  shows "i = j"
proof -
  have m: "fq_slot q k = (if fq_head q + k < length (fq_buf q) then fq_head q + k
      else fq_head q + k - length (fq_buf q))" if "k < length (fq_buf q)" for k
  proof -
    have "fq_head q < length (fq_buf q)" using assms(1) by (simp add: fq_ok_def)
    then have "\<not> fq_head q + k < length (fq_buf q) \<Longrightarrow> fq_head q + k - length (fq_buf q) < length (fq_buf q)"
      using that by linarith
    then show ?thesis by (simp add: fq_slot_def le_mod_geq)
  qed
  from assms(4) show ?thesis using m [OF assms(2)] m [OF assms(3)] assms(2,3)
    by (simp split: if_splits)
qed

lemma fq_ok_new: "fq_ok (newFrameQueue capacity policy)" "fq_list (newFrameQueue capacity policy) = []"
  by (auto simp: fq_ok_def newFrameQueue_def Let_def fq_slot_def fq_list_def)

lemma length_fq_list [simp]: "length (fq_list q) = fq_size q"
  by (simp add: fq_list_def)

text \<open>Adding at the tail.\<close>

definition fq_enq :: "frameQueue \<Rightarrow> nat \<Rightarrow> frameQueue" where
  "fq_enq q f = q\<lparr>fq_buf := (fq_buf q)[fq_tail q := Some f],
     fq_tail := (fq_tail q + 1) mod length (fq_buf q), fq_size := fq_size q + 1\<rparr>"

lemma fq_enq_sel [simp]:
  "fq_size (fq_enq q f) = fq_size q + 1" "length (fq_buf (fq_enq q f)) = length (fq_buf q)"
  "fq_closed (fq_enq q f) = fq_closed q" "fq_policy (fq_enq q f) = fq_policy q"
  by (simp_all add: fq_enq_def)

lemma fq_enq_ok:
  assumes "fq_ok q" "fq_size q < length (fq_buf q)"
  shows "fq_ok (fq_enq q f)" "fq_list (fq_enq q f) = fq_list q @ [f]"
proof -
  let ?n = "length (fq_buf q)" and ?q = "fq_enq q f"
  have tail: "fq_tail q = fq_slot q (fq_size q)" using assms by (simp add: fq_ok_def fq_slot_def)
  have slot: "fq_slot ?q i = fq_slot q i" for i by (simp add: fq_slot_def fq_enq_def)
  have buf: "fq_buf ?q ! fq_slot q i = (if i = fq_size q then Some f else fq_buf q ! fq_slot q i)" if "i < ?n" for i
    using fq_slot_inj [OF assms(1) that assms(2)] fq_slot_less [OF assms(1)]
    by (auto simp: fq_enq_def tail nth_list_update)
  show "fq_ok ?q"
    unfolding fq_ok_def
  proof (intro conjI allI impI)
    fix i
    show "fq_buf ?q ! fq_slot ?q i \<noteq> None" if "i < fq_size ?q"
      using that buf [of i] assms unfolding slot by (auto simp: fq_ok_def less_Suc_eq)
    show "fq_buf ?q ! fq_slot ?q i = None" if "fq_size ?q \<le> i \<and> i < length (fq_buf ?q)"
      using that buf [of i] assms unfolding slot by (auto simp: fq_ok_def)
  qed (use assms in \<open>simp_all add: fq_enq_def fq_ok_def mod_Suc_eq\<close>)
  have "map (\<lambda>i. the (fq_buf ?q ! fq_slot q i)) [0..<fq_size q] = map (\<lambda>i. the (fq_buf q ! fq_slot q i)) [0..<fq_size q]"
    using buf assms by (intro map_cong refl) auto
  then show "fq_list ?q = fq_list q @ [f]"
    using buf [of "fq_size q"] assms by (simp add: fq_list_def slot)
qed

text \<open>Taking from the head.\<close>

definition fq_deq :: "frameQueue \<Rightarrow> frameQueue" where
  "fq_deq q = q\<lparr>fq_buf := (fq_buf q)[fq_head q := None],
     fq_head := (fq_head q + 1) mod length (fq_buf q), fq_size := fq_size q - 1\<rparr>"

lemma fq_deq_sel [simp]:
  "fq_size (fq_deq q) = fq_size q - 1" "length (fq_buf (fq_deq q)) = length (fq_buf q)"
  "fq_closed (fq_deq q) = fq_closed q" "fq_policy (fq_deq q) = fq_policy q"
  by (simp_all add: fq_deq_def)

lemma fq_deq_ok:
  assumes "fq_ok q" "0 < fq_size q"
  shows "fq_ok (fq_deq q)" "fq_list q = the (fq_buf q ! fq_head q) # fq_list (fq_deq q)"
    "fq_buf q ! fq_head q \<noteq> None"
proof -
  let ?n = "length (fq_buf q)" and ?q = "fq_deq q"
  have n: "0 < ?n" "fq_size q \<le> ?n" "fq_head q < ?n" using assms by (simp_all add: fq_ok_def)
  have head: "fq_head q = fq_slot q 0" using n by (simp add: fq_slot_def)
  have slot: "fq_slot ?q i = fq_slot q (i + 1)" for i
    using n by (simp add: fq_slot_def fq_deq_def mod_add_left_eq)
  have buf: "fq_buf ?q ! fq_slot q i = (if i = 0 then None else fq_buf q ! fq_slot q i)" if "i < ?n" for i
    using fq_slot_inj [OF assms(1) that n(1)] fq_slot_less [OF assms(1)] n
    by (auto simp: fq_deq_def head nth_list_update)
  have wrap: "fq_slot q ?n = fq_slot q 0" by (simp add: fq_slot_def)
  show "fq_buf q ! fq_head q \<noteq> None" using assms by (simp add: fq_ok_def head)
  show "fq_ok ?q"
    unfolding fq_ok_def
  proof (intro conjI allI impI)
    fix i
    show "fq_buf ?q ! fq_slot ?q i \<noteq> None" if "i < fq_size ?q"
      using that buf [of "i + 1"] assms unfolding slot by (auto simp: fq_ok_def)
    show "fq_buf ?q ! fq_slot ?q i = None" if i: "fq_size ?q \<le> i \<and> i < length (fq_buf ?q)"
    proof (cases "i + 1 = ?n")
      case True
      then have "fq_slot ?q i = fq_slot q 0" using slot [of i] wrap by simp
      then show ?thesis using buf [OF n(1)] by simp
    next
      case False
      then have "i + 1 < ?n" using i by (simp add: fq_deq_def)
      then show ?thesis using i buf [of "i + 1"] assms unfolding slot by (auto simp: fq_ok_def)
    qed
  next
    show "fq_tail ?q = (fq_head ?q + fq_size ?q) mod length (fq_buf ?q)"
      using assms by (cases "fq_size q") (simp_all add: fq_deq_def fq_ok_def mod_add_left_eq)
  qed (use assms n in \<open>simp_all add: fq_deq_def\<close>)
  have "map (\<lambda>i. the (fq_buf ?q ! fq_slot ?q i)) [0..<fq_size q - 1]
      = map (\<lambda>i. the (fq_buf q ! fq_slot q (i + 1))) [0..<fq_size q - 1]"
    using buf n(2) by (intro map_cong refl) (auto simp: slot)
  moreover have "[0..<fq_size q] = 0 # map Suc [0..<fq_size q - 1]"
    using assms(2) by (metis Suc_pred' map_Suc_upt upt_conv_Cons)
  ultimately show "fq_list q = the (fq_buf q ! fq_head q) # fq_list ?q"
    by (simp add: fq_list_def head)
qed

end
