(* ===== verification/Ws_Router.thy ===== *)
theory Ws_Router
  imports Ws_Frames
begin

section \<open>Routing frames: ownership by reference count\<close>

text \<open>
  \<open>router.go\<close>, and the proof that the reference counts are right: at every step the counter of a
  frame is the number of queue slots and holders that name it, a frame in the pool is named by
  nobody, and so no queue ever holds a recycled frame and no frame is lost. \<open>holds\<close> counts the
  references outside the queues (the read loop's, a consumer's after \<open>Next\<close>).
\<close>

subsection \<open>What a push does\<close>

lemma Push_closed: "fq_closed q \<Longrightarrow> frameQueue_Push st q f = Ret (st, q, Rejected)"
  by (simp add: frameQueue_Push.simps)

lemma Push_space:
  assumes "fq_ok q" "\<not> fq_closed q" "fq_size q < length (fq_buf q)"
  shows "frameQueue_Push st q f = Ret (st, fq_enq q f, Pushed)"
proof -
  have "fq_tail q < length (fq_buf q)" using assms by (simp add: fq_ok_def)
  then show ?thesis using assms by (simp add: frameQueue_Push.simps fq_enq_def not_le)
qed

lemma Push_full:
  assumes "fq_ok q" "\<not> fq_closed q" "fq_size q = length (fq_buf q)"
  shows "frameQueue_Push st q f =
    (if fq_policy q = OverflowBlock then Ret (st, q, PushWait)
     else if fq_policy q = OverflowDropOldest
     then Ret (Frame_Release st (hd (fq_list q)), fq_enq (fq_deq q) f, Pushed)
     else Ret (st, q, Rejected))"
proof -
  have n: "fq_head q < length (fq_buf q)" "0 < fq_size q" using assms by (simp_all add: fq_ok_def)
  note d = fq_deq_ok [OF assms(1) n(2)]
  have "frameQueue_Push (Frame_Release st (hd (fq_list q))) (fq_deq q) f
      = Ret (Frame_Release st (hd (fq_list q)), fq_enq (fq_deq q) f, Pushed)"
    by (rule Push_space) (use d(1) assms n in simp_all)
  moreover have "fq_policy q = OverflowDropOldest \<Longrightarrow>
      frameQueue_Push st q f = frameQueue_Push (Frame_Release st (hd (fq_list q))) (fq_deq q) f"
    using assms n d(2,3) by (subst frameQueue_Push.simps) (auto simp: Let_def fq_deq_def)
  moreover have "frameQueue_Push st q f = (if fq_policy q = OverflowBlock then Ret (st, q, PushWait)
      else Ret (st, q, Rejected))" if "fq_policy q \<noteq> OverflowDropOldest"
    using assms that by (subst frameQueue_Push.simps) simp
  ultimately show ?thesis by (cases "fq_policy q = OverflowDropOldest") simp_all
qed

lemma Pop_eq:
  "frameQueue_Pop q = (if 0 < fq_size q then (fq_deq q, Popped (fq_buf q ! fq_head q))
     else if fq_closed q then (q, PopClosed) else (q, PopWait))"
  by (simp add: frameQueue_Pop_def fq_deq_def)

subsection \<open>The queue as an interface\<close>

text \<open>
  A client of the queue relies on three laws only: adding appends to the contents, taking removes
  the first element, both keep the invariant. First in, first out follows.
\<close>

locale fifo =
  fixes ok :: "'q \<Rightarrow> bool" and contents :: "'q \<Rightarrow> 'a list" and space :: "'q \<Rightarrow> nat"
    and enq :: "'q \<Rightarrow> 'a \<Rightarrow> 'q" and deq :: "'q \<Rightarrow> 'q" and front :: "'q \<Rightarrow> 'a"
  assumes enq_law: "ok q \<Longrightarrow> 0 < space q \<Longrightarrow> ok (enq q x) \<and> contents (enq q x) = contents q @ [x]
      \<and> space (enq q x) = space q - 1"
    and deq_law: "ok q \<Longrightarrow> contents q \<noteq> [] \<Longrightarrow> ok (deq q) \<and> contents q = front q # contents (deq q)
      \<and> space (deq q) = space q + 1"
begin

fun take_out :: "nat \<Rightarrow> 'q \<Rightarrow> 'a list" where
  "take_out 0 q = []"
| "take_out (Suc n) q = front q # take_out n (deq q)"

lemma enq_all:
  "ok q \<Longrightarrow> length xs \<le> space q \<Longrightarrow> ok (foldl enq q xs) \<and> contents (foldl enq q xs) = contents q @ xs
     \<and> space (foldl enq q xs) = space q - length xs"
proof (induction xs arbitrary: q)
  case (Cons x xs)
  then show ?case using enq_law [of q x] Cons.IH [of "enq q x"] by simp
qed simp

lemma take_out_contents: "ok q \<Longrightarrow> n \<le> length (contents q) \<Longrightarrow> take_out n q = take n (contents q)"
proof (induction n arbitrary: q)
  case (Suc n)
  then have "contents q \<noteq> []" by auto
  then show ?case using deq_law [of q] Suc by (metis Suc_le_mono length_Cons take_Suc_Cons take_out.simps(2))
qed simp

lemma in_order:
  "ok q \<Longrightarrow> contents q = [] \<Longrightarrow> length xs \<le> space q \<Longrightarrow> take_out (length xs) (foldl enq q xs) = xs"
  using enq_all [of q xs] take_out_contents [of "foldl enq q xs" "length xs"] by simp

end

interpretation ring: fifo fq_ok fq_list "\<lambda>q. length (fq_buf q) - fq_size q" fq_enq fq_deq
  "\<lambda>q. the (fq_buf q ! fq_head q)"
proof
  fix q :: frameQueue and x
  assume "fq_ok q" "0 < length (fq_buf q) - fq_size q"
  then show "fq_ok (fq_enq q x) \<and> fq_list (fq_enq q x) = fq_list q @ [x]
      \<and> length (fq_buf (fq_enq q x)) - fq_size (fq_enq q x) = length (fq_buf q) - fq_size q - 1"
    using fq_enq_ok [of q x] by simp
next
  fix q :: frameQueue
  assume a: "fq_ok q" "fq_list q \<noteq> []"
  then have "0 < fq_size q" by (cases "fq_size q") (simp_all add: fq_list_def)
  moreover have "fq_size q \<le> length (fq_buf q)" using a by (simp add: fq_ok_def)
  ultimately show "fq_ok (fq_deq q) \<and> fq_list q = the (fq_buf q ! fq_head q) # fq_list (fq_deq q)
      \<and> length (fq_buf (fq_deq q)) - fq_size (fq_deq q) = length (fq_buf q) - fq_size q + 1"
    using fq_deq_ok [OF a(1)] by auto
qed

subsection \<open>The router\<close>

record router =
  rt_topics :: "TopicID \<rightharpoonup> nat list"
  rt_fanOut :: FanOutMode
  rt_hasPool :: bool

definition newRouter :: "FanOutMode \<Rightarrow> router" where
  "newRouter fanOut = \<lparr>rt_topics = Map.empty, rt_fanOut = fanOut, rt_hasPool = True\<rparr>"

definition rt_list :: "router \<Rightarrow> TopicID \<Rightarrow> nat list" where
  "rt_list r topic = (case rt_topics r topic of None \<Rightarrow> [] | Some l \<Rightarrow> l)"

definition router_AddConsumer :: "router option \<Rightarrow> TopicID \<Rightarrow> nat option \<Rightarrow> router option" where
  "router_AddConsumer r topic consumer =
     (case (r, consumer) of
        (Some rt, Some c) \<Rightarrow>
          (let l = rt_list rt topic in
           if c \<in> set l then r else Some (rt\<lparr>rt_topics := (rt_topics rt)(topic \<mapsto> l @ [c])\<rparr>))
      | _ \<Rightarrow> r)"

fun find_index :: "nat list \<Rightarrow> nat \<Rightarrow> nat option" where
  "find_index [] x = None"
| "find_index (y # ys) x = (if y = x then Some 0 else map_option Suc (find_index ys x))"

definition router_RemoveConsumer :: "router option \<Rightarrow> TopicID \<Rightarrow> nat option \<Rightarrow> router option" where
  "router_RemoveConsumer r topic consumer =
     (case (r, consumer) of
        (Some rt, Some c) \<Rightarrow>
          (let l = rt_list rt topic in
           case find_index l c of
             None \<Rightarrow> r
           | Some i \<Rightarrow>
               (let l = l[i := l ! (length l - 1)]; l = take (length l - 1) l in
                Some (if length l = 0 then rt\<lparr>rt_topics := (rt_topics rt)(topic := None)\<rparr>
                      else rt\<lparr>rt_topics := (rt_topics rt)(topic \<mapsto> l)\<rparr>)))
      | _ \<Rightarrow> r)"

definition router_RemoveTopic :: "router option \<Rightarrow> TopicID \<Rightarrow> router option" where
  "router_RemoveTopic r topic =
     (case r of None \<Rightarrow> None | Some rt \<Rightarrow> Some (rt\<lparr>rt_topics := (rt_topics rt)(topic := None)\<rparr>))"

text \<open>
  The loops over the consumers. A blocked push leaves the consumers not yet served, so that the
  goroutine can go on from there.
\<close>

type_synonym route_state = "frame_store \<times> frameQueue list \<times> nat list"

fun shared_loop :: "frame_store \<Rightarrow> frameQueue list \<Rightarrow> nat \<Rightarrow> nat list \<Rightarrow> route_state go" where
  "shared_loop st qs frame [] = Ret (st, qs, [])"
| "shared_loop st qs frame (c # cs) =
     go_bind (frameQueue_Push st (qs ! c) frame) (\<lambda>(st, q, res).
       let qs = qs[c := q] in
       case res of
         Pushed \<Rightarrow> shared_loop st qs frame cs
       | Rejected \<Rightarrow> shared_loop (Frame_Release st frame) qs frame cs
       | PushWait \<Rightarrow> Ret (st, qs, c # cs))"

definition routeShared :: "frame_store \<Rightarrow> frameQueue list \<Rightarrow> nat \<Rightarrow> nat list \<Rightarrow> route_state go" where
  "routeShared st qs frame cs =
     shared_loop (fs_upd frame (\<lambda>fr. fr\<lparr>Frame_ref := int (length cs)\<rparr>) st) qs frame cs"

definition visible :: "buffer \<Rightarrow> byte list" where
  "visible b = take (buf_len b) (buf_data b)"

text \<open>\<open>copy(buf, frame.Buf)\<close> into the buffer's extent, and \<open>buf[:len(frame.Buf)]\<close>.\<close>

definition copyFrame ::
  "frame_store \<Rightarrow> bool \<Rightarrow> nat \<Rightarrow> nat option \<times> nat option \<Rightarrow> (frame_store \<times> nat option) go" where
  "copyFrame st hasPool frame choice =
     (if \<not> hasPool \<or> fs_buffers st = None then Ret (st, None)
      else
        let src = (case Frame_Buf (fs_frames st frame) of None \<Rightarrow> [] | Some b \<Rightarrow> visible b);
            n = length src
        in go_bind (bufferPool_Get (fs_buffers st) (int n) (fst choice)) (\<lambda>(bp, buf).
          let st = st\<lparr>fs_buffers := bp\<rparr>;
              buf = map_option (\<lambda>b. \<lparr>buf_data = src @ drop n (buf_data b), buf_len = n\<rparr>) buf;
              (st, f) = framePool_New st buf (snd choice);
              st = fs_upd f (\<lambda>fr. fr\<lparr>Frame_Topic := Frame_Topic (fs_frames st frame),
                                     Frame_Meta := Frame_Meta (fs_frames st frame)\<rparr>) st
          in Ret (st, Some f)))"

fun copy_loop ::
  "frame_store \<Rightarrow> bool \<Rightarrow> frameQueue list \<Rightarrow> nat \<Rightarrow> (nat \<Rightarrow> nat option \<times> nat option) \<Rightarrow> nat list
     \<Rightarrow> (route_state \<times> nat option) go" where
  "copy_loop st hasPool qs frame choice [] = Ret ((st, qs, []), None)"
| "copy_loop st hasPool qs frame choice (c # cs) =
     go_bind (copyFrame st hasPool frame (choice c)) (\<lambda>(st, copied).
       case copied of
         None \<Rightarrow> copy_loop st hasPool qs frame choice cs
       | Some f \<Rightarrow>
           go_bind (frameQueue_Push st (qs ! c) f) (\<lambda>(st, q, res).
             let qs = qs[c := q] in
             case res of
               Pushed \<Rightarrow> copy_loop st hasPool qs frame choice cs
             | Rejected \<Rightarrow> copy_loop (Frame_Release st f) hasPool qs frame choice cs
             | PushWait \<Rightarrow> Ret ((st, qs, c # cs), Some f)))"

text \<open>The result names the consumers still to be served and the copy waiting for its queue.\<close>

definition router_Route ::
  "router option \<Rightarrow> frame_store \<Rightarrow> frameQueue list \<Rightarrow> nat option \<Rightarrow> (nat \<Rightarrow> nat option \<times> nat option)
     \<Rightarrow> (route_state \<times> nat option) go" where
  "router_Route r st qs frame choice =
     (case (r, frame) of
        (Some rt, Some f) \<Rightarrow>
          (let consumers = rt_list rt (Frame_Topic (fs_frames st f)) in
           if length consumers = 0 then Ret ((Frame_Release st f, qs, []), None)
           else if rt_fanOut rt = FanOutCopy then
             go_bind (copy_loop st (rt_hasPool rt) qs f choice consumers) (\<lambda>((st, qs, rest), waiting).
               if rest = [] then Ret ((Frame_Release st f, qs, []), None)
               else Ret ((st, qs, rest), waiting))
           else go_bind (routeShared st qs f consumers) (\<lambda>s. Ret (s, None)))
      | _ \<Rightarrow> Ret ((st, qs, []), None))"

subsection \<open>The invariant of the reference counts\<close>

definition occ :: "frameQueue list \<Rightarrow> nat \<Rightarrow> nat" where
  "occ qs f = sum_list (map (\<lambda>q. count_list (fq_list q) f) qs)"

definition live :: "frame_store \<Rightarrow> nat \<Rightarrow> bool" where
  "live st f \<longleftrightarrow> f < fs_next st \<and> f \<notin> set (fs_pool st)"

definition refs_ok :: "frame_store \<Rightarrow> frameQueue list \<Rightarrow> (nat \<Rightarrow> nat) \<Rightarrow> bool" where
  "refs_ok st qs holds \<longleftrightarrow> list_all fq_ok qs \<and> distinct (fs_pool st) \<and> (\<forall>f \<in> set (fs_pool st). f < fs_next st)
     \<and> (\<forall>f. live st f \<longrightarrow> Frame_ref (fs_frames st f) = int (occ qs f + holds f) \<and> 0 < occ qs f + holds f
          \<and> Frame_pooled (fs_frames st f))
     \<and> (\<forall>f. \<not> live st f \<longrightarrow> occ qs f = 0 \<and> holds f = 0)"

lemma occ_update:
  assumes "c < length qs"
  shows "occ (qs[c := q]) f + count_list (fq_list (qs ! c)) f = occ qs f + count_list (fq_list q) f"
  using assms
proof (induction qs arbitrary: c)
  case (Cons x qs)
  then show ?case by (cases c) (auto simp: occ_def)
qed simp

lemma refs_ok_live: "refs_ok st qs h \<Longrightarrow> 0 < h f \<Longrightarrow> live st f"
  unfolding refs_ok_def by (metis less_irrefl)

text \<open>Giving up one reference.\<close>

lemma refs_ok_release:
  assumes "refs_ok st qs (h(f := Suc n))"
  shows "refs_ok (Frame_Release st f) qs (h(f := n))"
proof -
  have l: "live st f" using refs_ok_live [OF assms, of f] by simp
  have r: "Frame_ref (fs_frames st f) = int (occ qs f + Suc n)" "Frame_pooled (fs_frames st f)"
    using assms l unfolding refs_ok_def by auto
  have p: "distinct (fs_pool st)" "\<forall>g \<in> set (fs_pool st). g < fs_next st" "list_all fq_ok qs"
    using assms unfolding refs_ok_def by auto
  have other: "live st g \<Longrightarrow> g \<noteq> f \<Longrightarrow> Frame_ref (fs_frames st g) = int (occ qs g + h g) \<and> 0 < occ qs g + h g
      \<and> Frame_pooled (fs_frames st g)" for g
    using assms unfolding refs_ok_def by (metis fun_upd_other)
  have dead: "\<not> live st g \<Longrightarrow> occ qs g = 0 \<and> (g \<noteq> f \<longrightarrow> h g = 0)" for g
    using assms unfolding refs_ok_def by (metis fun_upd_other)
  show ?thesis
  proof (cases "occ qs f + n = 0")
    case False
    then have "int (occ qs f) + int n \<noteq> 0" by linarith
    then have e: "Frame_Release st f = fs_upd f (\<lambda>fr. fr\<lparr>Frame_ref := Frame_ref fr - 1\<rparr>) st"
      using r by (simp add: Frame_Release_def fs_upd_def Let_def)
    have "live (Frame_Release st f) g \<longleftrightarrow> live st g" for g by (simp add: e live_def fs_upd_def)
    then show ?thesis unfolding refs_ok_def
      using p other dead l r False by (auto simp: e fs_upd_def)
  next
    case True
    let ?s = "Frame_Release st f"
    have e: "fs_pool ?s = f # fs_pool st" "fs_next ?s = fs_next st"
      "g \<noteq> f \<Longrightarrow> fs_frames ?s g = fs_frames st g" for g
      using r True by (simp_all add: Frame_Release_def framePool_recycle_def fs_upd_def Let_def)
    have lv: "live ?s g \<longleftrightarrow> live st g \<and> g \<noteq> f" for g by (auto simp: live_def e)
    show ?thesis unfolding refs_ok_def
      using p other dead l True lv by (auto simp: e live_def)
  qed
qed

text \<open>Moving a reference into a queue and out of it.\<close>

lemma refs_ok_enq:
  assumes "refs_ok st qs (h(f := Suc n))" "c < length qs" "fq_size (qs ! c) < length (fq_buf (qs ! c))"
  shows "refs_ok st (qs[c := fq_enq (qs ! c) f]) (h(f := n))"
proof -
  have ok: "fq_ok (qs ! c)" using assms(1,2) by (simp add: refs_ok_def list_all_length)
  note e = fq_enq_ok [OF ok assms(3), of f]
  have o1: "occ (qs[c := fq_enq (qs ! c) f]) g = occ qs g + (if g = f then 1 else 0)" for g
    using occ_update [OF assms(2), of "fq_enq (qs ! c) f" g] by (simp add: e(2))
  have "list_all fq_ok (qs[c := fq_enq (qs ! c) f])"
    using assms(1) e(1) by (auto simp: refs_ok_def list_all_iff dest: set_update_subset_insert [THEN subsetD])
  then show ?thesis
    using assms(1) unfolding refs_ok_def by (auto simp: o1)
qed

lemma refs_ok_deq:
  assumes "refs_ok st qs h" "c < length qs" "0 < fq_size (qs ! c)"
  shows "refs_ok st (qs[c := fq_deq (qs ! c)]) (h(hd (fq_list (qs ! c)) := Suc (h (hd (fq_list (qs ! c))))))"
proof -
  have ok: "fq_ok (qs ! c)" using assms(1,2) by (simp add: refs_ok_def list_all_length)
  note d = fq_deq_ok [OF ok assms(3)]
  let ?f = "hd (fq_list (qs ! c))"
  have o1: "occ (qs[c := fq_deq (qs ! c)]) g + (if g = ?f then 1 else 0) = occ qs g" for g
    using occ_update [OF assms(2), of "fq_deq (qs ! c)" g] d(2) by (simp split: if_splits)
  have "list_all fq_ok (qs[c := fq_deq (qs ! c)])"
    using assms(1) d(1) by (auto simp: refs_ok_def list_all_iff dest: set_update_subset_insert [THEN subsetD])
  moreover have "occ (qs[c := fq_deq (qs ! c)]) g + (h(?f := Suc (h ?f))) g = occ qs g + h g" for g
    using o1 [of g] by (simp split: if_splits)
  moreover have "\<not> live st g \<Longrightarrow> occ (qs[c := fq_deq (qs ! c)]) g = 0 \<and> (h(?f := Suc (h ?f))) g = 0" for g
    using assms(1) o1 [of g] unfolding refs_ok_def by (auto split: if_splits)
  ultimately show ?thesis using assms(1) unfolding refs_ok_def by simp
qed

lemma hd_count: "fq_ok q \<Longrightarrow> 0 < fq_size q \<Longrightarrow> 0 < count_list (fq_list q) (hd (fq_list q))"
  using fq_deq_ok(2) [of q] by simp

text \<open>A frame from the pool is nobody's until it is handed out, with one holder.\<close>

lemma framePool_New_live:
  assumes "refs_ok st qs h" "framePool_New st buf choice = (st', f)"
  shows "\<not> live st f" "live st' g \<longleftrightarrow> live st g \<or> g = f" "g \<noteq> f \<Longrightarrow> fs_frames st' g = fs_frames st g"
    "fs_frames st' f = \<lparr>Frame_Buf = buf, Frame_Topic = 0, Frame_Meta = 0, Frame_ref = 1, Frame_pooled = True\<rparr>"
    "distinct (fs_pool st')" "\<forall>g \<in> set (fs_pool st'). g < fs_next st'"
proof -
  have p: "distinct (fs_pool st)" "\<forall>g \<in> set (fs_pool st). g < fs_next st"
    using assms(1) by (auto simp: refs_ok_def)
  have "\<not> live st f \<and> (live st' g \<longleftrightarrow> live st g \<or> g = f) \<and> (g \<noteq> f \<longrightarrow> fs_frames st' g = fs_frames st g)
      \<and> fs_frames st' f = \<lparr>Frame_Buf = buf, Frame_Topic = 0, Frame_Meta = 0, Frame_ref = 1, Frame_pooled = True\<rparr>
      \<and> distinct (fs_pool st') \<and> (\<forall>g \<in> set (fs_pool st'). g < fs_next st')" for g
  proof (cases "\<exists>k. choice = Some k \<and> k < length (fs_pool st)")
    case True
    then obtain k where k: "choice = Some k" "k < length (fs_pool st)" by auto
    let ?P = "fs_pool st"
    define A x B where "A = take k ?P" and "x = ?P ! k" and "B = drop (k + 1) ?P"
    have d: "?P = A @ x # B" unfolding A_def x_def B_def using id_take_nth_drop [OF k(2)] by simp
    have new: "st' = st\<lparr>fs_pool := A @ B, fs_frames := (fs_frames st)(x :=
        \<lparr>Frame_Buf = buf, Frame_Topic = 0, Frame_Meta = 0, Frame_ref = 1, Frame_pooled = True\<rparr>)\<rparr>" "f = x"
      using assms(2) k by (auto simp: framePool_New_def A_def x_def B_def)
    show ?thesis using p unfolding d new live_def by auto
  next
    case False
    then have "framePool_New st buf choice = (st\<lparr>fs_next := fs_next st + 1, fs_frames := (fs_frames st)(fs_next st :=
        \<lparr>Frame_Buf = buf, Frame_Topic = 0, Frame_Meta = 0, Frame_ref = 1, Frame_pooled = True\<rparr>)\<rparr>, fs_next st)"
      by (cases choice) (simp_all add: framePool_New_def)
    then show ?thesis using assms(2) p by (auto simp: live_def less_Suc_eq)
  qed
  then show "\<not> live st f" "live st' g \<longleftrightarrow> live st g \<or> g = f" "g \<noteq> f \<Longrightarrow> fs_frames st' g = fs_frames st g"
    "fs_frames st' f = \<lparr>Frame_Buf = buf, Frame_Topic = 0, Frame_Meta = 0, Frame_ref = 1, Frame_pooled = True\<rparr>"
    "distinct (fs_pool st')" "\<forall>g \<in> set (fs_pool st'). g < fs_next st'" by blast+
qed

lemma refs_ok_new:
  assumes "refs_ok st qs h" "framePool_New st buf choice = (st', f)"
  shows "refs_ok st' qs (h(f := Suc 0))"
proof -
  note n = framePool_New_live [OF assms]
  have z: "occ qs f = 0" "h f = 0" using assms(1) n(1) by (auto simp: refs_ok_def)
  have l: "Frame_ref (fs_frames st g) = int (occ qs g + h g) \<and> 0 < occ qs g + h g \<and> Frame_pooled (fs_frames st g)"
    if "live st g" for g using assms(1) that by (simp add: refs_ok_def)
  have d: "occ qs g = 0 \<and> h g = 0" if "\<not> live st g" for g using assms(1) that by (simp add: refs_ok_def)
  show ?thesis unfolding refs_ok_def
  proof (intro conjI allI impI)
    show "list_all fq_ok qs" using assms(1) by (simp add: refs_ok_def)
  next
    fix g assume g: "live st' g"
    show "Frame_ref (fs_frames st' g) = int (occ qs g + (h(f := Suc 0)) g)" "0 < occ qs g + (h(f := Suc 0)) g"
      "Frame_pooled (fs_frames st' g)"
      using g l [of g] n(2) [of g] n(3) [of g] n(4) z by (cases "g = f"; simp)+
  next
    fix g assume g: "\<not> live st' g"
    show "occ qs g = 0" "(h(f := Suc 0)) g = 0" using g d [of g] n(2) [of g] by auto
  qed (use n(5,6) in simp_all)
qed

text \<open>Only the counters and the pool matter.\<close>

lemma refs_ok_cong:
  assumes "refs_ok st qs h" "fs_pool st' = fs_pool st" "fs_next st' = fs_next st"
    "\<And>g. live st g \<Longrightarrow> Frame_ref (fs_frames st' g) = Frame_ref (fs_frames st g)
       \<and> Frame_pooled (fs_frames st' g) = Frame_pooled (fs_frames st g)"
  shows "refs_ok st' qs h"
proof -
  have "live st' g = live st g" for g using assms(2,3) by (simp add: live_def)
  then show ?thesis using assms unfolding refs_ok_def by simp
qed

subsection \<open>Pushing keeps the invariant\<close>

lemma refs_ok_push:
  assumes "refs_ok st qs (h(f := Suc n))" "c < length qs"
  obtains st' q' res where "frameQueue_Push st (qs ! c) f = Ret (st', q', res)"
    "refs_ok st' (qs[c := q']) (h(f := if res = Pushed then n else Suc n))"
    "res = PushWait \<Longrightarrow> fq_policy (qs ! c) = OverflowBlock \<and> \<not> fq_closed (qs ! c)"
    "fs_buffers st = None \<Longrightarrow> fs_buffers st' = None"
proof -
  let ?q = "qs ! c"
  have ok: "fq_ok ?q" using assms by (simp add: refs_ok_def list_all_length)
  have n: "0 < length (fq_buf ?q)" "fq_size ?q \<le> length (fq_buf ?q)" using ok by (simp_all add: fq_ok_def)
  have same: "qs[c := ?q] = qs" by simp
  consider "fq_closed ?q" | "\<not> fq_closed ?q" "fq_size ?q < length (fq_buf ?q)"
    | "\<not> fq_closed ?q" "fq_size ?q = length (fq_buf ?q)" "fq_policy ?q = OverflowDropOldest"
    | "\<not> fq_closed ?q" "fq_size ?q = length (fq_buf ?q)" "fq_policy ?q \<noteq> OverflowDropOldest"
    using n by fastforce
  then show thesis
  proof cases
    case 1
    then show thesis using that [OF Push_closed] assms same by simp
  next
    case 2
    then show thesis using that [OF Push_space [OF ok 2]] refs_ok_enq [OF assms 2(2)] by simp
  next
    case 3
    let ?o = "hd (fq_list ?q)" and ?H = "h(f := Suc n)"
    have "0 < fq_size ?q" using 3 n by simp
    then have "refs_ok (Frame_Release st ?o) (qs[c := fq_deq ?q]) (?H(?o := ?H ?o))"
      by (intro refs_ok_release refs_ok_deq [OF assms])
    then have r: "refs_ok (Frame_Release st ?o) (qs[c := fq_deq ?q]) ?H"
      by (simp only: fun_upd_triv)
    have "refs_ok (Frame_Release st ?o) ((qs[c := fq_deq ?q])[c := fq_enq (qs[c := fq_deq ?q] ! c) f]) (h(f := n))"
      by (rule refs_ok_enq [OF r]) (use 3 n assms(2) in simp_all)
    moreover have "fs_buffers st = None \<Longrightarrow> fs_buffers (Frame_Release st ?o) = None"
      by (simp add: Frame_Release_def framePool_recycle_def fs_upd_def Let_def)
    ultimately show thesis using that [of _ _ Pushed] Push_full [OF ok 3(1,2)] 3(3) assms(2) by simp
  next
    case 4
    then show thesis using that [OF Push_full [OF ok 4(1,2), THEN trans, OF if_P]] that Push_full [OF ok 4(1,2)] assms same
      by (cases "fq_policy ?q = OverflowBlock") simp_all
  qed
qed

subsection \<open>Routing keeps the invariant\<close>

lemma consumers_update: "list_all (\<lambda>c. c < length qs) cs \<Longrightarrow> list_all (\<lambda>c. c < length (qs[k := q])) cs"
  by (simp add: list_all_iff)

lemma shared_loop_refs:
  "refs_ok st qs (h(f := length cs)) \<Longrightarrow> list_all (\<lambda>c. c < length qs) cs \<Longrightarrow>
     \<exists>st' qs' rest. shared_loop st qs f cs = Ret (st', qs', rest)
       \<and> refs_ok st' qs' (h(f := length rest)) \<and> length qs' = length qs
       \<and> (\<exists>served. cs = served @ rest)"
proof (induction cs arbitrary: st qs)
  case (Cons c cs)
  then have c: "c < length qs" "refs_ok st qs (h(f := Suc (length cs)))" by (simp_all del: fun_upd_apply)
  obtain st1 q res where p: "frameQueue_Push st (qs ! c) f = Ret (st1, q, res)"
    and r: "refs_ok st1 (qs[c := q]) (h(f := if res = Pushed then length cs else Suc (length cs)))"
    using refs_ok_push [OF c(2,1)] by metis
  have go: "\<exists>st' qs' rest. shared_loop st2 (qs[c := q]) f cs = Ret (st', qs', rest)
      \<and> refs_ok st' qs' (h(f := length rest)) \<and> length qs' = length qs \<and> (\<exists>served. c # cs = served @ rest)"
    if r2: "refs_ok st2 (qs[c := q]) (h(f := length cs))" for st2
  proof -
    have l: "list_all (\<lambda>k. k < length (qs[c := q])) cs" using Cons.prems(2) by simp
    obtain st' qs' rest served where "shared_loop st2 (qs[c := q]) f cs = Ret (st', qs', rest)"
      "refs_ok st' qs' (h(f := length rest))" "length qs' = length (qs[c := q])" "cs = served @ rest"
      using Cons.IH [OF r2 l] by (elim exE conjE)
    moreover have "c # cs = (c # served) @ rest" using calculation by simp
    ultimately show ?thesis by (metis length_list_update)
  qed
  show ?case
  proof (cases res)
    case Pushed
    then show ?thesis using go [of st1] r p by (simp del: fun_upd_apply)
  next
    case Rejected
    then have "refs_ok (Frame_Release st1 f) (qs[c := q]) (h(f := length cs))"
      using refs_ok_release r by (simp del: fun_upd_apply)
    then show ?thesis using go Rejected p by (simp del: fun_upd_apply)
  next
    case PushWait
    then have "shared_loop st qs f (c # cs) = Ret (st1, qs[c := q], c # cs)" using p by simp
    moreover have "refs_ok st1 (qs[c := q]) (h(f := length (c # cs)))" using r PushWait by (simp del: fun_upd_apply)
    ultimately show ?thesis by (metis append_Nil length_list_update)
  qed
qed (simp del: fun_upd_apply)

text \<open>The read loop's own reference becomes one reference per consumer.\<close>

lemma refs_ok_share:
  assumes "refs_ok st qs (h(f := 1))" "occ qs f = 0" "0 < n"
  shows "refs_ok (fs_upd f (\<lambda>fr. fr\<lparr>Frame_ref := int n\<rparr>) st) qs (h(f := n))"
proof -
  have l: "live st f" using refs_ok_live [OF assms(1), of f] by simp
  then have "Frame_pooled (fs_frames st f)" using assms(1) by (auto simp: refs_ok_def)
  moreover have "live (fs_upd f (\<lambda>fr. fr\<lparr>Frame_ref := int n\<rparr>) st) g = live st g" for g
    by (simp add: live_def fs_upd_def)
  moreover have "live st g \<Longrightarrow> g \<noteq> f \<Longrightarrow> Frame_ref (fs_frames st g) = int (occ qs g + h g) \<and> 0 < occ qs g + h g
      \<and> Frame_pooled (fs_frames st g)" "\<not> live st g \<Longrightarrow> occ qs g = 0 \<and> (g \<noteq> f \<longrightarrow> h g = 0)" for g
    using assms(1) unfolding refs_ok_def by (metis fun_upd_other)+
  moreover have "list_all fq_ok qs" "distinct (fs_pool st)" "\<forall>g \<in> set (fs_pool st). g < fs_next st"
    using assms(1) by (auto simp: refs_ok_def)
  ultimately show ?thesis using assms(2,3) l unfolding refs_ok_def
    by (auto simp: fs_upd_def)
qed

lemma routeShared_refs:
  assumes "refs_ok st qs (h(f := 1))" "occ qs f = 0" "cs \<noteq> []" "list_all (\<lambda>c. c < length qs) cs"
  obtains st' qs' rest where "routeShared st qs f cs = Ret (st', qs', rest)"
    "refs_ok st' qs' (h(f := length rest))" "length qs' = length qs"
proof -
  have "refs_ok (fs_upd f (\<lambda>fr. fr\<lparr>Frame_ref := int (length cs)\<rparr>) st) qs (h(f := length cs))"
    using refs_ok_share [OF assms(1,2), of "length cs"] assms(3) by simp
  then show thesis using shared_loop_refs [OF _ assms(4)] that unfolding routeShared_def by metis
qed

lemma copyFrame_refs:
  assumes "refs_ok st qs h" "copyFrame st hasPool frame choice = Ret (st', r)"
  shows "case r of None \<Rightarrow> st' = st
    | Some f \<Rightarrow> refs_ok st' qs (h(f := Suc 0)) \<and> h f = 0"
proof (cases "\<not> hasPool \<or> fs_buffers st = None")
  case True
  then show ?thesis using assms(2) by (simp add: copyFrame_def)
next
  case False
  then obtain pool where pool: "fs_buffers st = Some pool" "hasPool" by blast
  define src where "src = (case Frame_Buf (fs_frames st frame) of None \<Rightarrow> [] | Some b \<Rightarrow> visible b)"
  obtain bp buf where g: "bufferPool_Get (Some pool) (int (length src)) (fst choice) = Ret (bp, buf)"
    using assms(2) pool by (cases "bufferPool_Get (Some pool) (int (length src)) (fst choice)")
      (auto simp: copyFrame_def Let_def src_def [symmetric])
  let ?st = "st\<lparr>fs_buffers := bp\<rparr>"
  let ?buf = "map_option (\<lambda>b. \<lparr>buf_data = src @ drop (length src) (buf_data b), buf_len = length src\<rparr>) buf"
  obtain st1 f where n: "framePool_New ?st ?buf (snd choice) = (st1, f)" by fastforce
  have r: "r = Some f" "\<exists>t m. st' = fs_upd f (\<lambda>fr. fr\<lparr>Frame_Topic := t, Frame_Meta := m\<rparr>) st1"
    using assms(2) pool by (auto simp: copyFrame_def Let_def g n src_def [symmetric])
  have o: "refs_ok ?st qs h" by (rule refs_ok_cong [OF assms(1)]) simp_all
  have "refs_ok st1 qs (h(f := Suc 0))" by (rule refs_ok_new [OF o n])
  then have "refs_ok st' qs (h(f := Suc 0))"
    by (rule refs_ok_cong) (use r(2) in \<open>auto simp: fs_upd_def split: if_splits\<close>)
  moreover have "h f = 0" using framePool_New_live(1) [OF o n] o by (simp add: refs_ok_def)
  ultimately show ?thesis using r(1) by simp
qed

lemma copy_loop_refs:
  "refs_ok st qs h \<Longrightarrow> list_all (\<lambda>c. c < length qs) cs \<Longrightarrow>
     copy_loop st hasPool qs f choice cs = Ret ((st', qs', rest), w) \<Longrightarrow>
     refs_ok st' qs' (case w of None \<Rightarrow> h | Some g \<Rightarrow> h(g := Suc 0)) \<and> (w = None \<longleftrightarrow> rest = [])
       \<and> length qs' = length qs \<and> (case w of None \<Rightarrow> True | Some g \<Rightarrow> h g = 0)"
proof (induction cs arbitrary: st qs)
  case (Cons c cs)
  obtain st1 copied where k: "copyFrame st hasPool f (choice c) = Ret (st1, copied)"
    using Cons.prems(3) by (cases "copyFrame st hasPool f (choice c)") auto
  note cf = copyFrame_refs [OF Cons.prems(1) k]
  show ?case
  proof (cases copied)
    case None
    then show ?thesis using Cons k cf by simp
  next
    case (Some g)
    then have g: "refs_ok st1 qs (h(g := Suc 0))" "h g = 0" using cf by simp_all
    then have hg: "h(g := 0) = h" by auto
    have c: "c < length qs" using Cons.prems(2) by simp
    obtain st2 q res where p: "frameQueue_Push st1 (qs ! c) g = Ret (st2, q, res)"
      and r: "refs_ok st2 (qs[c := q]) (h(g := if res = Pushed then 0 else Suc 0))"
      using refs_ok_push [OF g(1) c] by metis
    have l: "list_all (\<lambda>k. k < length (qs[c := q])) cs" using Cons.prems(2) by simp
    show ?thesis
    proof (cases res)
      case Pushed
      then have "refs_ok st2 (qs[c := q]) h" using r hg by (simp del: fun_upd_apply)
      moreover have "copy_loop st2 hasPool (qs[c := q]) f choice cs = Ret ((st', qs', rest), w)"
        using Cons.prems(3) Some k p Pushed by simp
      ultimately show ?thesis using Cons.IH [OF _ l] by simp
    next
      case Rejected
      then have "refs_ok (Frame_Release st2 g) (qs[c := q]) (h(g := 0))"
        by (intro refs_ok_release) (use r in \<open>simp del: fun_upd_apply\<close>)
      moreover have "copy_loop (Frame_Release st2 g) hasPool (qs[c := q]) f choice cs = Ret ((st', qs', rest), w)"
        using Cons.prems(3) Some k p Rejected by simp
      ultimately show ?thesis using Cons.IH [OF _ l] hg by simp
    next
      case PushWait
      then show ?thesis using Cons.prems(3) Some k p r g by (auto simp del: fun_upd_apply)
    qed
  qed
qed simp

text \<open>Routing gives up the read loop's reference: no frame leaks and none is freed early.\<close>

lemma Route_refs:
  assumes "refs_ok st qs (h(f := Suc 0))" "occ qs f = 0"
    and "list_all (\<lambda>c. c < length qs) (rt_list rt (Frame_Topic (fs_frames st f)))"
    and "router_Route (Some rt) st qs (Some f) choice = Ret ((st', qs', []), w)"
  shows "refs_ok st' qs' (h(f := 0))"
proof -
  let ?cs = "rt_list rt (Frame_Topic (fs_frames st f))"
  consider "?cs = []" | "?cs \<noteq> []" "rt_fanOut rt = FanOutCopy" | "?cs \<noteq> []" "rt_fanOut rt \<noteq> FanOutCopy" by blast
  then show ?thesis
  proof cases
    case 1
    then show ?thesis using assms(4) refs_ok_release [OF assms(1)] by (simp add: router_Route_def)
  next
    case 2
    then obtain st1 qs1 rest1 w1 where l: "copy_loop st (rt_hasPool rt) qs f choice ?cs = Ret ((st1, qs1, rest1), w1)"
      using assms(4) by (cases "copy_loop st (rt_hasPool rt) qs f choice ?cs") (auto simp: router_Route_def)
    have "rest1 = []" "st' = Frame_Release st1 f" "qs' = qs1"
      using assms(4) 2 l by (auto simp: router_Route_def split: if_splits)
    moreover from this have "refs_ok st1 qs1 (h(f := Suc 0))"
      using copy_loop_refs [OF assms(1,3) l] by (auto simp del: fun_upd_apply split: option.splits)
    ultimately show ?thesis using refs_ok_release by simp
  next
    case 3
    obtain st1 qs1 rest1 where "routeShared st qs f ?cs = Ret (st1, qs1, rest1)"
      "refs_ok st1 qs1 (h(f := length rest1))"
      using routeShared_refs [OF assms(1) [folded One_nat_def] assms(2) 3(1) assms(3)] by metis
    then show ?thesis using assms(4) 3 by (auto simp: router_Route_def Let_def simp del: fun_upd_apply)
  qed
qed

end
