(* ===== verification/Ws_Delivery.thy ===== *)
theory Ws_Delivery
  imports Ws_Router
begin

section \<open>Delivery: sessions, queues and consumers together\<close>

text \<open>
  \<open>consumer.go\<close>'s \<open>Close\<close>, and the concurrent system of read loops, queues and consumers as a
  step relation. A step is one critical section: a session reads a frame and counts its consumers,
  a session pushes the frame it is routing to the next consumer, a consumer takes a frame, releases
  one, or closes its queue. A push that would wait is no step. In every reachable state the
  reference counts are exact, so no queue ever delivers a recycled frame.
\<close>

subsection \<open>Closing a queue releases what it holds\<close>

definition fq_clear :: "frameQueue \<Rightarrow> nat \<Rightarrow> frameQueue" where
  "fq_clear q k = q\<lparr>fq_buf := foldl (\<lambda>b i. b[fq_slot q i := None]) (fq_buf q) [0..<k]\<rparr>"

lemma length_fq_clear [simp]: "length (fq_buf (fq_clear q k)) = length (fq_buf q)"
  by (induction k) (simp_all add: fq_clear_def)

lemma fq_clear_sel [simp]:
  "fq_head (fq_clear q k) = fq_head q" "fq_size (fq_clear q k) = fq_size q"
  "fq_closed (fq_clear q k) = fq_closed q" "fq_policy (fq_clear q k) = fq_policy q"
  by (simp_all add: fq_clear_def)

lemma fq_clear_Suc: "fq_clear q (Suc k) = (fq_clear q k)\<lparr>fq_buf := (fq_buf (fq_clear q k))[fq_slot q k := None]\<rparr>"
  by (simp add: fq_clear_def)

lemma fq_clear_nth:
  "fq_ok q \<Longrightarrow> k \<le> length (fq_buf q) \<Longrightarrow> i < length (fq_buf q) \<Longrightarrow>
     fq_buf (fq_clear q k) ! fq_slot q i = (if i < k then None else fq_buf q ! fq_slot q i)"
proof (induction k)
  case (Suc k)
  then have "fq_slot q i = fq_slot q k \<longleftrightarrow> i = k" using fq_slot_inj [of q i k] by auto
  then show ?case using Suc fq_slot_less [of q k] by (auto simp: fq_clear_Suc nth_list_update less_Suc_eq)
qed (simp add: fq_clear_def)

lemma close_slots:
  "fq_ok q \<Longrightarrow> k \<le> fq_size q \<Longrightarrow>
     fold close_slot [0..<k] (st, q) = (foldl Frame_Release st (take k (fq_list q)), fq_clear q k)"
proof (induction k)
  case 0
  then show ?case by (simp add: fq_clear_def)
next
  case (Suc k)
  let ?st = "foldl Frame_Release st (take k (fq_list q))"
  have k: "k < fq_size q" "fq_size q \<le> length (fq_buf q)" using Suc.prems by (simp_all add: fq_ok_def)
  then obtain f where f: "fq_buf q ! fq_slot q k = Some f" using Suc.prems(1) by (auto simp: fq_ok_def)
  then have b: "fq_buf (fq_clear q k) ! fq_slot q k = Some f" using fq_clear_nth [OF Suc.prems(1), of k k] k by simp
  have "fq_list q ! k = f" using k f by (simp add: fq_list_def)
  then have t: "take (Suc k) (fq_list q) = take k (fq_list q) @ [f]" using k by (simp add: take_Suc_conv_app_nth)
  have sl: "fq_slot (fq_clear q k) k = fq_slot q k" by (simp add: fq_slot_def)
  have "fold close_slot [0..<Suc k] (st, q) = close_slot k (?st, fq_clear q k)" using Suc by simp
  also have "\<dots> = (Frame_Release ?st f, fq_clear q (Suc k))"
    using b by (simp add: close_slot_def fq_clear_Suc Let_def sl flip: fq_slot_def)
  finally show ?case by (simp add: t)
qed

lemma Close_eq:
  assumes "fq_ok q" "\<not> fq_closed q"
  obtains q' where "frameQueue_Close st q = (foldl Frame_Release st (fq_list q), q')"
    "fq_ok q'" "fq_list q' = []" "fq_closed q'" "fq_policy q' = fq_policy q" "length (fq_buf q') = length (fq_buf q)"
proof -
  let ?q = "q\<lparr>fq_closed := True\<rparr>" and ?n = "length (fq_buf q)"
  let ?q' = "(fq_clear ?q (fq_size q))\<lparr>fq_size := 0, fq_head := 0, fq_tail := 0\<rparr>"
  have s: "fq_slot ?q = fq_slot q" by (simp add: fq_slot_def fun_eq_iff)
  have ok: "fq_ok ?q" and l: "fq_list ?q = fq_list q" using assms(1) by (simp_all add: fq_ok_def s fq_list_def)
  have n: "0 < ?n" "fq_head q < ?n" "fq_size q \<le> ?n" using assms(1) by (simp_all add: fq_ok_def)
  have "fold close_slot [0..<fq_size q] (st, ?q) = (foldl Frame_Release st (fq_list q), fq_clear ?q (fq_size q))"
    using close_slots [OF ok, of "fq_size q" st] l by simp
  then have c: "frameQueue_Close st q = (foldl Frame_Release st (fq_list q), ?q')"
    using assms(2) by (simp add: frameQueue_Close_def)
  have none: "fq_buf (fq_clear ?q (fq_size q)) ! i = None" if "i < ?n" for i
  proof -
    let ?j = "(i + (?n - fq_head q)) mod ?n"
    have "fq_slot ?q ?j = (fq_head q + (i + (?n - fq_head q))) mod ?n" by (simp add: fq_slot_def mod_add_right_eq)
    also have "\<dots> = i" using n that by simp
    finally have "fq_slot ?q ?j = i" .
    moreover have "?j < ?n" using n by simp
    ultimately have "fq_buf (fq_clear ?q (fq_size q)) ! i = (if ?j < fq_size q then None else fq_buf q ! i)"
      using fq_clear_nth [OF ok, of "fq_size q" ?j] n by simp
    moreover have "fq_size q \<le> ?j \<Longrightarrow> fq_buf q ! i = None"
      using assms(1) \<open>?j < ?n\<close> \<open>fq_slot ?q ?j = i\<close> s by (auto simp: fq_ok_def)
    ultimately show ?thesis by (simp split: if_splits)
  qed
  have "fq_ok ?q'" using n none by (simp add: fq_ok_def fq_slot_def)
  then show thesis using that [OF c] by (simp add: fq_list_def)
qed

lemma refs_ok_releases:
  "refs_ok st qs (\<lambda>f. h f + count_list fs f) \<Longrightarrow> refs_ok (foldl Frame_Release st fs) qs h"
proof (induction fs arbitrary: st)
  case (Cons g fs)
  let ?h = "\<lambda>f. h f + count_list fs f"
  have "(\<lambda>f. h f + count_list (g # fs) f) = ?h(g := Suc (?h g))" by (auto simp: fun_eq_iff)
  then have "refs_ok (Frame_Release st g) qs (?h(g := ?h g))" using Cons.prems refs_ok_release by metis
  then have "refs_ok (Frame_Release st g) qs ?h" by (simp add: fun_upd_idem)
  then show ?case using Cons.IH by simp
qed simp

lemma refs_ok_empty:
  assumes "refs_ok st qs h" "c < length qs" "fq_ok q'" "fq_list q' = []"
  shows "refs_ok st (qs[c := q']) (\<lambda>f. h f + count_list (fq_list (qs ! c)) f)"
proof -
  have o1: "occ (qs[c := q']) f + (h f + count_list (fq_list (qs ! c)) f) = occ qs f + h f" for f
    using occ_update [OF assms(2), of q' f] assms(4) by simp
  have "list_all fq_ok (qs[c := q'])"
    using assms(1,3) by (auto simp: refs_ok_def list_all_iff dest: set_update_subset_insert [THEN subsetD])
  moreover have "occ (qs[c := q']) f = 0 \<and> h f + count_list (fq_list (qs ! c)) f = 0" if "\<not> live st f" for f
    using o1 [of f] assms(1) that by (simp add: refs_ok_def)
  ultimately show ?thesis using assms(1) o1 unfolding refs_ok_def by (metis of_nat_add)
qed

lemma refs_ok_close:
  assumes "refs_ok st qs h" "c < length qs" "frameQueue_Close st (qs ! c) = (st', q')"
  shows "refs_ok st' (qs[c := q']) h"
proof (cases "fq_closed (qs ! c)")
  case True
  then show ?thesis using assms by (auto simp: frameQueue_Close_def)
next
  case False
  have ok: "fq_ok (qs ! c)" using assms(1,2) by (simp add: refs_ok_def list_all_length)
  obtain q1 where "frameQueue_Close st (qs ! c) = (foldl Frame_Release st (fq_list (qs ! c)), q1)"
    "fq_ok q1" "fq_list q1 = []"
    using Close_eq [OF ok False] by metis
  then show ?thesis using assms(3) refs_ok_releases [OF refs_ok_empty [OF assms(1,2)]] by simp
qed

subsection \<open>The system\<close>

text \<open>
  Session \<open>i\<close> is routing a frame to the consumers left in its list (none: it is reading); \<open>held\<close>
  counts the references consumers have taken with \<open>Next\<close> and not released. Routing is by the
  shared fan-out; the consumers come from the router's table.
\<close>

record delivery =
  dl_store :: frame_store
  dl_queues :: "frameQueue list"
  dl_routing :: "(nat \<times> nat list) list"
  dl_held :: "nat \<Rightarrow> nat"

definition routing_refs :: "(nat \<times> nat list) list \<Rightarrow> nat \<Rightarrow> nat" where
  "routing_refs rs f = sum_list (map (\<lambda>(g, cs). if g = f then length cs else 0) rs)"

definition dl_refs :: "delivery \<Rightarrow> nat \<Rightarrow> nat" where
  "dl_refs d f = dl_held d f + routing_refs (dl_routing d) f"

lemma routing_refs_update:
  assumes "i < length rs" "rs ! i = (g, cs)"
  shows "routing_refs (rs[i := (g', cs')]) f + (if g = f then length cs else 0)
    = routing_refs rs f + (if g' = f then length cs' else 0)"
  using assms
proof (induction rs arbitrary: i)
  case (Cons r rs)
  then show ?case by (cases i) (auto simp: routing_refs_def)
qed simp

text \<open>A frame leaves the pool for a session and gets one reference per consumer of its topic.\<close>

definition dl_read :: "delivery \<Rightarrow> nat \<Rightarrow> buffer option \<Rightarrow> nat option \<Rightarrow> nat list \<Rightarrow> delivery" where
  "dl_read d i buf choice cs =
     (let (st, f) = framePool_New (dl_store d) buf choice;
          st = (if cs = [] then Frame_Release st f
                else fs_upd f (\<lambda>fr. fr\<lparr>Frame_ref := int (length cs)\<rparr>) st)
      in d\<lparr>dl_store := st, dl_routing := (dl_routing d)[i := (f, cs)]\<rparr>)"

inductive dl_step :: "delivery \<Rightarrow> delivery \<Rightarrow> bool" where
  read: "i < length (dl_routing d) \<Longrightarrow> dl_routing d ! i = (f, []) \<Longrightarrow>
     list_all (\<lambda>c. c < length (dl_queues d)) cs \<Longrightarrow> dl_step d (dl_read d i buf choice cs)"
| push: "i < length (dl_routing d) \<Longrightarrow> dl_routing d ! i = (f, c # cs) \<Longrightarrow>
     frameQueue_Push (dl_store d) (dl_queues d ! c) f = Ret (st, q, res) \<Longrightarrow> res \<noteq> PushWait \<Longrightarrow>
     dl_step d (d\<lparr>dl_store := (if res = Rejected then Frame_Release st f else st),
       dl_queues := (dl_queues d)[c := q], dl_routing := (dl_routing d)[i := (f, cs)]\<rparr>)"
| pop: "c < length (dl_queues d) \<Longrightarrow> frameQueue_Pop (dl_queues d ! c) = (q, Popped (Some f)) \<Longrightarrow>
     dl_step d (d\<lparr>dl_queues := (dl_queues d)[c := q], dl_held := (dl_held d)(f := Suc (dl_held d f))\<rparr>)"
| release: "dl_held d f = Suc n \<Longrightarrow>
     dl_step d (d\<lparr>dl_store := Frame_Release (dl_store d) f, dl_held := (dl_held d)(f := n)\<rparr>)"
| close: "c < length (dl_queues d) \<Longrightarrow> frameQueue_Close (dl_store d) (dl_queues d ! c) = (st, q) \<Longrightarrow>
     dl_step d (d\<lparr>dl_store := st, dl_queues := (dl_queues d)[c := q]\<rparr>)"

inductive dl_reach :: "delivery \<Rightarrow> delivery \<Rightarrow> bool" for d0 where
  start: "dl_reach d0 d0"
| step: "dl_reach d0 d \<Longrightarrow> dl_step d d' \<Longrightarrow> dl_reach d0 d'"

definition dl_init :: "(int \<times> OverflowPolicy) list \<Rightarrow> nat \<Rightarrow> bufferPool option \<Rightarrow> delivery" where
  "dl_init queues sessions buffers =
     \<lparr>dl_store = \<lparr>fs_frames = (\<lambda>_. \<lparr>Frame_Buf = None, Frame_Topic = 0, Frame_Meta = 0, Frame_ref = 0, Frame_pooled = False\<rparr>),
        fs_next = 0, fs_pool = [], fs_buffers = buffers\<rparr>,
      dl_queues = map (\<lambda>(n, p). newFrameQueue n p) queues,
      dl_routing = replicate sessions (0, []), dl_held = (\<lambda>_. 0)\<rparr>"

definition dl_ok :: "delivery \<Rightarrow> bool" where
  "dl_ok d \<longleftrightarrow> refs_ok (dl_store d) (dl_queues d) (dl_refs d)
     \<and> (\<forall>i < length (dl_routing d). list_all (\<lambda>c. c < length (dl_queues d)) (snd (dl_routing d ! i)))"

lemma dl_ok_init: "dl_ok (dl_init queues sessions buffers)"
proof -
  have l: "fq_list (case x of (n, p) \<Rightarrow> newFrameQueue n p) = []" "fq_ok (case x of (n, p) \<Rightarrow> newFrameQueue n p)" for x
    using fq_ok_new by (cases x; simp)+
  have "occ (map (\<lambda>(n, p). newFrameQueue n p) queues) f = 0" for f
    by (induction queues) (simp_all add: occ_def l)
  moreover have "routing_refs (replicate sessions (0, [])) f = 0" for f
    by (induction sessions) (simp_all add: routing_refs_def)
  ultimately show ?thesis
    by (simp add: dl_ok_def dl_init_def refs_ok_def dl_refs_def live_def list_all_iff l)
qed

lemma dl_refs_sel [simp]:
  "dl_refs (d\<lparr>dl_store := st\<rparr>) = dl_refs d" "dl_refs (d\<lparr>dl_queues := qs\<rparr>) = dl_refs d"
  by (simp_all add: fun_eq_iff dl_refs_def)

lemma dl_refs_routing:
  assumes "i < length (dl_routing d)" "dl_routing d ! i = (g, cs)"
  shows "dl_refs (d\<lparr>dl_routing := (dl_routing d)[i := (f, cs')]\<rparr>) x + (if g = x then length cs else 0)
    = dl_refs d x + (if f = x then length cs' else 0)"
  using routing_refs_update [OF assms, of f cs' x] by (simp add: dl_refs_def)

lemma dl_read_refs:
  assumes "dl_ok d" "i < length (dl_routing d)" "dl_routing d ! i = (f0, [])"
    and "list_all (\<lambda>c. c < length (dl_queues d)) cs"
  shows "dl_ok (dl_read d i buf choice cs)"
proof -
  obtain st f where n: "framePool_New (dl_store d) buf choice = (st, f)" by fastforce
  have ok: "refs_ok (dl_store d) (dl_queues d) (dl_refs d)" using assms(1) by (simp add: dl_ok_def)
  have z: "dl_refs d f = 0" "occ (dl_queues d) f = 0"
    using framePool_New_live(1) [OF ok n] ok by (simp_all add: refs_ok_def)
  have new: "refs_ok st (dl_queues d) ((dl_refs d)(f := Suc 0))" by (rule refs_ok_new [OF ok n])
  let ?d = "dl_read d i buf choice cs"
  have refs: "dl_refs ?d = (dl_refs d)(f := length cs)"
  proof
    fix x
    show "dl_refs ?d x = ((dl_refs d)(f := length cs)) x"
      using dl_refs_routing [OF assms(2,3), of f cs x] z by (auto simp: dl_read_def n dl_refs_def Let_def split: if_splits)
  qed
  have "refs_ok (dl_store ?d) (dl_queues ?d) (dl_refs ?d)"
  proof (cases "cs = []")
    case True
    then show ?thesis using refs_ok_release [OF new] refs by (simp add: dl_read_def n)
  next
    case False
    then show ?thesis using refs_ok_share [OF new [folded One_nat_def] z(2), of "length cs"] refs
      by (simp add: dl_read_def n Let_def)
  qed
  moreover have "\<forall>k < length (dl_routing ?d). list_all (\<lambda>c. c < length (dl_queues ?d)) (snd (dl_routing ?d ! k))"
    using assms(1,2,4) by (simp add: dl_read_def n Let_def dl_ok_def nth_list_update)
  ultimately show ?thesis by (simp add: dl_ok_def)
qed

lemma dl_push_refs:
  assumes "dl_ok d" "i < length (dl_routing d)" "dl_routing d ! i = (f, c # cs)"
    and "frameQueue_Push (dl_store d) (dl_queues d ! c) f = Ret (st, q, res)" "res \<noteq> PushWait"
  shows "dl_ok (d\<lparr>dl_store := (if res = Rejected then Frame_Release st f else st),
       dl_queues := (dl_queues d)[c := q], dl_routing := (dl_routing d)[i := (f, cs)]\<rparr>)" (is "dl_ok ?d")
proof -
  have cl: "list_all (\<lambda>c. c < length (dl_queues d)) (c # cs)"
    using assms(1-3) by (auto simp: dl_ok_def)
  have x: "dl_refs (d\<lparr>dl_routing := (dl_routing d)[i := (f, cs)]\<rparr>) x + (if f = x then Suc (length cs) else 0)
      = dl_refs d x + (if f = x then length cs else 0)" for x
    using dl_refs_routing [OF assms(2,3), of f cs x] by (simp split: if_splits)
  then have s: "dl_refs d f = Suc (dl_refs ?d f)" using x [of f] by (simp add: dl_refs_def)
  have refs: "dl_refs ?d = (dl_refs d)(f := dl_refs ?d f)"
  proof
    fix y
    show "dl_refs ?d y = ((dl_refs d)(f := dl_refs ?d f)) y" using x [of y] by (auto simp: dl_refs_def split: if_splits)
  qed
  have "refs_ok (dl_store d) (dl_queues d) ((dl_refs d)(f := Suc (dl_refs ?d f)))"
    using assms(1) s by (simp add: dl_ok_def fun_upd_idem)
  then obtain r: "refs_ok st ((dl_queues d)[c := q]) ((dl_refs d)(f := if res = Pushed then dl_refs ?d f else Suc (dl_refs ?d f)))"
    by (rule refs_ok_push [of _ _ _ _ _ c]) (use assms(4) cl in auto)
  have "refs_ok (dl_store ?d) (dl_queues ?d) ((dl_refs d)(f := dl_refs ?d f))"
    using r refs_ok_release [of st "(dl_queues d)[c := q]" "dl_refs d" f "dl_refs ?d f"] assms(5)
    by (cases res) (simp_all del: fun_upd_apply)
  then have "refs_ok (dl_store ?d) (dl_queues ?d) (dl_refs ?d)" by (simp only: refs [symmetric])
  moreover have "\<forall>k < length (dl_routing ?d). list_all (\<lambda>c. c < length (dl_queues ?d)) (snd (dl_routing ?d ! k))"
    using assms(1,2) cl by (simp add: dl_ok_def nth_list_update)
  ultimately show ?thesis by (simp add: dl_ok_def)
qed

lemma Pop_Popped: "frameQueue_Pop q = (q', Popped x) \<longleftrightarrow> 0 < fq_size q \<and> q' = fq_deq q \<and> x = fq_buf q ! fq_head q"
  by (auto simp: Pop_eq)

lemma dl_step_ok: "dl_step d d' \<Longrightarrow> dl_ok d \<Longrightarrow> dl_ok d'"
proof (induction rule: dl_step.induct)
  case (read i d f cs buf choice)
  then show ?case by (simp add: dl_read_refs)
next
  case (push i d f c cs st q res)
  then show ?case by (intro dl_push_refs)
next
  case (pop c d q f)
  then have p: "0 < fq_size (dl_queues d ! c)" "q = fq_deq (dl_queues d ! c)" "Some f = fq_buf (dl_queues d ! c) ! fq_head (dl_queues d ! c)"
    by (simp_all add: Pop_Popped)
  have ok: "refs_ok (dl_store d) (dl_queues d) (dl_refs d)" using pop by (simp add: dl_ok_def)
  then have "fq_ok (dl_queues d ! c)" using pop(1) by (simp add: refs_ok_def list_all_length)
  then have "hd (fq_list (dl_queues d ! c)) = f" using fq_deq_ok(2) p by (metis list.sel(1) option.sel)
  moreover have "dl_refs (d\<lparr>dl_queues := qs, dl_held := (dl_held d)(f := Suc (dl_held d f))\<rparr>)
      = (dl_refs d)(f := Suc (dl_refs d f))" for qs by (simp add: fun_eq_iff dl_refs_def)
  ultimately show ?case using refs_ok_deq [OF ok pop(1) p(1)] pop p(2)
    by (simp add: dl_ok_def del: fun_upd_apply)
next
  case (release d f n)
  then have "refs_ok (dl_store d) (dl_queues d) ((dl_refs d)(f := Suc (n + routing_refs (dl_routing d) f)))"
    by (simp add: dl_ok_def dl_refs_def fun_upd_idem)
  moreover have "dl_refs (d\<lparr>dl_store := st, dl_held := (dl_held d)(f := n)\<rparr>)
      = (dl_refs d)(f := n + routing_refs (dl_routing d) f)" for st by (simp add: fun_eq_iff dl_refs_def)
  ultimately show ?case using refs_ok_release release by (simp add: dl_ok_def del: fun_upd_apply)
next
  case (close c d st q)
  then show ?case using refs_ok_close by (auto simp: dl_ok_def)
qed

lemma dl_reach_ok: "dl_reach d0 d \<Longrightarrow> dl_ok d0 \<Longrightarrow> dl_ok d"
  by (induction rule: dl_reach.induct) (auto intro: dl_step_ok)

subsection \<open>The queue as a bounded list\<close>

text \<open>What \<open>Push\<close> and \<open>Pop\<close> of \<open>consumer.go\<close> promise, over the list of the frames in the queue.\<close>

definition push_spec :: "nat \<Rightarrow> OverflowPolicy \<Rightarrow> bool \<Rightarrow> nat list \<Rightarrow> nat \<Rightarrow> nat list \<times> push_result" where
  "push_spec cap policy closed xs f =
     (if closed then (xs, Rejected)
      else if length xs < cap then (xs @ [f], Pushed)
      else if policy = OverflowBlock then (xs, PushWait)
      else if policy = OverflowDropOldest then (tl xs @ [f], Pushed)
      else (xs, Rejected))"

definition pop_spec :: "bool \<Rightarrow> nat list \<Rightarrow> nat list \<times> pop_result" where
  "pop_spec closed xs =
     (case xs of [] \<Rightarrow> ([], if closed then PopClosed else PopWait) | x # r \<Rightarrow> (r, Popped (Some x)))"

lemma fq_ok_deq: "fq_ok q \<Longrightarrow> 0 < fq_size q \<Longrightarrow> fq_ok (fq_deq q) \<and> fq_list (fq_deq q) = tl (fq_list q)
    \<and> fq_buf q ! fq_head q = Some (hd (fq_list q))"
  using fq_deq_ok [of q] by (cases "fq_buf q ! fq_head q") auto

lemma push_refines:
  assumes "fq_ok q"
  obtains st' q' res where "frameQueue_Push st q f = Ret (st', q', res)" "fq_ok q'"
    "(fq_list q', res) = push_spec (length (fq_buf q)) (fq_policy q) (fq_closed q) (fq_list q) f"
    "length (fq_buf q') = length (fq_buf q)" "fq_policy q' = fq_policy q" "fq_closed q' = fq_closed q"
proof -
  have sz: "fq_size q \<le> length (fq_buf q)" "0 < length (fq_buf q)" using assms by (auto simp: fq_ok_def)
  consider "fq_closed q" | "\<not> fq_closed q" "fq_size q < length (fq_buf q)"
    | "\<not> fq_closed q" "fq_size q = length (fq_buf q)" using sz by linarith
  then show thesis
  proof cases
    case 1
    show thesis by (rule that [OF Push_closed [OF 1] assms]) (use 1 in \<open>simp_all add: push_spec_def\<close>)
  next
    case 2
    note e = fq_enq_ok [OF assms 2(2), of f]
    show thesis by (rule that [OF Push_space [OF assms 2] e(1)]) (use 2 e in \<open>simp_all add: push_spec_def\<close>)
  next
    case 3
    then have d: "fq_ok (fq_deq q)" "fq_list (fq_deq q) = tl (fq_list q)" using fq_ok_deq [OF assms] sz by auto
    have e: "fq_ok (fq_enq (fq_deq q) f)" "fq_list (fq_enq (fq_deq q) f) = tl (fq_list q) @ [f]"
      using fq_enq_ok [OF d(1), of f] d(2) 3 sz by simp_all
    consider "fq_policy q = OverflowBlock" | "fq_policy q \<noteq> OverflowBlock" "fq_policy q = OverflowDropOldest"
      | "fq_policy q \<noteq> OverflowBlock" "fq_policy q \<noteq> OverflowDropOldest" by blast
    then show thesis
    proof cases
      case 1
      show thesis by (rule that [of st q PushWait]) (use 1 assms 3 in \<open>simp_all add: Push_full push_spec_def\<close>)
    next
      case a: 2
      show thesis
        by (rule that [of "Frame_Release st (hd (fq_list q))" "fq_enq (fq_deq q) f" Pushed])
          (use a 3 assms e in \<open>simp_all add: Push_full push_spec_def\<close>)
    next
      case a: 3
      show thesis by (rule that [of st q Rejected]) (use a assms 3 in \<open>simp_all add: Push_full push_spec_def\<close>)
    qed
  qed
qed

lemma pop_refines:
  assumes "fq_ok q" "frameQueue_Pop q = (q', r)"
  shows "fq_ok q'" "(fq_list q', r) = pop_spec (fq_closed q) (fq_list q)"
    "length (fq_buf q') = length (fq_buf q)" "fq_policy q' = fq_policy q" "fq_closed q' = fq_closed q"
proof -
  have "fq_ok q' \<and> (fq_list q', r) = pop_spec (fq_closed q) (fq_list q)
      \<and> length (fq_buf q') = length (fq_buf q) \<and> fq_policy q' = fq_policy q \<and> fq_closed q' = fq_closed q"
  proof (cases "0 < fq_size q")
    case True
    then have "fq_list q \<noteq> []" by (metis length_fq_list length_greater_0_conv)
    then show ?thesis using fq_ok_deq [OF assms(1) True] assms(2) True
      by (cases "fq_list q") (auto simp: Pop_eq pop_spec_def)
  next
    case False
    then have "fq_list q = []" by (simp add: fq_list_def)
    then show ?thesis using assms False by (auto simp: Pop_eq pop_spec_def split: if_splits)
  qed
  then show "fq_ok q'" "(fq_list q', r) = pop_spec (fq_closed q) (fq_list q)"
    "length (fq_buf q') = length (fq_buf q)" "fq_policy q' = fq_policy q" "fq_closed q' = fq_closed q" by blast+
qed

end
