(* ===== verification/Ws_Outbound.thy ===== *)
theory Ws_Outbound
  imports Ws_Buffer_Pool
begin

section \<open>Subscription registry and outbound queue\<close>

text \<open>
  \<open>subscriptions.go\<close> and \<open>writer.go\<close>. The registry is two sets of topics; iterating a Go map
  visits its keys in an order of its own, so \<open>Desired\<close> takes that order. An outbound frame is a
  value, the recycled ones lie in the pool; a channel is the list of its elements with a capacity.
  A send on a full channel that would wait is a result of its own.
\<close>

subsection \<open>Desired and active topics\<close>

record subscriptions =
  su_desired :: "TopicID set"
  su_active :: "TopicID set"

definition newSubscriptions :: subscriptions where
  "newSubscriptions = \<lparr>su_desired = {}, su_active = {}\<rparr>"

definition subs_Add :: "subscriptions \<Rightarrow> TopicID \<Rightarrow> subscriptions \<times> bool" where
  "subs_Add s topic =
     (let exists = topic \<in> su_desired s in
      (if \<not> exists then s\<lparr>su_desired := insert topic (su_desired s)\<rparr> else s, \<not> exists))"

definition subs_Remove :: "subscriptions \<Rightarrow> TopicID \<Rightarrow> subscriptions \<times> bool" where
  "subs_Remove s topic =
     (if topic \<in> su_desired s
      then (s\<lparr>su_desired := su_desired s - {topic}, su_active := su_active s - {topic}\<rparr>, True)
      else (s, False))"

definition subs_MarkActive :: "subscriptions \<Rightarrow> TopicID \<Rightarrow> subscriptions" where
  "subs_MarkActive s topic = s\<lparr>su_active := insert topic (su_active s)\<rparr>"

definition subs_ClearActive :: "subscriptions \<Rightarrow> subscriptions" where
  "subs_ClearActive s = s\<lparr>su_active := {}\<rparr>"

text \<open>\<open>order\<close> is the iteration order; only the topics of the map are visited, each once.\<close>

definition subs_Desired :: "subscriptions \<Rightarrow> TopicID list \<Rightarrow> TopicID list" where
  "subs_Desired s order = filter (\<lambda>t. t \<in> su_desired s) (remdups order)"

definition subs_Count :: "subscriptions \<Rightarrow> nat" where
  "subs_Count s = card (su_desired s)"

text \<open>What the manager relies on: a finite set of topics with insertion and deletion.\<close>

locale topic_set =
  fixes add :: "'s \<Rightarrow> 't \<Rightarrow> 's \<times> bool" and remove :: "'s \<Rightarrow> 't \<Rightarrow> 's \<times> bool"
    and topics :: "'s \<Rightarrow> 't set" and count :: "'s \<Rightarrow> nat"
  assumes add_law: "topics (fst (add s t)) = insert t (topics s) \<and> (snd (add s t) \<longleftrightarrow> t \<notin> topics s)"
    and remove_law: "topics (fst (remove s t)) = topics s - {t} \<and> (snd (remove s t) \<longleftrightarrow> t \<in> topics s)"
    and count_law: "count s = card (topics s)"
begin

lemma count_add: "finite (topics s) \<Longrightarrow> t \<notin> topics s \<Longrightarrow> count (fst (add s t)) = Suc (count s)"
  by (simp add: count_law add_law)

lemma count_remove: "finite (topics s) \<Longrightarrow> t \<in> topics s \<Longrightarrow> count s = Suc (count (fst (remove s t)))"
  using card.remove [of "topics s" t] by (simp add: count_law remove_law)

lemma count_zero: "finite (topics s) \<Longrightarrow> count s = 0 \<longleftrightarrow> topics s = {}"
  by (simp add: count_law)

end

interpretation subs: topic_set subs_Add subs_Remove su_desired subs_Count
proof
  fix s t
  show "su_desired (fst (subs_Add s t)) = insert t (su_desired s) \<and> (snd (subs_Add s t) \<longleftrightarrow> t \<notin> su_desired s)"
    by (cases "t \<in> su_desired s") (simp_all add: subs_Add_def insert_absorb)
  show "su_desired (fst (subs_Remove s t)) = su_desired s - {t} \<and> (snd (subs_Remove s t) \<longleftrightarrow> t \<in> su_desired s)"
    by (cases "t \<in> su_desired s") (simp_all add: subs_Remove_def)
  show "subs_Count s = card (su_desired s)" by (simp add: subs_Count_def)
qed

lemma subs_Desired_all:
  assumes "finite (su_desired s)" "su_desired s \<subseteq> set order"
  shows "distinct (subs_Desired s order)" "set (subs_Desired s order) = su_desired s"
    "length (subs_Desired s order) = subs_Count s"
proof -
  show d: "distinct (subs_Desired s order)" by (simp add: subs_Desired_def)
  show e: "set (subs_Desired s order) = su_desired s" using assms(2) by (auto simp: subs_Desired_def)
  show "length (subs_Desired s order) = subs_Count s"
    using distinct_card [OF d] by (simp add: e subs_Count_def)
qed

subsection \<open>Outbound frames\<close>

record outboundFrame =
  of_MsgType :: MessageType
  of_Buf :: "buffer option"
  of_pooled :: bool

record outboundPool =
  op_buffers :: "bufferPool option"
  op_free :: nat

definition newOutboundPool :: "bufferPool option \<Rightarrow> outboundPool" where
  "newOutboundPool buffers = \<lparr>op_buffers = buffers, op_free = 0\<rparr>"

text \<open>\<open>reuse\<close> says whether \<open>sync.Pool\<close> hands out a recycled frame; its fields are all set.\<close>

definition outboundPool_New :: "outboundPool \<Rightarrow> MessageType \<Rightarrow> buffer option \<Rightarrow> bool \<Rightarrow> outboundPool \<times> outboundFrame" where
  "outboundPool_New p msgType buf reuse =
     (if reuse \<and> 0 < op_free p then p\<lparr>op_free := op_free p - 1\<rparr> else p,
      \<lparr>of_MsgType = msgType, of_Buf = buf, of_pooled = True\<rparr>)"

definition outbound_Release :: "outboundPool \<Rightarrow> outboundFrame option \<Rightarrow> outboundPool" where
  "outbound_Release p f =
     (case f of
        None \<Rightarrow> p
      | Some f \<Rightarrow>
          if \<not> of_pooled f then p
          else
            let p = (if of_Buf f \<noteq> None \<and> op_buffers p \<noteq> None
                     then p\<lparr>op_buffers := bufferPool_Put (op_buffers p) (of_Buf f)\<rparr> else p)
            in p\<lparr>op_free := op_free p + 1\<rparr>)"

subsection \<open>The writer\<close>

record writer =
  wr_pooled :: bool
  wr_queue :: "outboundFrame list"
  wr_cap :: nat
  wr_policy :: OverflowPolicy
  wr_connected :: bool

definition newWriter :: "bool \<Rightarrow> int \<Rightarrow> OverflowPolicy \<Rightarrow> writer" where
  "newWriter pooled capacity policy =
     (let capacity = (if capacity \<le> 0 then 1 else capacity) in
      \<lparr>wr_pooled = pooled, wr_queue = [], wr_cap = nat capacity, wr_policy = policy, wr_connected = False\<rparr>)"

definition writer_SetConnected :: "writer \<Rightarrow> bool \<Rightarrow> writer" where
  "writer_SetConnected w connected = w\<lparr>wr_connected := connected\<rparr>"

text \<open>\<open>buf[:size]\<close> of the nil slice or past the capacity panics, as does \<open>make\<close> of a bad size.\<close>

definition reslice :: "buffer option \<Rightarrow> int \<Rightarrow> buffer option go" where
  "reslice buf n =
     (case buf of
        None \<Rightarrow> if n = 0 then Ret None else Panic
      | Some b \<Rightarrow> if 0 \<le> n \<and> n \<le> int (length (buf_data b)) then Ret (Some (b\<lparr>buf_len := nat n\<rparr>)) else Panic)"

definition acquire_frame ::
  "bool \<Rightarrow> outboundPool \<Rightarrow> MessageType \<Rightarrow> int \<Rightarrow> nat option \<Rightarrow> bool \<Rightarrow> (outboundPool \<times> outboundFrame) go" where
  "acquire_frame pooled p msgType n choice reuse =
     (if \<not> pooled \<or> op_buffers p = None
      then go_bind (make_bytes n) (\<lambda>b.
        Ret (p, \<lparr>of_MsgType = msgType, of_Buf = Some \<lparr>buf_data = b, buf_len = nat n\<rparr>, of_pooled = False\<rparr>))
      else go_bind (bufferPool_Get (op_buffers p) n choice) (\<lambda>(bp, buf).
        go_bind (reslice buf n) (\<lambda>buf.
          Ret (outboundPool_New (p\<lparr>op_buffers := bp\<rparr>) msgType buf reuse))))"

definition writer_Acquire ::
  "writer \<Rightarrow> outboundPool \<Rightarrow> MessageType \<Rightarrow> int \<Rightarrow> nat option \<Rightarrow> bool \<Rightarrow> (outboundPool \<times> outboundFrame) go" where
  "writer_Acquire w p msgType n choice reuse = acquire_frame (wr_pooled w) p msgType n choice reuse"

datatype enqueue_result = Accepted | Refused | EnqueueWait

function writer_Enqueue ::
  "writer \<Rightarrow> outboundPool \<Rightarrow> outboundFrame option \<Rightarrow> writer \<times> outboundPool \<times> enqueue_result" where
  "writer_Enqueue w p frame =
     (case frame of
        None \<Rightarrow> (w, p, Refused)
      | Some f \<Rightarrow>
          if \<not> wr_connected w then (w, p, Refused)
          else if length (wr_queue w) < wr_cap w then (w\<lparr>wr_queue := wr_queue w @ [f]\<rparr>, p, Accepted)
          else if wr_policy w = OverflowBlock then (w, p, EnqueueWait)
          else if wr_policy w = OverflowDropOldest then
            (case wr_queue w of
               [] \<Rightarrow> (w, p, Refused)
             | old # rest \<Rightarrow> writer_Enqueue (w\<lparr>wr_queue := rest\<rparr>) (outbound_Release p (Some old)) frame)
          else (w, p, Refused))"
  by pat_completeness auto
termination
  by (relation "measure (\<lambda>(w, p, frame). length (wr_queue w))") auto

declare writer_Enqueue.simps [simp del]

text \<open>\<open>copy(frame.Buf, payload)\<close> and the enqueueing; a blocked send keeps its frame.\<close>

definition fill_frame :: "outboundFrame \<Rightarrow> byte list \<Rightarrow> outboundFrame" where
  "fill_frame f payload = f\<lparr>of_Buf := map_option
     (\<lambda>b. b\<lparr>buf_data := take (buf_len b) payload @ drop (min (buf_len b) (length payload)) (buf_data b)\<rparr>) (of_Buf f)\<rparr>"

definition writer_Send ::
  "writer \<Rightarrow> outboundPool \<Rightarrow> MessageType \<Rightarrow> byte list \<Rightarrow> nat option \<Rightarrow> bool
     \<Rightarrow> (writer \<times> outboundPool \<times> enqueue_result) go" where
  "writer_Send w p msgType payload choice reuse =
     (if \<not> wr_connected w then Ret (w, p, Refused)
      else go_bind (writer_Acquire w p msgType (int (length payload)) choice reuse) (\<lambda>(p, frame).
        let frame = fill_frame frame payload;
            (w, p, res) = writer_Enqueue w p (Some frame)
        in Ret (w, if res = Refused then outbound_Release p (Some frame) else p, res)))"

definition writer_Next :: "writer \<Rightarrow> bool \<Rightarrow> writer \<times> outboundFrame option" where
  "writer_Next w ctxDone =
     (if ctxDone then (w, None)
      else case wr_queue w of [] \<Rightarrow> (w, None) | f # rest \<Rightarrow> (w\<lparr>wr_queue := rest\<rparr>, Some f))"

definition writer_Drain :: "writer \<Rightarrow> outboundPool \<Rightarrow> writer \<times> outboundPool" where
  "writer_Drain w p = (w\<lparr>wr_queue := []\<rparr>, foldl (\<lambda>p f. outbound_Release p (Some f)) p (wr_queue w))"

subsection \<open>What enqueueing does\<close>

definition writer_ok :: "writer \<Rightarrow> bool" where
  "writer_ok w \<longleftrightarrow> 0 < wr_cap w \<and> length (wr_queue w) \<le> wr_cap w"

lemma writer_ok_new: "writer_ok (newWriter pooled capacity policy)"
  by (simp add: writer_ok_def newWriter_def)

lemma Enqueue_space:
  "wr_connected w \<Longrightarrow> length (wr_queue w) < wr_cap w \<Longrightarrow>
     writer_Enqueue w p (Some f) = (w\<lparr>wr_queue := wr_queue w @ [f]\<rparr>, p, Accepted)"
  by (simp add: writer_Enqueue.simps)

lemma Enqueue_full:
  assumes "writer_ok w" "wr_connected w" "length (wr_queue w) = wr_cap w"
  shows "writer_Enqueue w p (Some f) =
    (if wr_policy w = OverflowBlock then (w, p, EnqueueWait)
     else if wr_policy w = OverflowDropOldest
     then (w\<lparr>wr_queue := tl (wr_queue w) @ [f]\<rparr>, outbound_Release p (Some (hd (wr_queue w))), Accepted)
     else (w, p, Refused))"
proof -
  obtain old rest where q: "wr_queue w = old # rest" using assms by (cases "wr_queue w") (auto simp: writer_ok_def)
  have "writer_Enqueue (w\<lparr>wr_queue := rest\<rparr>) (outbound_Release p (Some old)) (Some f)
      = (w\<lparr>wr_queue := rest @ [f]\<rparr>, outbound_Release p (Some old), Accepted)"
    using assms q by (subst Enqueue_space) simp_all
  then show ?thesis using assms q by (subst writer_Enqueue.simps) simp
qed

lemma Enqueue_ok:
  assumes "writer_ok w" "writer_Enqueue w p frame = (w', p', res)"
  shows "writer_ok w' \<and> wr_cap w' = wr_cap w \<and> wr_policy w' = wr_policy w \<and> wr_connected w' = wr_connected w
    \<and> (res = Accepted \<longrightarrow> (\<exists>f. frame = Some f \<and> wr_queue w' \<noteq> [] \<and> last (wr_queue w') = f))
    \<and> (res \<noteq> Accepted \<longrightarrow> w' = w \<and> p' = p)"
proof (cases "frame = None \<or> \<not> wr_connected w")
  case True
  then show ?thesis using assms by (cases frame) (auto simp: writer_Enqueue.simps)
next
  case False
  then obtain f where f: "frame = Some f" "wr_connected w" by auto
  have len: "length (wr_queue w) \<le> wr_cap w" "0 < wr_cap w" using assms(1) by (simp_all add: writer_ok_def)
  show ?thesis
  proof (cases "length (wr_queue w) < wr_cap w")
    case True
    then show ?thesis using assms(2) f Enqueue_space [OF f(2) True] len by (auto simp: writer_ok_def)
  next
    case False
    then have "length (wr_queue w) = wr_cap w" using len by simp
    then show ?thesis using assms Enqueue_full [OF assms(1) f(2)] f len
      by (auto simp: writer_ok_def split: if_splits)
  qed
qed

end
