(* ===== verification/Ws_Backoff.thy ===== *)
theory Ws_Backoff
  imports Ws_Types Go_Float
begin

section \<open>The reconnect delay\<close>

text \<open>
  \<open>backoff.go\<close>. Durations are int64 nanoseconds, the factor and the jitter float64 values;
  \<open>rand.Float64\<close> is the argument \<open>r\<close>. With the factor 2 the delay doubles exactly until it
  passes the maximum, where it stays.
\<close>

record Backoff =
  Backoff_Min :: int
  Backoff_Max :: int
  Backoff_Factor :: f64
  Backoff_Jitter :: f64

text \<open>The product of two float64 values.\<close>

definition f64_neg :: "f64 \<Rightarrow> bool" where
  "f64_neg v = (case v of Fin x \<Rightarrow> x < 0 | Infty s \<Rightarrow> s | NaN \<Rightarrow> False)"

fun f64_mul :: "f64 \<Rightarrow> f64 \<Rightarrow> f64" where
  "f64_mul (Fin x) (Fin y) = rnd64 (x * y)"
| "f64_mul NaN _ = NaN"
| "f64_mul _ NaN = NaN"
| "f64_mul (Infty s) v = (if v = Fin 0 then NaN else Infty (s \<noteq> f64_neg v))"
| "f64_mul v (Infty s) = (if v = Fin 0 then NaN else Infty (f64_neg v \<noteq> s))"

fun f64_le :: "f64 \<Rightarrow> rat \<Rightarrow> bool" where
  "f64_le (Fin x) c \<longleftrightarrow> x \<le> c"
| "f64_le (Infty s) c \<longleftrightarrow> s"
| "f64_le NaN c \<longleftrightarrow> False"

definition DefaultBackoff :: Backoff where
  "DefaultBackoff = \<lparr>Backoff_Min = 250000000, Backoff_Max = 5000000000, Backoff_Factor = Fin 2,
     Backoff_Jitter = rnd64 (1 / 5)\<rparr>"

text \<open>The loop \<open>for i := 1; i < attempt; i++\<close>, by the number of rounds left.\<close>

fun backoff_loop :: "go_env \<Rightarrow> f64 \<Rightarrow> int \<Rightarrow> nat \<Rightarrow> int \<Rightarrow> int" where
  "backoff_loop env factor mx 0 wait = wait"
| "backoff_loop env factor mx (Suc n) wait =
     (let nxt = f64_to_int64 env (f64_mul (rnd64 (of_int wait)) factor) in
      if nxt > mx then mx else backoff_loop env factor mx n nxt)"

definition Backoff_Next :: "go_env \<Rightarrow> f64 \<Rightarrow> Backoff \<Rightarrow> int \<Rightarrow> int" where
  "Backoff_Next env r b attempt =
     (let attempt = (if attempt \<le> 0 then 1 else attempt);
          mn = (if Backoff_Min b \<le> 0 then 100000000 else Backoff_Min b);
          mx = (if Backoff_Max b \<le> 0 then 5000000000 else Backoff_Max b);
          factor = (if f64_le (Backoff_Factor b) 1 then Fin 2 else Backoff_Factor b);
          wait = backoff_loop env factor mx (nat (attempt - 1)) mn
      in if f64_le (Backoff_Jitter b) 0 then wait
         else
           let jitter = (if f64_gt (Backoff_Jitter b) 1 then Fin 1 else Backoff_Jitter b);
               delta = f64_mul (rnd64 (of_int wait)) jitter
           in wrap64 (wrap64 (wait - f64_to_int64 env delta)
                + f64_to_int64 env (f64_mul (f64_mul r (Fin 2)) delta)))"

lemma backoff_double:
  assumes "0 < wait" "wait < 2 ^ 52"
  shows "f64_to_int64 env (f64_mul (rnd64 (of_int wait)) (Fin 2)) = 2 * wait"
proof -
  have "rnd64 (of_int wait) = Fin (of_int wait)" by (rule rnd64_int) (use assms in simp_all)
  moreover have "rnd64 (of_int (2 * wait)) = Fin (of_int (2 * wait))" by (rule rnd64_int) (use assms in simp_all)
  moreover have "of_int wait * (2 :: rat) = of_int (2 * wait)" by simp
  ultimately have "f64_mul (rnd64 (of_int wait)) (Fin 2) = Fin (of_int (2 * wait))" by (simp only: f64_mul.simps)
  moreover have "trunc_rat (of_int (2 * wait)) = 2 * wait" using assms by (simp only: trunc_rat_def floor_of_int ceiling_of_int if_cancel)
  moreover have "in_int64 (2 * wait)" using assms by (simp add: in_int64_def)
  ultimately show ?thesis by (simp only: f64_to_int64_def f64.case if_True)
qed

lemma backoff_loop_double:
  "0 < wait \<Longrightarrow> wait \<le> mx \<Longrightarrow> mx < 2 ^ 52 \<Longrightarrow> backoff_loop env (Fin 2) mx n wait = min (wait * 2 ^ n) mx"
proof (induction n arbitrary: wait)
  case (Suc n)
  have d: "f64_to_int64 env (f64_mul (rnd64 (of_int wait)) (Fin 2)) = 2 * wait"
    by (rule backoff_double) (use Suc.prems in linarith)+
  show ?case
  proof (cases "2 * wait > mx")
    case True
    have "2 * wait * 1 \<le> 2 * wait * 2 ^ n" by (rule mult_left_mono) (use Suc.prems in simp_all)
    with True have "mx \<le> wait * 2 ^ Suc n" by simp
    then show ?thesis using True by (simp only: backoff_loop.simps d Let_def if_True min_def) auto
  next
    case False
    have e: "backoff_loop env (Fin 2) mx n (2 * wait) = min (2 * wait * 2 ^ n) mx"
      by (rule Suc.IH) (use Suc.prems False in simp_all)
    have "2 * wait * 2 ^ n = wait * 2 ^ Suc n" by simp
    then show ?thesis using False e by (simp only: backoff_loop.simps d Let_def if_False)
  qed
qed simp

end
