(* ===== verification/Ws_Session.thy ===== *)
theory Ws_Session
  imports Ws_Outbound Ws_Backoff Ws_Wire Ws_Router
begin

section \<open>Sessions\<close>

text \<open>
  \<open>session.go\<close>. A session is one connection with its topics, its outbound queue and its read
  loop. \<open>start\<close> and the end of the goroutine it spawns are separate operations; the loop \<open>run\<close> is
  cut at its blocking points into head (dial), connect (resubscribe) and end of service;
  \<open>runSession\<close>'s select and the read loop are one function per event. The buffer pool is the one
  manager-wide pool, here inside the outbound pool or the frame store. The encoder is a function
  of the topic and of the number of the call; the decoder also gets the spare bytes of the buffer.
  The bytes a failed read leaves in the buffer are not modelled: nobody reads them.
\<close>

datatype 'e session_error = WsErr manager_error | EncErr 'e | ConnErr conn_error | CtxErr

type_synonym 'e encode = "nat \<Rightarrow> 'e + MessageType \<times> byte list"

record 'e encoder =
  en_subscribe :: "TopicID \<Rightarrow> 'e encode"
  en_unsubscribe :: "TopicID \<Rightarrow> 'e encode"

record session =
  ss_id :: nat
  ss_writer :: writer
  ss_subscriptions :: subscriptions
  ss_controlBufSize :: int
  ss_frameSize :: int
  ss_connected :: bool
  ss_cancel :: "bool option"
  ss_done :: bool
  ss_running :: bool

definition newSession :: "nat \<Rightarrow> bool \<Rightarrow> int \<Rightarrow> OverflowPolicy \<Rightarrow> bufferPool option \<Rightarrow> session" where
  "newSession i pooled queueSize policy buffers =
     \<lparr>ss_id = i, ss_writer = newWriter pooled queueSize policy, ss_subscriptions = newSubscriptions,
      ss_controlBufSize = bufferPool_InitSize buffers, ss_frameSize = bufferPool_InitSize buffers,
      ss_connected = False, ss_cancel = None, ss_done = False, ss_running = False\<rparr>"

text \<open>\<open>ss_cancel\<close> is the cancel function of the session's context: None before the first start,
  then whether it has been called. The goroutine's end closes the channel \<open>done\<close>, which panics
  when it is closed already.\<close>

definition session_start :: "session \<Rightarrow> bool \<Rightarrow> session" where
  "session_start s hasParent =
     (if \<not> hasParent then s
      else if ss_running s then s
      else s\<lparr>ss_running := True, ss_cancel := Some False\<rparr>)"

definition session_exit :: "session \<Rightarrow> session go" where
  "session_exit s = (if ss_done s then Panic else Ret (s\<lparr>ss_done := True, ss_running := False\<rparr>))"

definition session_stop :: "session option \<Rightarrow> session option" where
  "session_stop s =
     (case s of
        None \<Rightarrow> None
      | Some s \<Rightarrow> Some (case ss_cancel s of None \<Rightarrow> s | Some _ \<Rightarrow> s\<lparr>ss_cancel := Some True\<rparr>))"

subsection \<open>Control messages\<close>

definition buf_cap :: "buffer option \<Rightarrow> nat" where
  "buf_cap buf = (case buf of None \<Rightarrow> 0 | Some b \<Rightarrow> length (buf_data b))"

text \<open>What \<open>encode(buf[:0])\<close> returns: the payload in the buffer when it fits, else in a new one.\<close>

definition encode_into :: "buffer option \<Rightarrow> byte list \<Rightarrow> buffer option" where
  "encode_into buf bs =
     (if bs = [] then map_option (\<lambda>b. b\<lparr>buf_len := 0\<rparr>) buf
      else if length bs \<le> buf_cap buf
      then map_option (\<lambda>b. \<lparr>buf_data = bs @ drop (length bs) (buf_data b), buf_len = length bs\<rparr>) buf
      else Some \<lparr>buf_data = bs, buf_len = length bs\<rparr>)"

definition encodeControl ::
  "bufferPool option \<Rightarrow> int \<Rightarrow> 'e encode \<Rightarrow> (nat \<Rightarrow> nat option)
     \<Rightarrow> (bufferPool option \<times> ('e session_error + buffer option \<times> MessageType)) go" where
  "encodeControl bp controlBufSize encode choice =
     (if bp = None then Ret (bp, Inl (WsErr ErrNoPool))
      else go_bind (bufferPool_Get bp controlBufSize (choice 0)) (\<lambda>(bp, buf).
        case encode 0 of
          Inl e \<Rightarrow> Ret (bufferPool_Put bp buf, Inl (EncErr e))
        | Inr (msgType, payload) \<Rightarrow>
            if length payload \<le> buf_cap buf then Ret (bp, Inr (encode_into buf payload, msgType))
            else
              go_bind (bufferPool_Get (bufferPool_Put bp buf) (int (length payload)) (choice 1)) (\<lambda>(bp, buf).
                case encode 1 of
                  Inl e \<Rightarrow> Ret (bufferPool_Put bp buf, Inl (EncErr e))
                | Inr (msgType, payload) \<Rightarrow>
                    if length payload \<le> buf_cap buf then Ret (bp, Inr (encode_into buf payload, msgType))
                    else Ret (bufferPool_Put bp buf, Inl (WsErr ErrFrameTooLarge)))))"

datatype 'e send_result = Sent | SendErr "'e session_error" | SendWait

definition sendControl ::
  "session \<Rightarrow> outboundPool \<Rightarrow> 'e encode \<Rightarrow> (nat \<Rightarrow> nat option) \<Rightarrow> bool
     \<Rightarrow> (session \<times> outboundPool \<times> 'e send_result) go" where
  "sendControl s p encode choice reuse =
     go_bind (encodeControl (op_buffers p) (ss_controlBufSize s) encode choice) (\<lambda>(bp, r).
       let p = p\<lparr>op_buffers := bp\<rparr> in
       case r of
         Inl e \<Rightarrow> Ret (s, p, SendErr e)
       | Inr (payload, msgType) \<Rightarrow>
           (let (p, frame) = outboundPool_New p msgType payload reuse;
                (w, p, res) = writer_Enqueue (ss_writer s) p (Some frame);
                s = s\<lparr>ss_writer := w\<rparr>
            in case res of
                 Accepted \<Rightarrow> Ret (s, p, Sent)
               | Refused \<Rightarrow> Ret (s, outbound_Release p (Some frame), SendErr (WsErr ErrQueueFull))
               | EnqueueWait \<Rightarrow> Ret (s, p, SendWait)))"

definition sendSubscribe where
  "sendSubscribe s p enc topic choice reuse = sendControl s p (en_subscribe enc topic) choice reuse"

definition sendUnsubscribe where
  "sendUnsubscribe s p enc topic choice reuse = sendControl s p (en_unsubscribe enc topic) choice reuse"

definition session_subscribe ::
  "session option \<Rightarrow> outboundPool \<Rightarrow> 'e encoder option \<Rightarrow> TopicID \<Rightarrow> (nat \<Rightarrow> nat option) \<Rightarrow> bool
     \<Rightarrow> (session option \<times> outboundPool \<times> 'e send_result) go" where
  "session_subscribe s p enc topic choice reuse =
     (case (s, enc) of
        (None, _) \<Rightarrow> Ret (None, p, SendErr (WsErr ErrBadConfig))
      | (Some s, None) \<Rightarrow> Ret (Some s, p, SendErr (WsErr ErrNoEncoder))
      | (Some s, Some enc) \<Rightarrow>
          if \<not> ss_connected s then Ret (Some s, p, Sent)
          else go_bind (sendSubscribe s p enc topic choice reuse) (\<lambda>(s, p, r).
            case r of
              Sent \<Rightarrow> Ret (Some (s\<lparr>ss_subscriptions := subs_MarkActive (ss_subscriptions s) topic\<rparr>), p, Sent)
            | _ \<Rightarrow> Ret (Some s, p, r)))"

definition session_unsubscribe ::
  "session option \<Rightarrow> outboundPool \<Rightarrow> 'e encoder option \<Rightarrow> TopicID \<Rightarrow> (nat \<Rightarrow> nat option) \<Rightarrow> bool
     \<Rightarrow> (session option \<times> outboundPool \<times> 'e send_result) go" where
  "session_unsubscribe s p enc topic choice reuse =
     (case (s, enc) of
        (None, _) \<Rightarrow> Ret (None, p, SendErr (WsErr ErrBadConfig))
      | (Some s, None) \<Rightarrow> Ret (Some s, p, SendErr (WsErr ErrNoEncoder))
      | (Some s, Some enc) \<Rightarrow>
          if \<not> ss_connected s then Ret (Some s, p, Sent)
          else go_bind (sendUnsubscribe s p enc topic choice reuse) (\<lambda>(s, p, r). Ret (Some s, p, r)))"

fun resubscribe_loop ::
  "session \<Rightarrow> outboundPool \<Rightarrow> 'e encoder \<Rightarrow> TopicID list \<Rightarrow> (TopicID \<Rightarrow> nat \<Rightarrow> nat option) \<Rightarrow> bool
     \<Rightarrow> (session \<times> outboundPool \<times> 'e send_result) go" where
  "resubscribe_loop s p enc [] choice reuse = Ret (s, p, Sent)"
| "resubscribe_loop s p enc (t # ts) choice reuse =
     go_bind (sendSubscribe s p enc t (choice t) reuse) (\<lambda>(s, p, r).
       case r of
         Sent \<Rightarrow> resubscribe_loop (s\<lparr>ss_subscriptions := subs_MarkActive (ss_subscriptions s) t\<rparr>) p enc ts choice reuse
       | _ \<Rightarrow> Ret (s, p, r))"

definition resubscribe ::
  "session \<Rightarrow> outboundPool \<Rightarrow> 'e encoder option \<Rightarrow> TopicID list \<Rightarrow> (TopicID \<Rightarrow> nat \<Rightarrow> nat option) \<Rightarrow> bool
     \<Rightarrow> (session \<times> outboundPool \<times> 'e send_result) go" where
  "resubscribe s p enc order choice reuse =
     (let desired = subs_Desired (ss_subscriptions s) order in
      if length desired = 0 then Ret (s, p, Sent)
      else case enc of
        None \<Rightarrow> Ret (s, p, SendErr (WsErr ErrNoEncoder))
      | Some enc \<Rightarrow> resubscribe_loop s p enc desired choice reuse)"

subsection \<open>The connection loop\<close>

datatype run_next = RunReturn | RunSleep | RunConnected | RunServe | RunWait

definition run_head :: "session \<Rightarrow> int \<Rightarrow> bool \<Rightarrow> bool \<Rightarrow> session \<times> int \<times> run_next" where
  "run_head s attempt ctxDone dialOk =
     (if ctxDone then (s, attempt, RunReturn)
      else if subs_Count (ss_subscriptions s) = 0 then (s, attempt, RunReturn)
      else if \<not> dialOk then (s, attempt + 1, RunSleep)
      else (s\<lparr>ss_connected := True, ss_writer := writer_SetConnected (ss_writer s) True\<rparr>, 0, RunConnected))"

text \<open>Hanging up: the flags are cleared before the queue is drained.\<close>

definition session_hangup :: "session \<Rightarrow> outboundPool \<Rightarrow> session \<times> outboundPool" where
  "session_hangup s p =
     (let s = s\<lparr>ss_connected := False\<rparr>;
          (w, p) = writer_Drain (writer_SetConnected (ss_writer s) False) p
      in (s\<lparr>ss_writer := w\<rparr>, p))"

text \<open>\<open>onConnect\<close> is the hook's outcome: no hook, or whether it failed; what it has sent is already
  in the queue.\<close>

definition run_connect ::
  "session \<Rightarrow> outboundPool \<Rightarrow> int \<Rightarrow> bool option \<Rightarrow> 'e encoder option \<Rightarrow> TopicID list
     \<Rightarrow> (TopicID \<Rightarrow> nat \<Rightarrow> nat option) \<Rightarrow> bool \<Rightarrow> (session \<times> outboundPool \<times> int \<times> run_next) go" where
  "run_connect s p attempt onConnect enc order choice reuse =
     (if onConnect = Some False then
        (let (s, p) = session_hangup s p in Ret (s, p, attempt + 1, RunSleep))
      else
        let s = s\<lparr>ss_subscriptions := subs_ClearActive (ss_subscriptions s)\<rparr> in
        go_bind (resubscribe s p enc order choice reuse) (\<lambda>(s, p, r).
          case r of
            Sent \<Rightarrow> Ret (s, p, attempt, RunServe)
          | SendWait \<Rightarrow> Ret (s, p, attempt, RunWait)
          | SendErr e \<Rightarrow> (let (s, p) = session_hangup s p in Ret (s, p, attempt + 1, RunSleep))))"

definition run_end :: "session \<Rightarrow> outboundPool \<Rightarrow> int \<Rightarrow> bool \<Rightarrow> session \<times> outboundPool \<times> int \<times> run_next" where
  "run_end s p attempt ctxDone =
     (let (s, p) = session_hangup s p in
      if ctxDone then (s, p, attempt, RunReturn) else (s, p, attempt + 1, RunSleep))"

text \<open>One turn of the select of \<open>runSession\<close>; \<open>None\<close> means the loop goes on.\<close>

datatype select_event = EvCtxDone | EvReadErr conn_error | EvFrame | EvPing

datatype select_result = Serving | Ended "conn_error option" | PingWait

definition runSession_step ::
  "wsConn \<Rightarrow> session \<Rightarrow> outboundPool \<Rightarrow> select_event \<Rightarrow> nat option \<Rightarrow> bool
     \<Rightarrow> (wsConn \<times> session \<times> outboundPool \<times> select_result) go" where
  "runSession_step conn s p ev choice reuse =
     (case ev of
        EvCtxDone \<Rightarrow> Ret (conn, s, p, Ended None)
      | EvReadErr e \<Rightarrow> Ret (conn, s, p, Ended (Some e))
      | EvFrame \<Rightarrow>
          (case writer_Next (ss_writer s) False of
             (w, None) \<Rightarrow> Ret (conn, s, p, Serving)
           | (w, Some frame) \<Rightarrow>
               (let s = s\<lparr>ss_writer := w\<rparr>;
                    bs = (case of_Buf frame of None \<Rightarrow> [] | Some b \<Rightarrow> visible b);
                    (conn, masked, err) = wsConn_Write conn (of_MsgType frame) bs;
                    frame = frame\<lparr>of_Buf := map_option (\<lambda>b. b\<lparr>buf_data := masked @ drop (buf_len b) (buf_data b)\<rparr>) (of_Buf frame)\<rparr>;
                    p = outbound_Release p (Some frame)
                in Ret (conn, s, p, case err of None \<Rightarrow> Serving | Some e \<Rightarrow> Ended (Some e))))
      | EvPing \<Rightarrow>
          go_bind (writer_Send (ss_writer s) p MessagePing [] choice reuse) (\<lambda>(w, p, r).
            Ret (conn, s\<lparr>ss_writer := w\<rparr>, p, if r = EnqueueWait then PingWait else Serving)))"

definition sleepBackoff :: "go_env \<Rightarrow> f64 \<Rightarrow> Backoff \<Rightarrow> int \<Rightarrow> int" where
  "sleepBackoff env r b attempt = (let wait = Backoff_Next env r b attempt in if wait \<le> 0 then 0 else wait)"

subsection \<open>The read loop\<close>

text \<open>The new frame size, and whether to read again.\<close>

definition tryGrowReadBuffer :: "bufferPool option \<Rightarrow> int \<Rightarrow> int \<Rightarrow> int \<Rightarrow> int \<times> bool" where
  "tryGrowReadBuffer bp frameSize currentLen bucketCap =
     (if bp = None \<or> currentLen \<le> 0 then (frameSize, False)
      else
        let nxt = (if bucketCap > currentLen then bucketCap else bufferPool_NextBucketSize bp bucketCap) in
        if \<not> bucketCap > currentLen \<and> nxt = 0 then (frameSize, False)
        else (if nxt > frameSize then nxt else frameSize, True))"

datatype read_result = ReadOn | ReadStop conn_error | ReadTooLarge | Routed "nat list" "nat option"

record read_state =
  rs_conn :: wsConn
  rs_store :: frame_store
  rs_queues :: "frameQueue list"
  rs_frameSize :: int

definition readLoop_step ::
  "router \<Rightarrow> (string \<Rightarrow> string \<Rightarrow> TopicID option go) \<Rightarrow> u64 \<Rightarrow> read_state
     \<Rightarrow> nat option \<Rightarrow> nat option \<Rightarrow> (nat \<Rightarrow> nat option \<times> nat option) \<Rightarrow> (read_state \<times> read_result) go" where
  "readLoop_step rt decoder meta s choice frameChoice copies =
     go_bind (bufferPool_Get (fs_buffers (rs_store s)) (rs_frameSize s) choice) (\<lambda>(bp, buf).
       let st = (rs_store s)\<lparr>fs_buffers := bp\<rparr>;
           len = (case buf of None \<Rightarrow> 0 | Some b \<Rightarrow> buf_len b);
           put = (rs_store s)\<lparr>fs_buffers := bufferPool_Put bp buf\<rparr>
       in case wsConn_Read (rs_conn s) len of
            (c, Inl e) \<Rightarrow>
              (let s = s\<lparr>rs_conn := c, rs_store := put\<rparr> in
               if e = errFrameTooLarge then
                 (case tryGrowReadBuffer (fs_buffers put) (rs_frameSize s) (int len) (int (buf_cap buf)) of
                    (n, True) \<Rightarrow> Ret (s\<lparr>rs_frameSize := n\<rparr>, ReadOn)
                  | (n, False) \<Rightarrow> Ret (s, ReadTooLarge))
               else Ret (s, ReadStop e))
          | (c, Inr (bs, msgType)) \<Rightarrow>
              (let s = s\<lparr>rs_conn := c\<rparr> in
               if length bs = 0 then Ret (s\<lparr>rs_store := put\<rparr>, ReadOn)
               else if msgType \<noteq> MessageText \<and> msgType \<noteq> MessageBinary then Ret (s\<lparr>rs_store := put\<rparr>, ReadOn)
               else
                 let spare = (case buf of None \<Rightarrow> [] | Some b \<Rightarrow> drop (length bs) (buf_data b));
                     (st, f) = framePool_New st (Some \<lparr>buf_data = bs @ spare, buf_len = length bs\<rparr>) frameChoice;
                     st = fs_upd f (\<lambda>fr. fr\<lparr>Frame_Meta := meta\<rparr>) st
                 in go_bind (decoder (text_of bs) (text_of spare)) (\<lambda>topic.
                      case topic of
                        None \<Rightarrow> Ret (s\<lparr>rs_store := Frame_Release st f\<rparr>, ReadOn)
                      | Some t \<Rightarrow>
                          (let st = fs_upd f (\<lambda>fr. fr\<lparr>Frame_Topic := t\<rparr>) st in
                           go_bind (router_Route (Some rt) st (rs_queues s) (Some f) copies) (\<lambda>((st, qs, rest), w).
                             Ret (s\<lparr>rs_store := st, rs_queues := qs\<rparr>, Routed rest w))))))"

text \<open>The loop, for a number of rounds; each round has its own clock value and pool choices.\<close>

type_synonym round_choice = "u64 \<times> nat option \<times> nat option \<times> (nat \<Rightarrow> nat option \<times> nat option)"

fun readLoop ::
  "router \<Rightarrow> (string \<Rightarrow> string \<Rightarrow> TopicID option go) \<Rightarrow> (nat \<Rightarrow> round_choice) \<Rightarrow> nat \<Rightarrow> read_state
     \<Rightarrow> (read_state \<times> read_result) go" where
  "readLoop rt decoder ch 0 s = Ret (s, ReadOn)"
| "readLoop rt decoder ch (Suc n) s =
     (case ch 0 of (meta, choice, frameChoice, copies) \<Rightarrow>
        go_bind (readLoop_step rt decoder meta s choice frameChoice copies) (\<lambda>(s, r).
          case r of ReadOn \<Rightarrow> readLoop rt decoder (\<lambda>i. ch (Suc i)) n s
          | Routed [] w \<Rightarrow> readLoop rt decoder (\<lambda>i. ch (Suc i)) n s
          | _ \<Rightarrow> Ret (s, r)))"

end
