(* ===== verification/Ws_Session_Laws.thy ===== *)
theory Ws_Session_Laws
  imports Ws_Session Ws_Wire_Laws
begin

section \<open>Facts about sessions\<close>

text \<open>
  A control message leaves with exactly the encoder's bytes, whatever buffer it was written to; a
  reconnect makes the active topics the desired ones; a hang-up leaves nothing queued; growing the
  read buffer reaches every message some bucket can hold, without losing a byte of it.
\<close>

subsection \<open>Getting a buffer\<close>

lemma Get_returns:
  assumes "pool_ok p" "0 < s" "x \<in> set (bp_sizes p)" "s \<le> x" "x \<le> max_alloc"
  obtains q b where "bufferPool_Get (Some p) s choice = Ret (Some q, Some b)" "int (buf_len b) = s"
    "s \<le> int (length (buf_data b))" "int (length (buf_data b)) \<in> set (bp_sizes p)"
    "int (length (buf_data b)) \<le> x" "pool_ok q" "bp_sizes q = bp_sizes p"
proof (rule bucketIndex_cases [OF assms(1), of s])
  assume "\<forall>i < length (bp_sizes p). bp_sizes p ! i < s"
  then have "\<forall>y \<in> set (bp_sizes p). y < s" by (auto simp: in_set_conv_nth)
  then show thesis using assms by force
next
  fix i
  assume i: "bufferPool_bucketIndex p s = int i" "i < length (bp_sizes p)" "s \<le> bp_sizes p ! i" "\<forall>j < i. bp_sizes p ! j < s"
  have sw: "sorted_wrt (<) (bp_sizes p)" "length (bp_pools p) = length (bp_sizes p)" using assms(1) by (simp_all add: pool_ok_def)
  obtain j where j: "j < length (bp_sizes p)" "bp_sizes p ! j = x" using assms(3) by (auto simp: in_set_conv_nth)
  have "\<not> j < i" using i(4) j assms(4) by force
  then have ix: "bp_sizes p ! i \<le> x"
    using sorted_wrt_nth_less [OF sw(1), of i j] j by (cases "i = j") (simp_all add: less_imp_le)
  have "\<exists>q d. pool_take p i choice = Ret (q, d)"
    using ix assms(2,5) i(3) by (auto simp: pool_take_def make_bytes_def Let_def split: option.split)
  then obtain q d where t: "pool_take p i choice = Ret (q, d)" by blast
  note ok = pool_take_ok [OF assms(1) i(2) t]
  have "bp_pools p \<noteq> []" using sw(2) i(2) by auto
  then have "bufferPool_Get (Some p) s choice = Ret (Some q, Some \<lparr>buf_data = d, buf_len = nat s\<rparr>)"
    using i assms(2) ok(3) by (simp add: bufferPool_Get_def t)
  then show thesis by (rule that) (use ok i ix assms(2) in simp_all)
qed

lemma Put_returns: "pool_ok p \<Longrightarrow> \<exists>q. bufferPool_Put (Some p) b = Some q \<and> pool_ok q \<and> bp_sizes q = bp_sizes p"
proof -
  assume ok: "pool_ok p"
  have "bufferPool_Put (Some p) b \<noteq> None" by (simp add: bufferPool_Put_def Let_def split: option.split)
  then obtain q where "bufferPool_Put (Some p) b = Some q" by blast
  then show ?thesis using Put_ok [OF ok] by blast
qed

subsection \<open>Control messages\<close>

definition payload_of :: "buffer option \<Rightarrow> byte list" where
  "payload_of buf = (case buf of None \<Rightarrow> [] | Some b \<Rightarrow> visible b)"

lemma encode_into_payload: "payload_of (encode_into buf bs) = bs"
  by (cases buf) (simp_all add: encode_into_def payload_of_def visible_def buf_cap_def)

text \<open>Twice the same answer of the encoder, and the message goes out whatever its length.\<close>

lemma encodeControl_payload:
  assumes "pool_ok p" "0 < n" "x \<in> set (bp_sizes p)" "n \<le> x" "x \<le> max_alloc"
    and "encode 0 = Inr (mt, bs)" "encode 1 = Inr (mt, bs)" "int (length bs) \<le> x"
  obtains q buf where "encodeControl (Some p) n encode choice = Ret (Some q, Inr (buf, mt))"
    "payload_of buf = bs" "pool_ok q" "bp_sizes q = bp_sizes p"
proof -
  obtain q b where g: "bufferPool_Get (Some p) n (choice 0) = Ret (Some q, Some b)"
    and q: "pool_ok q" "bp_sizes q = bp_sizes p"
    using Get_returns [OF assms(1-5)] by metis
  show thesis
  proof (cases "length bs \<le> length (buf_data b)")
    case True
    then have "encodeControl (Some p) n encode choice = Ret (Some q, Inr (encode_into (Some b) bs, mt))"
      using assms(6) by (simp add: encodeControl_def g buf_cap_def)
    then show thesis by (rule that) (simp_all add: encode_into_payload q)
  next
    case False
    then have len: "0 < int (length bs)" by linarith
    obtain q1 where p1: "bufferPool_Put (Some q) (Some b) = Some q1" "pool_ok q1" "bp_sizes q1 = bp_sizes p"
      using Put_returns [OF q(1)] q(2) by metis
    have x: "x \<in> set (bp_sizes q1)" using assms(3) p1(3) by simp
    obtain q2 b2 where g2: "bufferPool_Get (Some q1) (int (length bs)) (choice 1) = Ret (Some q2, Some b2)"
      and b2: "int (length bs) \<le> int (length (buf_data b2))" "pool_ok q2" "bp_sizes q2 = bp_sizes q1"
      using Get_returns [OF p1(2) len x assms(8,5)] by metis
    have "encodeControl (Some p) n encode choice = Ret (Some q2, Inr (encode_into (Some b2) bs, mt))"
      using assms(6,7) False b2(1) g2 by (simp add: encodeControl_def g p1 buf_cap_def)
    then show thesis by (rule that) (simp_all add: encode_into_payload b2 p1)
  qed
qed

text \<open>Sending one control message to a connected session with room in its queue.\<close>

lemma sendControl_sent:
  assumes "op_buffers p = Some bp" "pool_ok bp" "0 < ss_controlBufSize s" "x \<in> set (bp_sizes bp)"
    and "ss_controlBufSize s \<le> x" "x \<le> max_alloc"
    and "encode 0 = Inr (mt, bs)" "encode 1 = Inr (mt, bs)" "int (length bs) \<le> x"
    and "wr_connected (ss_writer s)" "length (wr_queue (ss_writer s)) < wr_cap (ss_writer s)"
  obtains p' frame bp' where
    "sendControl s p encode choice reuse = Ret (s\<lparr>ss_writer := (ss_writer s)\<lparr>wr_queue := wr_queue (ss_writer s) @ [frame]\<rparr>\<rparr>, p', Sent)"
    "of_MsgType frame = mt" "payload_of (of_Buf frame) = bs"
    "op_buffers p' = Some bp'" "pool_ok bp'" "bp_sizes bp' = bp_sizes bp"
proof -
  obtain q buf where e: "encodeControl (Some bp) (ss_controlBufSize s) encode choice = Ret (Some q, Inr (buf, mt))"
    and q: "payload_of buf = bs" "pool_ok q" "bp_sizes q = bp_sizes bp"
    using encodeControl_payload [OF assms(2-9)] by metis
  let ?f = "\<lparr>of_MsgType = mt, of_Buf = buf, of_pooled = True\<rparr>"
  have "\<exists>p'. outboundPool_New (p\<lparr>op_buffers := Some q\<rparr>) mt buf reuse = (p', ?f) \<and> op_buffers p' = Some q"
    by (simp add: outboundPool_New_def)
  then obtain p' where nw: "outboundPool_New (p\<lparr>op_buffers := Some q\<rparr>) mt buf reuse = (p', ?f)" "op_buffers p' = Some q"
    by blast
  have "sendControl s p encode choice reuse = Ret (s\<lparr>ss_writer := (ss_writer s)\<lparr>wr_queue := wr_queue (ss_writer s) @ [?f]\<rparr>\<rparr>, p', Sent)"
    using Enqueue_space [OF assms(10,11)] assms(1) by (simp add: sendControl_def e nw)
  then show thesis by (rule that [OF _ _ _ nw(2) q(2,3)]) (simp_all add: q)
qed

subsection \<open>Hanging up and reconnecting\<close>

lemma session_hangup_state:
  assumes "session_hangup s p = (s', p')"
  shows "\<not> ss_connected s'" "\<not> wr_connected (ss_writer s')" "wr_queue (ss_writer s') = []"
    "ss_subscriptions s' = ss_subscriptions s"
  using assms by (auto simp: session_hangup_def writer_Drain_def writer_SetConnected_def Let_def)

lemma sendControl_subs:
  "sendControl s p encode choice reuse = Ret (s', p', r) \<Longrightarrow> ss_subscriptions s' = ss_subscriptions s"
proof -
  assume a: "sendControl s p encode choice reuse = Ret (s', p', r)"
  then obtain bp x where e: "encodeControl (op_buffers p) (ss_controlBufSize s) encode choice = Ret (bp, x)"
    by (auto simp: sendControl_def go_bind_Ret_iff)
  show ?thesis
  proof (cases x)
    case (Inl e)
    then show ?thesis using a e by (simp add: sendControl_def Let_def)
  next
    case (Inr y)
    obtain buf mt where y: "y = (buf, mt)" by (cases y)
    obtain p1 f where n: "outboundPool_New (p\<lparr>op_buffers := bp\<rparr>) mt buf reuse = (p1, f)" by fastforce
    obtain w p2 res where "writer_Enqueue (ss_writer s) p1 (Some f) = (w, p2, res)" by (metis prod_cases3)
    then show ?thesis using a e Inr y n by (cases res) (auto simp: sendControl_def Let_def)
  qed
qed

lemma resubscribe_loop_active:
  "resubscribe_loop s p enc ts choice reuse = Ret (s', p', r) \<Longrightarrow>
     su_desired (ss_subscriptions s') = su_desired (ss_subscriptions s)
     \<and> (r = Sent \<longrightarrow> su_active (ss_subscriptions s') = su_active (ss_subscriptions s) \<union> set ts)"
proof (induction ts arbitrary: s p)
  case (Cons t ts)
  obtain s1 p1 r1 where u: "sendSubscribe s p enc t (choice t) reuse = Ret (s1, p1, r1)"
    using Cons.prems by (cases "sendSubscribe s p enc t (choice t) reuse") auto
  then have e: "ss_subscriptions s1 = ss_subscriptions s" using sendControl_subs by (simp add: sendSubscribe_def)
  show ?case
  proof (cases r1)
    case Sent
    then have "resubscribe_loop (s1\<lparr>ss_subscriptions := subs_MarkActive (ss_subscriptions s1) t\<rparr>) p1 enc ts choice reuse
        = Ret (s', p', r)" using Cons.prems u by simp
    from Cons.IH [OF this] show ?thesis by (simp add: subs_MarkActive_def e)
  qed (use Cons.prems u e in auto)
qed simp

text \<open>After a successful reconnect exactly the desired topics are active.\<close>

lemma run_connect_active:
  assumes "run_connect s p attempt onConnect enc order choice reuse = Ret (s', p', a, RunServe)"
    and "su_desired (ss_subscriptions s) \<subseteq> set order"
  shows "su_active (ss_subscriptions s') = su_desired (ss_subscriptions s')"
proof -
  let ?s = "s\<lparr>ss_subscriptions := subs_ClearActive (ss_subscriptions s)\<rparr>"
  have n: "onConnect \<noteq> Some False" using assms(1) by (auto simp: run_connect_def split: prod.splits)
  then obtain s1 p1 r1 where "resubscribe ?s p enc order choice reuse = Ret (s1, p1, r1)"
    using assms(1) by (auto simp: run_connect_def go_bind_Ret_iff Let_def)
  then have r: "resubscribe ?s p enc order choice reuse = Ret (s', p', Sent)"
    using assms(1) n by (cases r1) (auto simp: run_connect_def Let_def split: prod.splits)
  have d: "set (subs_Desired (ss_subscriptions ?s) order) = su_desired (ss_subscriptions s)"
    using assms(2) by (auto simp: subs_Desired_def subs_ClearActive_def)
  show ?thesis
  proof (cases "subs_Desired (ss_subscriptions ?s) order = []")
    case True
    then have "s' = ?s" using r by (simp add: resubscribe_def)
    then show ?thesis using d True by (simp add: subs_ClearActive_def)
  next
    case False
    then have "resubscribe_loop ?s p (the enc) (subs_Desired (ss_subscriptions ?s) order) choice reuse = Ret (s', p', Sent)"
      using r by (cases enc) (simp_all add: resubscribe_def Let_def)
    from resubscribe_loop_active [OF this] show ?thesis unfolding d by (simp add: subs_ClearActive_def)
  qed
qed

subsection \<open>Growing the read buffer\<close>

lemma next_bucket:
  assumes "pool_ok p" "0 < n" "x \<in> set (bp_sizes p)" "n < x"
  shows "bufferPool_NextBucketSize (Some p) n \<in> set (bp_sizes p)" "n < bufferPool_NextBucketSize (Some p) n"
    "bufferPool_NextBucketSize (Some p) n \<le> x"
  using NextBucketSize_spec [OF assms(1,2)] assms(3,4) by force+

text \<open>One round that finds the buffer too small: the connection keeps the message, the size grows.\<close>

lemma readLoop_step_grow:
  assumes "fs_buffers (rs_store s) = Some p" "pool_ok p" "rs_frameSize s = F" "F \<in> set (bp_sizes p)"
    and "F \<le> max_alloc" "x \<in> set (bp_sizes p)" "F < x"
    and "wsConn_Read (rs_conn s) (nat F) = (c1, Inl errFrameTooLarge)"
  obtains p' F' where "readLoop_step rt decoder meta s choice frameChoice copies =
      Ret (s\<lparr>rs_conn := c1, rs_store := (rs_store s)\<lparr>fs_buffers := Some p'\<rparr>, rs_frameSize := F'\<rparr>, ReadOn)"
    "pool_ok p'" "bp_sizes p' = bp_sizes p" "F' \<in> set (bp_sizes p)" "F < F'" "F' \<le> x"
proof -
  have F0: "0 < F" using assms(2,4) by (simp add: pool_ok_def)
  obtain q b where g: "bufferPool_Get (Some p) F choice = Ret (Some q, Some b)" "int (buf_len b) = F"
    "F \<le> int (length (buf_data b))" "int (length (buf_data b)) \<le> F" "pool_ok q" "bp_sizes q = bp_sizes p"
    using Get_returns [OF assms(2) F0 assms(4) order_refl assms(5)] by metis
  obtain q1 where p1: "bufferPool_Put (Some q) (Some b) = Some q1" "pool_ok q1" "bp_sizes q1 = bp_sizes p"
    using Put_returns [OF g(5)] g(6) by metis
  have cap: "length (buf_data b) = nat F" "buf_len b = nat F" using g by linarith+
  let ?n = "bufferPool_NextBucketSize (Some q1) F"
  have n: "?n \<in> set (bp_sizes p)" "F < ?n" "?n \<le> x"
    using next_bucket [OF p1(2) F0, of x] assms(6,7) p1(3) by simp_all
  have grow: "tryGrowReadBuffer (Some q1) F (int (nat F)) (int (nat F)) = (?n, True)"
    using F0 n by (simp add: tryGrowReadBuffer_def)
  have "readLoop_step rt decoder meta s choice frameChoice copies =
      Ret (s\<lparr>rs_conn := c1, rs_store := (rs_store s)\<lparr>fs_buffers := Some q1\<rparr>, rs_frameSize := ?n\<rparr>, ReadOn)"
    using assms(1,3,8) g(1) cap grow p1(1) by (simp add: readLoop_step_def buf_cap_def)
  then show thesis by (rule that) (use p1 n in simp_all)
qed

text \<open>
  Round by round: as long as the message does not fit, the next size is tried; each attempt sees
  the message as if it were the first. So the size reached reads it.
\<close>

lemma same_buffers:
  assumes "fs_buffers st = Some p" "pool_ok p"
  shows "\<exists>p'. st = st\<lparr>fs_buffers := Some p'\<rparr> \<and> pool_ok p' \<and> bp_sizes p' = bp_sizes p"
proof (intro exI [of _ p] conjI)
  show "st = st\<lparr>fs_buffers := Some p\<rparr>" using assms(1) by (cases st) simp
qed (use assms(2) in simp_all)

lemma readLoop_grows:
  assumes "fs_buffers (rs_store s) = Some p" "pool_ok p" "rs_frameSize s = F" "F \<in> set (bp_sizes p)" "F \<le> x"
    and "x \<in> set (bp_sizes p)" "x \<le> max_alloc"
    and "wc_pending c = None" "wsConn_Read (rs_conn s) (nat F) = wsConn_Read c (nat F)"
    and "wsConn_Read c (nat x) = (c', r)" "r \<noteq> Inl errFrameTooLarge"
    and "card {y \<in> set (bp_sizes p). F < y \<and> y \<le> x} \<le> n"
  shows "\<exists>k s'. k \<le> n \<and> readLoop rt decoder ch k s = Ret (s', ReadOn)
    \<and> rs_queues s' = rs_queues s \<and> (\<exists>p'. rs_store s' = (rs_store s)\<lparr>fs_buffers := Some p'\<rparr> \<and> pool_ok p' \<and> bp_sizes p' = bp_sizes p)
    \<and> rs_frameSize s' \<in> set (bp_sizes p) \<and> rs_frameSize s' \<le> x
    \<and> wsConn_Read (rs_conn s') (nat (rs_frameSize s')) = (c', r)"
  using assms
proof (induction n arbitrary: s p F ch)
  case 0
  have "F = x"
  proof (rule ccontr)
    assume "F \<noteq> x"
    then have "x \<in> {y \<in> set (bp_sizes p). F < y \<and> y \<le> x}" using 0 by simp
    then show False using 0(12) by (simp add: card_eq_0_iff) blast
  qed
  then show ?case using 0 same_buffers [OF 0(1,2)] by (intro exI [of _ 0] exI [of _ s]) auto
next
  case (Suc n)
  obtain c1 r1 where r1: "wsConn_Read c (nat F) = (c1, r1)" by fastforce
  have F0: "0 < F" using Suc.prems(2,4) by (simp add: pool_ok_def)
  have le: "nat F \<le> nat x" using Suc.prems(5) by simp
  show ?case
  proof (cases "r1 \<noteq> Inl errFrameTooLarge \<or> wc_pending c1 = None")
    case True
    then have "wsConn_Read c (nat x) = (c1, r1)" by (rule read_mono [OF Suc.prems(8) le r1])
    then have "wsConn_Read (rs_conn s) (nat F) = (c', r)" using Suc.prems(9,10) r1 by simp
    then show ?thesis using Suc.prems same_buffers [OF Suc.prems(1,2)] by (intro exI [of _ 0] exI [of _ s]) auto
  next
    case False
    then have r1': "r1 = Inl errFrameTooLarge" "wc_pending c1 \<noteq> None" by simp_all
    have "F \<noteq> x" using Suc.prems(10,11) r1 r1' by auto
    then have Fx: "F < x" using Suc.prems(5) by simp
    have f: "wsConn_Read (rs_conn s) (nat F) = (c1, Inl errFrameTooLarge)" using Suc.prems(9) r1 r1' by simp
    obtain meta choice frameChoice copies where ch0: "ch 0 = (meta, choice, frameChoice, copies)" by (cases "ch 0")
    have Fm: "F \<le> max_alloc" using Fx Suc.prems(7) by simp
    obtain p1 F1 where st: "readLoop_step rt decoder meta s choice frameChoice copies =
        Ret (s\<lparr>rs_conn := c1, rs_store := (rs_store s)\<lparr>fs_buffers := Some p1\<rparr>, rs_frameSize := F1\<rparr>, ReadOn)"
      and p1: "pool_ok p1" "bp_sizes p1 = bp_sizes p" "F1 \<in> set (bp_sizes p)" "F < F1" "F1 \<le> x"
      by (rule readLoop_step_grow [OF Suc.prems(1-4) Fm Suc.prems(6) Fx f, of rt decoder meta choice frameChoice copies])
    let ?s = "s\<lparr>rs_conn := c1, rs_store := (rs_store s)\<lparr>fs_buffers := Some p1\<rparr>, rs_frameSize := F1\<rparr>"
    let ?A = "{y \<in> set (bp_sizes p). F < y \<and> y \<le> x}" and ?B = "{y \<in> set (bp_sizes p1). F1 < y \<and> y \<le> x}"
    have "?B \<subset> ?A" using p1 by auto
    then have "card ?B < card ?A" by (intro psubset_card_mono) simp_all
    then have card: "card ?B \<le> n" using Suc.prems(12) by simp
    have "nat F \<le> nat F1" using p1(4) by simp
    then have again: "wsConn_Read c1 (nat F1) = wsConn_Read c (nat F1)"
      using read_retry [OF Suc.prems(8) _ r1 [unfolded r1'(1)] r1'(2)] by simp
    have "\<exists>k s'. k \<le> n \<and> readLoop rt decoder (\<lambda>i. ch (Suc i)) k ?s = Ret (s', ReadOn)
        \<and> rs_queues s' = rs_queues ?s \<and> (\<exists>p'. rs_store s' = (rs_store ?s)\<lparr>fs_buffers := Some p'\<rparr> \<and> pool_ok p' \<and> bp_sizes p' = bp_sizes p1)
        \<and> rs_frameSize s' \<in> set (bp_sizes p1) \<and> rs_frameSize s' \<le> x
        \<and> wsConn_Read (rs_conn s') (nat (rs_frameSize s')) = (c', r)"
      by (rule Suc.IH) (use p1 Suc.prems again card in simp_all)
    then obtain k s' where k: "k \<le> n" "readLoop rt decoder (\<lambda>i. ch (Suc i)) k ?s = Ret (s', ReadOn)"
      and rest: "rs_queues s' = rs_queues s" "\<exists>p'. rs_store s' = (rs_store s)\<lparr>fs_buffers := Some p'\<rparr> \<and> pool_ok p' \<and> bp_sizes p' = bp_sizes p"
        "rs_frameSize s' \<in> set (bp_sizes p)" "rs_frameSize s' \<le> x"
        "wsConn_Read (rs_conn s') (nat (rs_frameSize s')) = (c', r)"
      using p1(2) by auto
    have "readLoop rt decoder ch (Suc k) s = Ret (s', ReadOn)" using k(2) st ch0 by simp
    then show ?thesis using k(1) rest by (intro exI [of _ "Suc k"] exI [of _ s']) simp
  qed
qed

subsection \<open>From the wire to the consumer\<close>

lemma framePool_New_frame:
  assumes "framePool_New st buf choice = (st', f)"
  shows "fs_frames st' f = \<lparr>Frame_Buf = buf, Frame_Topic = 0, Frame_Meta = 0, Frame_ref = 1, Frame_pooled = True\<rparr>"
    "fs_buffers st' = fs_buffers st"
  using assms by (auto simp: framePool_New_def split: option.splits if_splits)

text \<open>
  One round with a message that fits: a topic with one open consumer whose queue has room gets a
  frame with exactly the message's bytes, the topic and the time stamp.
\<close>

lemma readLoop_step_deliver:
  assumes "fs_buffers (rs_store s) = Some p" "pool_ok p" "rs_frameSize s \<in> set (bp_sizes p)" "rs_frameSize s \<le> max_alloc"
    and "wsConn_Read (rs_conn s) (nat (rs_frameSize s)) = (c', Inr (bs, mt))" "bs \<noteq> []" "mt \<in> {MessageText, MessageBinary}"
    and "\<And>spare. decoder (text_of bs) spare = Ret (Some t)"
    and "rt_fanOut rt = FanOutShared" "rt_list rt t = [k]" "k < length (rs_queues s)"
    and "fq_ok (rs_queues s ! k)" "\<not> fq_closed (rs_queues s ! k)"
    and "fq_size (rs_queues s ! k) < length (fq_buf (rs_queues s ! k))"
  obtains s' f where "readLoop_step rt decoder meta s choice frameChoice copies = Ret (s', Routed [] None)"
    "rs_conn s' = c'" "fq_list (rs_queues s' ! k) = fq_list (rs_queues s ! k) @ [f]"
    "rs_queues s' = (rs_queues s)[k := fq_enq (rs_queues s ! k) f]"
    "payload_of (Frame_Buf (fs_frames (rs_store s') f)) = bs" "Frame_Topic (fs_frames (rs_store s') f) = t"
    "Frame_Meta (fs_frames (rs_store s') f) = meta" "Frame_ref (fs_frames (rs_store s') f) = 1"
proof -
  let ?F = "rs_frameSize s" and ?q = "rs_queues s ! k"
  have F0: "0 < ?F" using assms(2,3) by (simp add: pool_ok_def)
  obtain q b where g: "bufferPool_Get (Some p) ?F choice = Ret (Some q, Some b)" "int (buf_len b) = ?F"
    using Get_returns [OF assms(2) F0 assms(3) order_refl assms(4)] by metis
  have len: "buf_len b = nat ?F" using g(2) by linarith
  let ?st = "(rs_store s)\<lparr>fs_buffers := Some q\<rparr>" and ?buf = "Some \<lparr>buf_data = bs @ drop (length bs) (buf_data b), buf_len = length bs\<rparr>"
  obtain st1 f where n: "framePool_New ?st ?buf frameChoice = (st1, f)" by fastforce
  note fr = framePool_New_frame(1) [OF n]
  define st2 where "st2 = fs_upd f (\<lambda>fr. fr\<lparr>Frame_Topic := t\<rparr>) (fs_upd f (\<lambda>fr. fr\<lparr>Frame_Meta := meta\<rparr>) st1)"
  define st3 where "st3 = fs_upd f (Frame_ref_update (\<lambda>_. 1)) st2"
  have f2: "Frame_Topic (fs_frames st2 f) = t" by (simp add: st2_def fs_upd_def)
  have f3: "fs_frames st3 f = \<lparr>Frame_Buf = ?buf, Frame_Topic = t, Frame_Meta = meta, Frame_ref = 1, Frame_pooled = True\<rparr>"
    by (simp add: st3_def st2_def fs_upd_def fr)
  have push: "frameQueue_Push st3 ?q f = Ret (st3, fq_enq ?q f, Pushed)" by (rule Push_space) (use assms in simp_all)
  have route: "router_Route (Some rt) st2 (rs_queues s) (Some f) copies
      = Ret ((st3, (rs_queues s)[k := fq_enq ?q f], []), None)"
    using assms(9,10) f2 push by (simp add: router_Route_def routeShared_def Let_def flip: st3_def)
  have mt: "(mt \<noteq> MessageText \<and> mt \<noteq> MessageBinary) = False" using assms(7) by auto
  have step: "readLoop_step rt decoder meta s choice frameChoice copies =
      Ret (s\<lparr>rs_conn := c', rs_store := st3, rs_queues := (rs_queues s)[k := fq_enq ?q f]\<rparr>, Routed [] None)"
    using assms(1,5,6,7) unfolding readLoop_step_def mt by (auto simp: g(1) len n assms(8) Let_def route [unfolded st2_def])
  let ?s = "s\<lparr>rs_conn := c', rs_store := st3, rs_queues := (rs_queues s)[k := fq_enq ?q f]\<rparr>"
  have "payload_of (Frame_Buf (fs_frames st3 f)) = bs" by (simp add: f3 payload_of_def visible_def)
  moreover have "fq_list (rs_queues ?s ! k) = fq_list ?q @ [f]" using fq_enq_ok(2) [OF assms(12,14)] assms(11) by simp
  ultimately show thesis using that [OF step, of f] f3 by simp
qed

text \<open>Running on after a number of rounds.\<close>

lemma readLoop_add:
  "readLoop rt decoder ch k s = Ret (s', ReadOn) \<Longrightarrow>
     readLoop rt decoder ch (k + m) s = readLoop rt decoder (\<lambda>i. ch (k + i)) m s'"
proof (induction k arbitrary: ch s)
  case (Suc k)
  obtain meta choice fc copies where c0: "ch 0 = (meta, choice, fc, copies)" by (metis prod.collapse)
  from Suc.prems obtain s1 r1 where st: "readLoop_step rt decoder meta s choice fc copies = Ret (s1, r1)"
    and nxt: "(case r1 of ReadOn \<Rightarrow> readLoop rt decoder (\<lambda>i. ch (Suc i)) k s1
          | Routed [] w \<Rightarrow> readLoop rt decoder (\<lambda>i. ch (Suc i)) k s1 | _ \<Rightarrow> Ret (s1, r1)) = Ret (s', ReadOn)"
    by (auto simp: c0 go_bind_Ret_iff)
  have cont: "readLoop rt decoder (\<lambda>i. ch (Suc i)) k s1 = Ret (s', ReadOn)" "r1 = ReadOn \<or> (\<exists>w. r1 = Routed [] w)"
    using nxt by (auto split: read_result.splits list.splits)
  have "readLoop rt decoder ch (Suc k + m) s = readLoop rt decoder (\<lambda>i. ch (Suc i)) (k + m) s1"
    using cont(2) by (auto simp: c0 st)
  also have "\<dots> = readLoop rt decoder (\<lambda>i. ch (Suc (k + i))) m s'" by (rule Suc.IH [OF cont(1)])
  finally show ?case by simp
qed simp

text \<open>From the start of a message to its frame in the consumer's queue.\<close>

lemma readLoop_enqueues:
  assumes "fs_buffers (rs_store s) = Some p" "pool_ok p" "rs_frameSize s \<in> set (bp_sizes p)" "rs_frameSize s \<le> x"
    and "x \<in> set (bp_sizes p)" "x \<le> max_alloc" "wc_pending (rs_conn s) = None"
    and "wsConn_Read (rs_conn s) (nat x) = (c', Inr (bs, mt))" "bs \<noteq> []" "mt \<in> {MessageText, MessageBinary}"
    and dec: "\<And>spare. decoder (text_of bs) spare = Ret (Some t)"
    and "rt_fanOut rt = FanOutShared" "rt_list rt t = [k]" "k < length (rs_queues s)"
    and "fq_ok (rs_queues s ! k)" "\<not> fq_closed (rs_queues s ! k)"
    and "fq_size (rs_queues s ! k) < length (fq_buf (rs_queues s ! k))"
  shows "\<exists>n s' f. n \<le> card {y \<in> set (bp_sizes p). rs_frameSize s < y \<and> y \<le> x} + 1
    \<and> readLoop rt decoder ch n s = Ret (s', ReadOn) \<and> rs_conn s' = c'
    \<and> fq_list (rs_queues s' ! k) = fq_list (rs_queues s ! k) @ [f] \<and> rs_queues s' = (rs_queues s)[k := fq_enq (rs_queues s ! k) f]
    \<and> payload_of (Frame_Buf (fs_frames (rs_store s') f)) = bs \<and> Frame_Topic (fs_frames (rs_store s') f) = t
    \<and> Frame_ref (fs_frames (rs_store s') f) = 1"
proof -
  obtain n s1 p1 where n: "n \<le> card {y \<in> set (bp_sizes p). rs_frameSize s < y \<and> y \<le> x}"
    "readLoop rt decoder ch n s = Ret (s1, ReadOn)" "rs_queues s1 = rs_queues s"
    and st: "rs_store s1 = (rs_store s)\<lparr>fs_buffers := Some p1\<rparr>" "pool_ok p1" "bp_sizes p1 = bp_sizes p"
    and rd: "rs_frameSize s1 \<in> set (bp_sizes p)" "rs_frameSize s1 \<le> x"
      "wsConn_Read (rs_conn s1) (nat (rs_frameSize s1)) = (c', Inr (bs, mt))"
    using readLoop_grows [OF assms(1,2) refl assms(3-7) refl assms(8) _ order.refl, of rt decoder ch] by auto
  obtain meta choice fc copies where c0: "ch n = (meta, choice, fc, copies)" by (metis prod.collapse)
  have b1: "fs_buffers (rs_store s1) = Some p1" "rs_frameSize s1 \<in> set (bp_sizes p1)" "rs_frameSize s1 \<le> max_alloc"
    using st rd assms(6) by simp_all
  obtain s2 f where d: "readLoop_step rt decoder meta s1 choice fc copies = Ret (s2, Routed [] None)"
    "rs_conn s2 = c'" "fq_list (rs_queues s2 ! k) = fq_list (rs_queues s1 ! k) @ [f]"
    "rs_queues s2 = (rs_queues s1)[k := fq_enq (rs_queues s1 ! k) f]"
    "payload_of (Frame_Buf (fs_frames (rs_store s2) f)) = bs" "Frame_Topic (fs_frames (rs_store s2) f) = t"
    "Frame_ref (fs_frames (rs_store s2) f) = 1"
    by (rule readLoop_step_deliver [where decoder = decoder and meta = meta and choice = choice and frameChoice = fc and copies = copies, OF b1(1) st(2) b1(2,3) rd(3) assms(9,10) dec assms(12,13)])
      (use assms(14-17) n(3) in simp_all)
  have "readLoop rt decoder ch (n + 1) s = Ret (s2, ReadOn)"
    unfolding readLoop_add [OF n(2)] by (simp add: c0 d(1))
  then show ?thesis using n(1,3) d by (intro exI [of _ "n + 1"] exI [of _ s2] exI [of _ f]) simp
qed

end
