(* ===== verification/Ws_Manager.thy ===== *)
theory Ws_Manager
  imports Ws_Session_Laws
begin

section \<open>The manager\<close>

text \<open>
  \<open>manager.go\<close>. Sessions are shared by pointer, so they live in a store and are named by their
  id, which \<open>nextSessionID\<close> makes unique. The context is absent, live or done. \<open>Run\<close> is cut where
  it blocks: the start, and what it does once its context is done. A call that would block on a
  full outbound queue ends in \<open>SendWait\<close>.
\<close>

record mg_option =
  MaxTopicsPerConn :: int
  FanOut :: FanOutMode
  WriteQueueSize :: int
  WriteOverflow :: OverflowPolicy
  PingInterval :: int
  Option_Backoff :: Backoff

definition zero_option :: mg_option where
  "zero_option = \<lparr>MaxTopicsPerConn = 0, FanOut = 0, WriteQueueSize = 0, WriteOverflow = 0, PingInterval = 0,
     Option_Backoff = \<lparr>Backoff_Min = 0, Backoff_Max = 0, Backoff_Factor = Fin 0, Backoff_Jitter = Fin 0\<rparr>\<rparr>"

definition DefaultWriteQueueSize :: int where [simp]: "DefaultWriteQueueSize = 1024"
definition defaultMaxTopicsPerConn :: int where [simp]: "defaultMaxTopicsPerConn = 10"

record 'e manager =
  mg_opt :: mg_option
  mg_encoder :: "'e encoder option"
  mg_router :: router
  mg_outbound :: outboundPool
  mg_sessions :: "nat list"
  mg_store :: "nat \<Rightarrow> session"
  mg_subscriptions :: "TopicID \<rightharpoonup> nat"
  mg_nextSessionID :: nat
  mg_ctx :: "bool option"
  mg_running :: bool

text \<open>\<open>init\<close>: the defaults; the pools and the router are made by \<open>New\<close>.\<close>

definition Option_init :: "mg_option \<Rightarrow> mg_option" where
  "Option_init opt =
     (let opt = (if MaxTopicsPerConn opt \<le> 0 then opt\<lparr>MaxTopicsPerConn := defaultMaxTopicsPerConn\<rparr> else opt);
          opt = (if WriteQueueSize opt \<le> 0 then opt\<lparr>WriteQueueSize := DefaultWriteQueueSize\<rparr> else opt)
      in if Backoff_Min (Option_Backoff opt) = 0 \<and> Backoff_Max (Option_Backoff opt) = 0
            \<and> Backoff_Factor (Option_Backoff opt) = Fin 0 \<and> Backoff_Jitter (Option_Backoff opt) = Fin 0
         then opt\<lparr>Option_Backoff := DefaultBackoff\<rparr> else opt)"

definition manager_New ::
  "bool \<Rightarrow> bool \<Rightarrow> 'e encoder option \<Rightarrow> mg_option list \<Rightarrow> manager_error + 'e manager" where
  "manager_New hasDialer hasDecoder enc opts =
     (if \<not> hasDialer then Inl ErrNilDialer
      else if \<not> hasDecoder then Inl ErrNilDecoder
      else if enc = None then Inl ErrNoEncoder
      else
        let opt = Option_init (if length opts \<noteq> 0 then opts ! 0 else zero_option) in
        Inr \<lparr>mg_opt = opt, mg_encoder = enc, mg_router = newRouter (FanOut opt),
             mg_outbound = newOutboundPool (Some defaultBufferPool), mg_sessions = [],
             mg_store = (\<lambda>i. newSession i True (WriteQueueSize opt) (WriteOverflow opt) (Some defaultBufferPool)),
             mg_subscriptions = Map.empty, mg_nextSessionID = 0, mg_ctx = None, mg_running = False\<rparr>)"

definition mg_upd :: "nat \<Rightarrow> (session \<Rightarrow> session) \<Rightarrow> 'e manager \<Rightarrow> 'e manager" where
  "mg_upd i f m = m\<lparr>mg_store := (mg_store m)(i := f (mg_store m i))\<rparr>"

definition mg_count :: "'e manager \<Rightarrow> nat \<Rightarrow> nat" where
  "mg_count m i = subs_Count (ss_subscriptions (mg_store m i))"

fun pick_loop :: "'e manager \<Rightarrow> nat list \<Rightarrow> nat option" where
  "pick_loop m [] = None"
| "pick_loop m (i # is) = (if int (mg_count m i) < MaxTopicsPerConn (mg_opt m) then Some i else pick_loop m is)"

definition pickSessionLocked :: "'e manager \<Rightarrow> 'e manager \<times> nat" where
  "pickSessionLocked m =
     (case pick_loop m (mg_sessions m) of
        Some i \<Rightarrow> (m, i)
      | None \<Rightarrow>
          let i = mg_nextSessionID m + 1;
              s = newSession i True (WriteQueueSize (mg_opt m)) (WriteOverflow (mg_opt m)) (op_buffers (mg_outbound m))
          in (m\<lparr>mg_nextSessionID := i, mg_store := (mg_store m)(i := s), mg_sessions := mg_sessions m @ [i]\<rparr>, i))"

definition removeSessionLocked :: "'e manager \<Rightarrow> nat \<Rightarrow> 'e manager" where
  "removeSessionLocked m target =
     (case find_index (mg_sessions m) target of
        None \<Rightarrow> m
      | Some i \<Rightarrow>
          let l = mg_sessions m; l = l[i := l ! (length l - 1)] in
          m\<lparr>mg_sessions := take (length l - 1) l\<rparr>)"

definition mg_apply :: "nat \<Rightarrow> (session option \<times> outboundPool \<times> 'e send_result) go \<Rightarrow> 'e manager
    \<Rightarrow> ('e manager \<times> 'e send_result) go" where
  "mg_apply i r m =
     go_bind r (\<lambda>(s, p, res).
       Ret (m\<lparr>mg_outbound := p, mg_store := (mg_store m)(i := (case s of None \<Rightarrow> mg_store m i | Some s \<Rightarrow> s))\<rparr>, res))"

definition manager_Subscribe ::
  "'e manager option \<Rightarrow> TopicID \<Rightarrow> (nat \<Rightarrow> nat option) \<Rightarrow> bool \<Rightarrow> ('e manager option \<times> 'e send_result) go" where
  "manager_Subscribe m topic choice reuse =
     (case m of
        None \<Rightarrow> Ret (None, SendErr (WsErr ErrBadConfig))
      | Some m \<Rightarrow>
          if mg_encoder m = None then Ret (Some m, SendErr (WsErr ErrNoEncoder))
          else if mg_ctx m = Some True then Ret (Some m, SendErr (WsErr ErrNotRunning))
          else if mg_subscriptions m topic \<noteq> None then Ret (Some m, SendErr (WsErr ErrTopicAlreadySubscribed))
          else
            let (m, i) = pickSessionLocked m;
                m = mg_upd i (\<lambda>s. s\<lparr>ss_subscriptions := fst (subs_Add (ss_subscriptions s) topic)\<rparr>) m;
                m = m\<lparr>mg_subscriptions := (mg_subscriptions m)(topic \<mapsto> i)\<rparr>;
                m = (if mg_ctx m \<noteq> None then mg_upd i (\<lambda>s. session_start s True) m else m)
            in go_bind (mg_apply i (session_subscribe (Some (mg_store m i)) (mg_outbound m) (mg_encoder m) topic choice reuse) m)
                 (\<lambda>(m, r). Ret (Some m, r)))"

definition manager_Unsubscribe ::
  "'e manager option \<Rightarrow> TopicID \<Rightarrow> (nat \<Rightarrow> nat option) \<Rightarrow> bool \<Rightarrow> ('e manager option \<times> 'e send_result) go" where
  "manager_Unsubscribe m topic choice reuse =
     (case m of
        None \<Rightarrow> Ret (None, SendErr (WsErr ErrBadConfig))
      | Some m \<Rightarrow>
          (case mg_subscriptions m topic of
             None \<Rightarrow> Ret (Some m, SendErr (WsErr ErrUnknownTopic))
           | Some i \<Rightarrow>
               let m = m\<lparr>mg_subscriptions := (mg_subscriptions m)(topic := None)\<rparr>;
                   m = mg_upd i (\<lambda>s. s\<lparr>ss_subscriptions := fst (subs_Remove (ss_subscriptions s) topic)\<rparr>) m;
                   empty = (mg_count m i = 0);
                   m = (if empty then removeSessionLocked m i else m);
                   m = m\<lparr>mg_router := the (router_RemoveTopic (Some (mg_router m)) topic)\<rparr>
               in go_bind (mg_apply i (session_unsubscribe (Some (mg_store m i)) (mg_outbound m) (mg_encoder m) topic choice reuse) m)
                    (\<lambda>(m, r).
                      if r = Sent \<and> empty
                      then Ret (Some (mg_upd i (\<lambda>s. the (session_stop (Some s))) m), r)
                      else Ret (Some m, r))))"

definition manager_AddConsumer ::
  "'e manager option \<Rightarrow> TopicID \<Rightarrow> nat option \<Rightarrow> 'e manager option \<times> manager_error option" where
  "manager_AddConsumer m topic consumer =
     (case m of
        None \<Rightarrow> (None, Some ErrBadConfig)
      | Some m \<Rightarrow>
          (case mg_subscriptions m topic of
             None \<Rightarrow> (Some m, Some ErrUnknownTopic)
           | Some i \<Rightarrow> (Some (m\<lparr>mg_router := the (router_AddConsumer (Some (mg_router m)) topic consumer)\<rparr>), None)))"

definition manager_RemoveConsumer ::
  "'e manager option \<Rightarrow> TopicID \<Rightarrow> nat option \<Rightarrow> 'e manager option \<times> manager_error option" where
  "manager_RemoveConsumer m topic consumer =
     (case m of
        None \<Rightarrow> (None, Some ErrBadConfig)
      | Some m \<Rightarrow>
          (case mg_subscriptions m topic of
             None \<Rightarrow> (Some m, Some ErrUnknownTopic)
           | Some i \<Rightarrow> (Some (m\<lparr>mg_router := the (router_RemoveConsumer (Some (mg_router m)) topic consumer)\<rparr>), None)))"

definition collectSessions :: "'e manager \<Rightarrow> nat list" where
  [simp]: "collectSessions m = mg_sessions m"

text \<open>\<open>Send\<close> goes through the sessions; a full blocking queue stops it, with the sessions left.\<close>

fun send_loop ::
  "'e manager \<Rightarrow> MessageType \<Rightarrow> byte list \<Rightarrow> (nat \<Rightarrow> nat option) \<Rightarrow> bool \<Rightarrow> nat list \<Rightarrow> manager_error option
     \<Rightarrow> ('e manager \<times> manager_error option \<times> nat list) go" where
  "send_loop m msgType payload choice reuse [] firstErr = Ret (m, firstErr, [])"
| "send_loop m msgType payload choice reuse (i # is) firstErr =
     (if \<not> ss_connected (mg_store m i)
      then send_loop m msgType payload choice reuse is (if firstErr = None then Some ErrNotConnected else firstErr)
      else go_bind (writer_Send (ss_writer (mg_store m i)) (mg_outbound m) msgType payload (choice i) reuse) (\<lambda>(w, p, res).
        let m = mg_upd i (\<lambda>s. s\<lparr>ss_writer := w\<rparr>) (m\<lparr>mg_outbound := p\<rparr>) in
        case res of
          Accepted \<Rightarrow> send_loop m msgType payload choice reuse is firstErr
        | Refused \<Rightarrow> send_loop m msgType payload choice reuse is (if firstErr = None then Some ErrQueueFull else firstErr)
        | EnqueueWait \<Rightarrow> Ret (m, firstErr, i # is)))"

definition manager_Send ::
  "'e manager option \<Rightarrow> MessageType \<Rightarrow> byte list \<Rightarrow> (nat \<Rightarrow> nat option) \<Rightarrow> bool
     \<Rightarrow> ('e manager option \<times> manager_error option \<times> nat list) go" where
  "manager_Send m msgType payload choice reuse =
     (case m of
        None \<Rightarrow> Ret (None, Some ErrBadConfig, [])
      | Some m \<Rightarrow> go_bind (send_loop m msgType payload choice reuse (collectSessions m) None) (\<lambda>(m, e, rest). Ret (Some m, e, rest)))"

definition manager_AcquireOutbound ::
  "'e manager option \<Rightarrow> MessageType \<Rightarrow> int \<Rightarrow> nat option \<Rightarrow> bool \<Rightarrow> ('e manager option \<times> outboundFrame option) go" where
  "manager_AcquireOutbound m msgType n choice reuse =
     (case m of
        None \<Rightarrow> Ret (None, None)
      | Some m \<Rightarrow> go_bind (acquire_frame True (mg_outbound m) msgType n choice reuse) (\<lambda>(p, f).
          Ret (Some (m\<lparr>mg_outbound := p\<rparr>), Some f)))"

definition manager_EnqueueOutbound ::
  "'e manager option \<Rightarrow> TopicID \<Rightarrow> outboundFrame option \<Rightarrow> 'e manager option \<times> 'e send_result" where
  "manager_EnqueueOutbound m topic frame =
     (case m of
        None \<Rightarrow> (None, SendErr (WsErr ErrBadConfig))
      | Some m \<Rightarrow>
          (case mg_subscriptions m topic of
             None \<Rightarrow> (Some m, SendErr (WsErr ErrUnknownTopic))
           | Some i \<Rightarrow>
               if \<not> ss_connected (mg_store m i) then (Some m, SendErr (WsErr ErrNotConnected))
               else
                 let (w, p, res) = writer_Enqueue (ss_writer (mg_store m i)) (mg_outbound m) frame;
                     m = mg_upd i (\<lambda>s. s\<lparr>ss_writer := w\<rparr>) (m\<lparr>mg_outbound := p\<rparr>)
                 in case res of
                      Accepted \<Rightarrow> (Some m, Sent)
                    | EnqueueWait \<Rightarrow> (Some m, SendWait)
                    | Refused \<Rightarrow> (Some (m\<lparr>mg_outbound := outbound_Release (mg_outbound m) frame\<rparr>), SendErr (WsErr ErrQueueFull))))"

definition manager_stopAll :: "'e manager \<Rightarrow> 'e manager" where
  "manager_stopAll m = foldl (\<lambda>m i. mg_upd i (\<lambda>s. the (session_stop (Some s))) m) m (mg_sessions m)"

text \<open>\<open>Run\<close>: up to the wait for the context, and from there on (the goroutines have ended by then).\<close>

definition manager_RunStart :: "'e manager option \<Rightarrow> 'e manager option \<times> manager_error option" where
  "manager_RunStart m =
     (case m of
        None \<Rightarrow> (None, Some ErrBadConfig)
      | Some m \<Rightarrow>
          if mg_running m then (Some m, Some ErrAlreadyRunning)
          else
            let m = m\<lparr>mg_running := True, mg_ctx := Some False\<rparr> in
            (Some (foldl (\<lambda>m i. mg_upd i (\<lambda>s. session_start s True) m) m (mg_sessions m)), None))"

definition manager_RunStop :: "'e manager \<Rightarrow> 'e manager" where
  "manager_RunStop m = (manager_stopAll m)\<lparr>mg_ctx := None, mg_running := False\<rparr>"

end
