(* ===== verification/Ws_Manager_Laws.thy ===== *)
theory Ws_Manager_Laws
  imports Ws_Manager
begin

section \<open>The manager's registry stays consistent\<close>

text \<open>
  \<open>mg_ok\<close>: the subscription table and the sessions' desired topics are the same relation, a session
  in the list has between one topic and \<open>MaxTopicsPerConn\<close>, ids are never reused. Every operation
  keeps it, whether it succeeds or not.
\<close>

definition mg_desired :: "'e manager \<Rightarrow> nat \<Rightarrow> TopicID set" where
  "mg_desired m i = su_desired (ss_subscriptions (mg_store m i))"

definition mg_ok :: "'e manager \<Rightarrow> bool" where
  "mg_ok m \<longleftrightarrow> 0 < MaxTopicsPerConn (mg_opt m) \<and> distinct (mg_sessions m)
     \<and> (\<forall>i \<in> set (mg_sessions m). i \<le> mg_nextSessionID m)
     \<and> (\<forall>i \<in> set (mg_sessions m). finite (mg_desired m i) \<and> mg_desired m i \<noteq> {}
          \<and> int (card (mg_desired m i)) \<le> MaxTopicsPerConn (mg_opt m))
     \<and> (\<forall>i \<in> set (mg_sessions m). \<forall>t. t \<in> mg_desired m i \<longleftrightarrow> mg_subscriptions m t = Some i)
     \<and> (\<forall>t i. mg_subscriptions m t = Some i \<longrightarrow> i \<in> set (mg_sessions m))"

lemma mg_ok_cong:
  assumes "mg_ok m" "MaxTopicsPerConn (mg_opt m') = MaxTopicsPerConn (mg_opt m)" "mg_sessions m' = mg_sessions m"
    and "mg_nextSessionID m' = mg_nextSessionID m" "mg_subscriptions m' = mg_subscriptions m"
    and "\<And>i. i \<in> set (mg_sessions m) \<Longrightarrow> mg_desired m' i = mg_desired m i"
  shows "mg_ok m'"
  using assms unfolding mg_ok_def by simp

lemma mg_ok_New: "manager_New d c e opts = Inr m \<Longrightarrow> mg_ok m"
  by (auto simp: manager_New_def mg_ok_def Option_init_def Let_def split: if_splits)

subsection \<open>Choosing a session\<close>

lemma pick_loop_None: "pick_loop m is = None \<Longrightarrow> i \<in> set is \<Longrightarrow> MaxTopicsPerConn (mg_opt m) \<le> int (mg_count m i)"
  by (induction "is") (auto split: if_splits)

lemma pick_loop_Some: "pick_loop m is = Some i \<Longrightarrow> i \<in> set is \<and> int (mg_count m i) < MaxTopicsPerConn (mg_opt m)"
  by (induction "is") (auto split: if_splits)

lemma mg_count_card: "mg_count m i = card (mg_desired m i)"
  by (simp add: mg_count_def subs_Count_def mg_desired_def)

text \<open>Registering a topic on the chosen session, as \<open>Subscribe\<close> does under its lock.\<close>

definition mg_register :: "'e manager \<Rightarrow> TopicID \<Rightarrow> 'e manager \<times> nat" where
  "mg_register m topic =
     (let (m, i) = pickSessionLocked m;
          m = mg_upd i (\<lambda>s. s\<lparr>ss_subscriptions := fst (subs_Add (ss_subscriptions s) topic)\<rparr>) m
      in (m\<lparr>mg_subscriptions := (mg_subscriptions m)(topic \<mapsto> i)\<rparr>, i))"

lemma mg_desired_add:
  "mg_desired (mg_upd i (\<lambda>s. s\<lparr>ss_subscriptions := fst (subs_Add (ss_subscriptions s) t)\<rparr>) m) j
    = (if j = i then insert t (mg_desired m i) else mg_desired m j)"
  using subs.add_law [of "ss_subscriptions (mg_store m i)" t] by (simp add: mg_desired_def mg_upd_def)

lemma mg_register_ok:
  assumes "mg_ok m" "mg_subscriptions m t = None" "mg_register m t = (m', i)"
  shows "mg_ok m'" "mg_subscriptions m' = (mg_subscriptions m)(t \<mapsto> i)" "i \<in> set (mg_sessions m')"
    "mg_encoder m' = mg_encoder m" "mg_ctx m' = mg_ctx m" "mg_opt m' = mg_opt m"
proof -
  have fresh: "t \<notin> mg_desired m j" if "j \<in> set (mg_sessions m)" for j
    using assms(1,2) that by (auto simp: mg_ok_def)
  have "mg_ok m' \<and> mg_subscriptions m' = (mg_subscriptions m)(t \<mapsto> i) \<and> i \<in> set (mg_sessions m')
      \<and> mg_encoder m' = mg_encoder m \<and> mg_ctx m' = mg_ctx m \<and> mg_opt m' = mg_opt m"
  proof (cases "pick_loop m (mg_sessions m)")
    case (Some k)
    note pk = pick_loop_Some [OF Some]
    let ?m = "mg_upd k (\<lambda>s. s\<lparr>ss_subscriptions := fst (subs_Add (ss_subscriptions s) t)\<rparr>) m"
    have m': "i = k" "m' = ?m\<lparr>mg_subscriptions := (mg_subscriptions m)(t \<mapsto> k)\<rparr>"
      using assms(3) Some by (auto simp: mg_register_def pickSessionLocked_def mg_upd_def)
    have d: "mg_desired m' j = (if j = k then insert t (mg_desired m k) else mg_desired m j)" for j
      using mg_desired_add [of k t m j] by (simp add: m' mg_desired_def)
    have kk: "finite (mg_desired m k)" "t \<notin> mg_desired m k" using assms(1) pk fresh by (auto simp: mg_ok_def)
    then have "int (card (insert t (mg_desired m k))) \<le> MaxTopicsPerConn (mg_opt m)"
      using pk by (simp add: mg_count_card)
    then have "mg_ok m'" using assms(1,2) kk pk unfolding mg_ok_def d by (auto simp: m' mg_upd_def)
    then show ?thesis using pk m' by (simp add: mg_upd_def)
  next
    case None
    let ?k = "mg_nextSessionID m + 1"
    let ?s = "newSession ?k True (WriteQueueSize (mg_opt m)) (WriteOverflow (mg_opt m)) (op_buffers (mg_outbound m))"
    let ?m1 = "m\<lparr>mg_nextSessionID := ?k, mg_store := (mg_store m)(?k := ?s), mg_sessions := mg_sessions m @ [?k]\<rparr>"
    let ?m = "mg_upd ?k (\<lambda>s. s\<lparr>ss_subscriptions := fst (subs_Add (ss_subscriptions s) t)\<rparr>) ?m1"
    have m': "i = ?k" "m' = ?m\<lparr>mg_subscriptions := (mg_subscriptions m)(t \<mapsto> ?k)\<rparr>"
      using assms(3) None by (auto simp: mg_register_def pickSessionLocked_def mg_upd_def Let_def)
    have k: "?k \<notin> set (mg_sessions m)" using assms(1) by (auto simp: mg_ok_def)
    have d: "mg_desired m' j = (if j = ?k then {t} else mg_desired m j)" for j
      using mg_desired_add [of ?k t ?m1 j] by (simp add: m' mg_desired_def newSession_def newSubscriptions_def)
    have sub: "mg_subscriptions m u \<noteq> Some ?k" for u using assms(1) k by (auto simp: mg_ok_def)
    have "mg_ok m'" using assms(1,2) k sub unfolding mg_ok_def d by (auto simp: m' mg_upd_def)
    then show ?thesis using m' by (simp add: mg_upd_def)
  qed
  then show "mg_ok m'" "mg_subscriptions m' = (mg_subscriptions m)(t \<mapsto> i)" "i \<in> set (mg_sessions m')"
    "mg_encoder m' = mg_encoder m" "mg_ctx m' = mg_ctx m" "mg_opt m' = mg_opt m" by blast+
qed

subsection \<open>Session calls do not touch the desired topics\<close>

lemma session_subscribe_desired:
  "session_subscribe (Some s) p enc t choice reuse = Ret (s', p', r) \<Longrightarrow>
     \<exists>s1. s' = Some s1 \<and> su_desired (ss_subscriptions s1) = su_desired (ss_subscriptions s)"
proof -
  assume a: "session_subscribe (Some s) p enc t choice reuse = Ret (s', p', r)"
  show ?thesis
  proof (cases "enc = None \<or> \<not> ss_connected s")
    case True
    then show ?thesis using a by (cases enc) (auto simp: session_subscribe_def split: if_splits)
  next
    case False
    then obtain en where en: "enc = Some en" "ss_connected s" by auto
    then obtain s1 p1 r1 where u: "sendSubscribe s p en t choice reuse = Ret (s1, p1, r1)"
      using a by (auto simp: session_subscribe_def go_bind_Ret_iff)
    then have "ss_subscriptions s1 = ss_subscriptions s" using sendControl_subs by (simp add: sendSubscribe_def)
    then show ?thesis using a en u by (cases r1) (auto simp: session_subscribe_def subs_MarkActive_def)
  qed
qed

lemma session_unsubscribe_desired:
  "session_unsubscribe (Some s) p enc t choice reuse = Ret (s', p', r) \<Longrightarrow>
     \<exists>s1. s' = Some s1 \<and> su_desired (ss_subscriptions s1) = su_desired (ss_subscriptions s)"
  by (auto simp: session_unsubscribe_def go_bind_Ret_iff sendUnsubscribe_def dest!: sendControl_subs
      split: option.splits if_splits)

lemma mg_apply_desired:
  assumes "mg_apply i call m = Ret (m', r)"
    and "\<And>s p res. call = Ret (s, p, res) \<Longrightarrow>
      \<exists>s1. s = Some s1 \<and> su_desired (ss_subscriptions s1) = mg_desired m i"
  shows "mg_desired m' j = mg_desired m j" "mg_sessions m' = mg_sessions m" "mg_subscriptions m' = mg_subscriptions m"
    "mg_opt m' = mg_opt m" "mg_nextSessionID m' = mg_nextSessionID m" "\<exists>s p. call = Ret (s, p, r)"
    "mg_store m' k = mg_store m k \<or> k = i"
  using assms by (auto simp: mg_apply_def go_bind_Ret_iff mg_desired_def split: if_splits)


lemma mg_upd_desired:
  "(\<And>s. su_desired (ss_subscriptions (f s)) = su_desired (ss_subscriptions s)) \<Longrightarrow>
     mg_desired (mg_upd i f m) j = mg_desired m j"
  by (simp add: mg_desired_def mg_upd_def)

lemma start_desired [simp]: "ss_subscriptions (session_start s b) = ss_subscriptions s"
  by (simp add: session_start_def)

lemma stop_desired [simp]: "ss_subscriptions (the (session_stop (Some s))) = ss_subscriptions s"
  by (simp add: session_stop_def split: option.split)

lemma mg_upd_sel [simp]:
  "mg_sessions (mg_upd i f m) = mg_sessions m" "mg_subscriptions (mg_upd i f m) = mg_subscriptions m"
  "mg_opt (mg_upd i f m) = mg_opt m" "mg_nextSessionID (mg_upd i f m) = mg_nextSessionID m"
  "mg_encoder (mg_upd i f m) = mg_encoder m" "mg_ctx (mg_upd i f m) = mg_ctx m"
  "mg_outbound (mg_upd i f m) = mg_outbound m" "mg_router (mg_upd i f m) = mg_router m"
  by (simp_all add: mg_upd_def)

lemma mg_ok_upd:
  assumes "mg_ok m" "\<And>s. su_desired (ss_subscriptions (f s)) = su_desired (ss_subscriptions s)"
  shows "mg_ok (mg_upd i f m)"
  by (rule mg_ok_cong [OF assms(1)]) (simp_all add: mg_upd_desired assms(2))

subsection \<open>Subscribe\<close>

lemma manager_Subscribe_registers:
  assumes "mg_encoder m \<noteq> None" "mg_ctx m \<noteq> Some True" "mg_subscriptions m t = None"
    and "manager_Subscribe (Some m) t choice reuse = Ret (m', r)"
  obtains m1 m2 i where "mg_register m t = (m1, i)" "m2 = (if mg_ctx m1 \<noteq> None then mg_upd i (\<lambda>s. session_start s True) m1 else m1)"
    "\<exists>m3. m' = Some m3 \<and> mg_apply i (session_subscribe (Some (mg_store m2 i)) (mg_outbound m2) (mg_encoder m2) t choice reuse) m2 = Ret (m3, r)"
proof -
  obtain m0 i where p: "pickSessionLocked m = (m0, i)" by fastforce
  show thesis
    by (rule that [OF _ refl]) (use assms p in \<open>auto simp: mg_register_def manager_Subscribe_def go_bind_Ret_iff Let_def\<close>)
qed

text \<open>Whatever \<open>Subscribe\<close> returns, once it got as far as the registry the topic is registered.\<close>

lemma manager_Subscribe_ok:
  assumes "mg_ok m" "manager_Subscribe (Some m) t choice reuse = Ret (m', r)"
  shows "\<exists>m1. m' = Some m1 \<and> mg_ok m1 \<and>
    (mg_encoder m \<noteq> None \<longrightarrow> mg_ctx m \<noteq> Some True \<longrightarrow> mg_subscriptions m t = None \<longrightarrow>
       (\<exists>i. i \<in> set (mg_sessions m1) \<and> mg_subscriptions m1 = (mg_subscriptions m)(t \<mapsto> i)))"
proof (cases "mg_encoder m = None \<or> mg_ctx m = Some True \<or> mg_subscriptions m t \<noteq> None")
  case True
  then have "m' = Some m" using assms(2) by (auto simp: manager_Subscribe_def split: if_splits)
  then show ?thesis using assms(1) True by auto
next
  case False
  then have f: "mg_encoder m \<noteq> None" "mg_ctx m \<noteq> Some True" "mg_subscriptions m t = None" by simp_all
  obtain m1 m2 i where g: "mg_register m t = (m1, i)"
    and m2: "m2 = (if mg_ctx m1 \<noteq> None then mg_upd i (\<lambda>s. session_start s True) m1 else m1)"
    and ex: "\<exists>m3. m' = Some m3 \<and> mg_apply i (session_subscribe (Some (mg_store m2 i)) (mg_outbound m2) (mg_encoder m2) t choice reuse) m2 = Ret (m3, r)"
    using manager_Subscribe_registers [OF f assms(2)] by metis
  then obtain m3 where m3: "m' = Some m3"
    "mg_apply i (session_subscribe (Some (mg_store m2 i)) (mg_outbound m2) (mg_encoder m2) t choice reuse) m2 = Ret (m3, r)" by blast
  note reg = mg_register_ok [OF assms(1) f(3) g]
  have ok2: "mg_ok m2" using reg(1) mg_ok_upd [OF reg(1), of "\<lambda>s. session_start s True" i] by (simp add: m2)
  have sel2: "mg_sessions m2 = mg_sessions m1" "mg_subscriptions m2 = mg_subscriptions m1" by (simp_all add: m2)
  have keep: "\<exists>s1. s = Some s1 \<and> su_desired (ss_subscriptions s1) = mg_desired m2 i"
    if "session_subscribe (Some (mg_store m2 i)) (mg_outbound m2) (mg_encoder m2) t choice reuse = Ret (s, p, res)" for s p res
    using session_subscribe_desired [OF that] by (simp add: mg_desired_def)
  note ap = mg_apply_desired [OF m3(2) keep]
  have "mg_ok m3" by (rule mg_ok_cong [OF ok2]) (use ap in auto)
  then show ?thesis using m3(1) ap(2,3) sel2 reg(2,3) by auto
qed

subsection \<open>Unsubscribe\<close>

lemma find_index_Some: "find_index xs x = Some i \<Longrightarrow> i < length xs \<and> xs ! i = x"
  by (induction xs arbitrary: i) (auto split: if_splits)

lemma find_index_None: "find_index xs x = None \<longleftrightarrow> x \<notin> set xs"
  by (induction xs) auto

text \<open>Swapping the last element in removes exactly the one.\<close>

lemma swap_remove:
  assumes "distinct xs" "i < length xs"
  shows "distinct (take (length xs - 1) (xs[i := xs ! (length xs - 1)]))"
    "set (take (length xs - 1) (xs[i := xs ! (length xs - 1)])) = set xs - {xs ! i}"
proof -
  obtain ys z where xs: "xs = ys @ [z]" using assms(2) by (metis append_butlast_last_id list.size(3) not_less0)
  have e: "take (length xs - 1) (xs[i := xs ! (length xs - 1)]) = (if i < length ys then ys[i := z] else ys)"
    using assms(2) by (auto simp: xs list_update_append nth_append)
  show "distinct (take (length xs - 1) (xs[i := xs ! (length xs - 1)]))"
    unfolding e using assms(1) by (auto simp: xs distinct_list_update)
  show "set (take (length xs - 1) (xs[i := xs ! (length xs - 1)])) = set xs - {xs ! i}"
  proof (cases "i < length ys")
    case True
    then have "set (ys[i := z]) = insert z (set ys - {ys ! i})"
      using assms(1) xs set_update_distinct [of ys i z] by simp
    moreover have "ys ! i \<noteq> z" using assms(1) True xs by (auto simp: in_set_conv_nth)
    ultimately show ?thesis unfolding e using True by (auto simp: xs nth_append)
  next
    case False
    then have "i = length ys" using assms(2) xs by simp
    then show ?thesis unfolding e using assms(1) by (auto simp: xs)
  qed
qed

lemma removeSessionLocked_sessions:
  assumes "distinct (mg_sessions m)" "i \<in> set (mg_sessions m)"
  shows "distinct (mg_sessions (removeSessionLocked m i))"
    "set (mg_sessions (removeSessionLocked m i)) = set (mg_sessions m) - {i}"
    "mg_store (removeSessionLocked m i) = mg_store m" "mg_subscriptions (removeSessionLocked m i) = mg_subscriptions m"
    "mg_opt (removeSessionLocked m i) = mg_opt m" "mg_nextSessionID (removeSessionLocked m i) = mg_nextSessionID m"
    "mg_encoder (removeSessionLocked m i) = mg_encoder m" "mg_outbound (removeSessionLocked m i) = mg_outbound m"
    "mg_ctx (removeSessionLocked m i) = mg_ctx m"
proof -
  obtain k where k: "find_index (mg_sessions m) i = Some k" "k < length (mg_sessions m)" "mg_sessions m ! k = i"
    using find_index_None [of "mg_sessions m" i] find_index_Some assms(2) by (cases "find_index (mg_sessions m) i") auto
  have e: "removeSessionLocked m i = m\<lparr>mg_sessions := take (length (mg_sessions m) - 1)
      ((mg_sessions m)[k := mg_sessions m ! (length (mg_sessions m) - 1)])\<rparr>"
    using k by (simp add: removeSessionLocked_def Let_def)
  show "distinct (mg_sessions (removeSessionLocked m i))"
    "set (mg_sessions (removeSessionLocked m i)) = set (mg_sessions m) - {i}"
    using swap_remove [OF assms(1) k(2)] k(3) by (simp_all add: e)
qed (simp_all add: removeSessionLocked_def Let_def split: option.split)

text \<open>Taking a topic off its session, as \<open>Unsubscribe\<close> does under its lock.\<close>

definition mg_unregister :: "'e manager \<Rightarrow> TopicID \<Rightarrow> nat \<Rightarrow> 'e manager" where
  "mg_unregister m t i =
     (let m = m\<lparr>mg_subscriptions := (mg_subscriptions m)(t := None)\<rparr>;
          m = mg_upd i (\<lambda>s. s\<lparr>ss_subscriptions := fst (subs_Remove (ss_subscriptions s) t)\<rparr>) m
      in if mg_count m i = 0 then removeSessionLocked m i else m)"

lemma mg_unregister_ok:
  assumes "mg_ok m" "mg_subscriptions m t = Some i"
  shows "mg_ok (mg_unregister m t i)" "mg_subscriptions (mg_unregister m t i) = (mg_subscriptions m)(t := None)"
    "i \<in> set (mg_sessions (mg_unregister m t i)) \<longleftrightarrow> mg_desired m i \<noteq> {t}"
proof -
  let ?m = "mg_upd i (\<lambda>s. s\<lparr>ss_subscriptions := fst (subs_Remove (ss_subscriptions s) t)\<rparr>)
      (m\<lparr>mg_subscriptions := (mg_subscriptions m)(t := None)\<rparr>)"
  have i: "i \<in> set (mg_sessions m)" using assms by (auto simp: mg_ok_def)
  then have di: "finite (mg_desired m i)" "t \<in> mg_desired m i" "distinct (mg_sessions m)"
    using assms by (auto simp: mg_ok_def)
  have d: "mg_desired ?m j = (if j = i then mg_desired m i - {t} else mg_desired m j)" for j
    using subs.remove_law [of "ss_subscriptions (mg_store m i)" t] by (simp add: mg_desired_def mg_upd_def)
  have count: "mg_count ?m i = 0 \<longleftrightarrow> mg_desired m i = {t}"
  proof -
    have "mg_count ?m i = card (mg_desired m i - {t})" by (simp add: mg_count_card d)
    also have "\<dots> = 0 \<longleftrightarrow> mg_desired m i - {t} = {}" using di(1) by simp
    finally show ?thesis using di(2) by blast
  qed
  have other: "t \<notin> mg_desired m j" if "j \<in> set (mg_sessions m)" "j \<noteq> i" for j
    using assms that by (auto simp: mg_ok_def)
  have card: "card (mg_desired m i - {t}) \<le> card (mg_desired m i)" using di by (simp add: card_mono)
  have "mg_ok (mg_unregister m t i) \<and> mg_subscriptions (mg_unregister m t i) = (mg_subscriptions m)(t := None)
      \<and> (i \<in> set (mg_sessions (mg_unregister m t i)) \<longleftrightarrow> mg_desired m i \<noteq> {t})"
  proof (cases "mg_desired m i = {t}")
    case True
    have dist: "distinct (mg_sessions ?m)" "i \<in> set (mg_sessions ?m)" using di i by simp_all
    note rm = removeSessionLocked_sessions [OF dist]
    have u: "mg_unregister m t i = removeSessionLocked ?m i" using True count by (simp add: mg_unregister_def)
    have du: "mg_desired (removeSessionLocked ?m i) j = mg_desired ?m j" for j by (simp add: mg_desired_def rm)
    have "mg_subscriptions m u = Some i \<Longrightarrow> u = t" for u using assms(1) i True by (auto simp: mg_ok_def)
    then have "mg_ok (removeSessionLocked ?m i)"
      using assms(1) other rm(1) unfolding mg_ok_def du d rm(2-) by auto
    then show ?thesis using True by (simp add: u rm)
  next
    case False
    then have u: "mg_unregister m t i = ?m" using count by (simp add: mg_unregister_def)
    have ne: "mg_desired m i - {t} \<noteq> {}" using False di by auto
    have all: "finite (mg_desired m j)" "mg_desired m j \<noteq> {}" "int (card (mg_desired m j)) \<le> MaxTopicsPerConn (mg_opt m)"
      "\<And>u. u \<in> mg_desired m j \<longleftrightarrow> mg_subscriptions m u = Some j" if "j \<in> set (mg_sessions m)" for j
      using assms(1) that by (auto simp: mg_ok_def)
    have le: "int (card (mg_desired m i - {t})) \<le> MaxTopicsPerConn (mg_opt m)" using all(3) [OF i] card by linarith
    have "mg_ok ?m" unfolding mg_ok_def d
    proof (intro conjI ballI allI impI)
      fix j u
      assume j: "j \<in> set (mg_sessions ?m)"
      show "finite (if j = i then mg_desired m i - {t} else mg_desired m j)"
        "(if j = i then mg_desired m i - {t} else mg_desired m j) \<noteq> {}"
        "int (card (if j = i then mg_desired m i - {t} else mg_desired m j)) \<le> MaxTopicsPerConn (mg_opt ?m)"
        using j all [of j] ne le di by simp_all
      show "u \<in> (if j = i then mg_desired m i - {t} else mg_desired m j) \<longleftrightarrow> mg_subscriptions ?m u = Some j"
        using j all(4) [of j u] other [of j] assms(2) by auto
    next
      fix u j
      assume "mg_subscriptions ?m u = Some j"
      then show "j \<in> set (mg_sessions ?m)" using assms(1) by (auto simp: mg_ok_def split: if_splits)
    qed (use assms(1) in \<open>simp_all add: mg_ok_def\<close>)
    then show ?thesis using False i by (simp add: u)
  qed
  then show "mg_ok (mg_unregister m t i)" "mg_subscriptions (mg_unregister m t i) = (mg_subscriptions m)(t := None)"
    "i \<in> set (mg_sessions (mg_unregister m t i)) \<longleftrightarrow> mg_desired m i \<noteq> {t}" by blast+
qed

lemma mg_unregister_store:
  "mg_store (mg_unregister m t i) i = (mg_store m i)\<lparr>ss_subscriptions := fst (subs_Remove (ss_subscriptions (mg_store m i)) t)\<rparr>"
  "mg_encoder (mg_unregister m t i) = mg_encoder m" "mg_outbound (mg_unregister m t i) = mg_outbound m"
  "mg_router (mg_unregister m t i) = mg_router m"
  by (simp_all add: mg_unregister_def mg_upd_def removeSessionLocked_def Let_def split: option.split)

lemma mg_unregister_empty:
  assumes "mg_ok m" "mg_subscriptions m t = Some i"
  shows "mg_count (mg_upd i (\<lambda>s. s\<lparr>ss_subscriptions := fst (subs_Remove (ss_subscriptions s) t)\<rparr>)
      (m\<lparr>mg_subscriptions := (mg_subscriptions m)(t := None)\<rparr>)) i = 0 \<longleftrightarrow> mg_desired m i = {t}"
proof -
  have f: "finite (mg_desired m i)" "t \<in> mg_desired m i" using assms by (auto simp: mg_ok_def)
  have "mg_count (mg_upd i (\<lambda>s. s\<lparr>ss_subscriptions := fst (subs_Remove (ss_subscriptions s) t)\<rparr>)
      (m\<lparr>mg_subscriptions := (mg_subscriptions m)(t := None)\<rparr>)) i = card (mg_desired m i - {t})"
    using subs.remove_law [of "ss_subscriptions (mg_store m i)" t]
    by (simp add: mg_count_card mg_desired_def mg_upd_def)
  also have "\<dots> = 0 \<longleftrightarrow> mg_desired m i - {t} = {}" using f(1) by simp
  finally show ?thesis using f(2) by blast
qed

lemma manager_Unsubscribe_eq:
  assumes "mg_ok m" "mg_subscriptions m t = Some i"
    and "m1 = (mg_unregister m t i)\<lparr>mg_router := the (router_RemoveTopic (Some (mg_router m)) t)\<rparr>"
  shows "manager_Unsubscribe (Some m) t choice reuse =
    go_bind (mg_apply i (session_unsubscribe (Some (mg_store m1 i)) (mg_outbound m1) (mg_encoder m1) t choice reuse) m1)
      (\<lambda>(m2, r). Ret (Some (if r = Sent \<and> mg_desired m i = {t}
        then mg_upd i (\<lambda>s. the (session_stop (Some s))) m2 else m2), r))"
proof -
  let ?m = "mg_upd i (\<lambda>s. s\<lparr>ss_subscriptions := fst (subs_Remove (ss_subscriptions s) t)\<rparr>)
      (m\<lparr>mg_subscriptions := (mg_subscriptions m)(t := None)\<rparr>)"
  have un: "(if mg_desired m i = {t} then removeSessionLocked ?m i else ?m) = mg_unregister m t i"
    using mg_unregister_empty [OF assms(1,2)] by (simp add: mg_unregister_def)
  have pull: "(if b then Ret (Some x, r) else Ret (Some y, r)) = Ret (Some (if b then x else y), r)" for b x y r
    by simp
  show ?thesis
    unfolding manager_Unsubscribe_def assms(3)
    by (simp only: option.case assms(2) Let_def mg_unregister_empty [OF assms(1,2)] un mg_unregister_store(4) pull)
qed

lemma manager_Unsubscribe_ok:
  assumes "mg_ok m" "manager_Unsubscribe (Some m) t choice reuse = Ret (m', r)"
  shows "\<exists>m1. m' = Some m1 \<and> mg_ok m1 \<and> mg_subscriptions m1 = (mg_subscriptions m)(t := None)"
proof (cases "mg_subscriptions m t")
  case None
  then show ?thesis using assms by (auto simp: manager_Unsubscribe_def fun_upd_idem)
next
  case (Some i)
  let ?m1 = "(mg_unregister m t i)\<lparr>mg_router := the (router_RemoveTopic (Some (mg_router m)) t)\<rparr>"
  obtain m2 where a: "mg_apply i (session_unsubscribe (Some (mg_store ?m1 i)) (mg_outbound ?m1) (mg_encoder ?m1) t choice reuse) ?m1 = Ret (m2, r)"
    and m': "m' = Some (if r = Sent \<and> mg_desired m i = {t} then mg_upd i (\<lambda>s. the (session_stop (Some s))) m2 else m2)"
  proof (cases "mg_apply i (session_unsubscribe (Some (mg_store ?m1 i)) (mg_outbound ?m1) (mg_encoder ?m1) t choice reuse) ?m1")
    case (Ret x)
    obtain m2 r2 where x: "x = (m2, r2)" by (cases x)
    have "r2 = r" "m' = Some (if r = Sent \<and> mg_desired m i = {t} then mg_upd i (\<lambda>s. the (session_stop (Some s))) m2 else m2)"
      using assms(2) unfolding manager_Unsubscribe_eq [OF assms(1) Some refl] Ret x
      by (auto simp only: go_bind.simps prod.case go.inject prod.inject)
    then show thesis using that Ret x by (simp only:)
  next
    case Panic
    then show thesis using assms(2) unfolding manager_Unsubscribe_eq [OF assms(1) Some refl] by simp
  qed
  note un = mg_unregister_ok [OF assms(1) Some]
  have ok1: "mg_ok ?m1" by (rule mg_ok_cong [OF un(1)]) (simp_all add: mg_desired_def)
  have keep: "\<exists>s1. s = Some s1 \<and> su_desired (ss_subscriptions s1) = mg_desired ?m1 i"
    if "session_unsubscribe (Some (mg_store ?m1 i)) (mg_outbound ?m1) (mg_encoder ?m1) t choice reuse = Ret (s, p, res)" for s p res
    using session_unsubscribe_desired [OF that] by (simp add: mg_desired_def)
  note ap = mg_apply_desired [OF a keep]
  have "mg_ok m2" by (rule mg_ok_cong [OF ok1]) (use ap in auto)
  then have "mg_ok (if r = Sent \<and> mg_desired m i = {t} then mg_upd i (\<lambda>s. the (session_stop (Some s))) m2 else m2)"
    using mg_ok_upd [of m2 "\<lambda>s. the (session_stop (Some s))" i] by simp
  then show ?thesis using m' ap(3) un(2) by simp
qed

text \<open>
  When the session is connected and the encoder refuses the topic (it has been unregistered there
  first), the error comes back before \<open>stop\<close>: a session without topics stays connected, outside the
  manager's list.
\<close>

lemma manager_Unsubscribe_leak:
  assumes "mg_ok m" "mg_subscriptions m t = Some i" "mg_desired m i = {t}" "ss_connected (mg_store m i)"
    and "mg_encoder m = Some en" "en_unsubscribe en t 0 = Inl e"
    and "op_buffers (mg_outbound m) = Some bp" "pool_ok bp" "0 < ss_controlBufSize (mg_store m i)"
    and "x \<in> set (bp_sizes bp)" "ss_controlBufSize (mg_store m i) \<le> x" "x \<le> max_alloc"
  shows "\<exists>m'. manager_Unsubscribe (Some m) t choice reuse = Ret (Some m', SendErr (EncErr e))
    \<and> i \<notin> set (mg_sessions m') \<and> ss_connected (mg_store m' i) \<and> ss_cancel (mg_store m' i) = ss_cancel (mg_store m i)"
proof -
  let ?m1 = "(mg_unregister m t i)\<lparr>mg_router := the (router_RemoveTopic (Some (mg_router m)) t)\<rparr>"
  let ?s = "mg_store ?m1 i"
  have s: "ss_connected ?s" "ss_controlBufSize ?s = ss_controlBufSize (mg_store m i)" "ss_cancel ?s = ss_cancel (mg_store m i)"
    "mg_encoder ?m1 = Some en" "op_buffers (mg_outbound ?m1) = Some bp"
    using assms(4,5,7) by (simp_all add: mg_unregister_store)
  obtain q b where g: "bufferPool_Get (Some bp) (ss_controlBufSize (mg_store m i)) (choice 0) = Ret (Some q, Some b)"
    using Get_returns [OF assms(8-12)] by metis
  then have "encodeControl (Some bp) (ss_controlBufSize ?s) (en_unsubscribe en t) choice = Ret (bufferPool_Put (Some q) (Some b), Inl (EncErr e))"
    using assms(6) s(2) by (simp add: encodeControl_def)
  then have "session_unsubscribe (Some ?s) (mg_outbound ?m1) (mg_encoder ?m1) t choice reuse =
      Ret (Some ?s, (mg_outbound ?m1)\<lparr>op_buffers := bufferPool_Put (Some q) (Some b)\<rparr>, SendErr (EncErr e))"
    using s by (simp add: session_unsubscribe_def sendUnsubscribe_def sendControl_def)
  then have ap: "mg_apply i (session_unsubscribe (Some ?s) (mg_outbound ?m1) (mg_encoder ?m1) t choice reuse) ?m1
      = Ret (?m1\<lparr>mg_outbound := (mg_outbound ?m1)\<lparr>op_buffers := bufferPool_Put (Some q) (Some b)\<rparr>,
          mg_store := (mg_store ?m1)(i := ?s)\<rparr>, SendErr (EncErr e))"
    by (simp add: mg_apply_def)
  have "i \<notin> set (mg_sessions (mg_unregister m t i))" using mg_unregister_ok(3) [OF assms(1,2)] assms(3) by simp
  then show ?thesis
    unfolding manager_Unsubscribe_eq [OF assms(1,2) refl] ap using s by simp
qed

end
