(* ===== verification/Ws_Manager_Reach.thy ===== *)
theory Ws_Manager_Reach
  imports Ws_Manager_Laws
begin

section \<open>The states of a manager\<close>

text \<open>
  The states a manager can reach: its methods, and what the goroutines of its sessions do between them
  (connecting, subscribing again, serving one event, hanging up), also for a session that is no longer
  in the manager's list.
\<close>

definition mg_put :: "nat \<Rightarrow> session \<Rightarrow> outboundPool \<Rightarrow> 'e manager \<Rightarrow> 'e manager" where
  "mg_put i s p m = m\<lparr>mg_store := (mg_store m)(i := s), mg_outbound := p\<rparr>"

inductive mg_step :: "'e manager \<Rightarrow> 'e manager \<Rightarrow> bool" where
  subscribe: "manager_Subscribe (Some m) t choice reuse = Ret (Some m', r) \<Longrightarrow> mg_step m m'"
| unsubscribe: "manager_Unsubscribe (Some m) t choice reuse = Ret (Some m', r) \<Longrightarrow> mg_step m m'"
| add_consumer: "manager_AddConsumer (Some m) t c = (Some m', e) \<Longrightarrow> mg_step m m'"
| remove_consumer: "manager_RemoveConsumer (Some m) t c = (Some m', e) \<Longrightarrow> mg_step m m'"
| send: "manager_Send (Some m) msgType payload choices reuse = Ret (Some m', e, rest) \<Longrightarrow> mg_step m m'"
| enqueue: "manager_EnqueueOutbound (Some m) t frame = (Some m', r) \<Longrightarrow> mg_step m m'"
| run: "manager_RunStart (Some m) = (Some m', e) \<Longrightarrow> mg_step m m'"
| run_stop: "mg_step m (manager_RunStop m)"
| connect: "run_head (mg_store m i) attempt ctxDone dialOk = (s, attempt', nxt) \<Longrightarrow> mg_step m (mg_put i s (mg_outbound m) m)"
| connected: "run_connect (mg_store m i) (mg_outbound m) attempt hook (mg_encoder m) order choices reuse = Ret (s, p, attempt', nxt) \<Longrightarrow>
    mg_step m (mg_put i s p m)"
| serve: "runSession_step conn (mg_store m i) (mg_outbound m) ev choice' reuse = Ret (conn', s, p, res) \<Longrightarrow>
    mg_step m (mg_put i s p m)"
| hang_up: "run_end (mg_store m i) (mg_outbound m) attempt ctxDone = (s, p, attempt', nxt) \<Longrightarrow> mg_step m (mg_put i s p m)"

inductive mg_reach :: "'e manager \<Rightarrow> bool" where
  new: "manager_New dialer decoder enc opts = Inr m \<Longrightarrow> mg_reach m"
| step: "mg_reach m \<Longrightarrow> mg_step m m' \<Longrightarrow> mg_reach m'"

subsection \<open>Every step keeps the registry\<close>

lemma mg_ok_put:
  assumes "mg_ok m" "su_desired (ss_subscriptions s) = mg_desired m i"
  shows "mg_ok (mg_put i s p m)"
  by (rule mg_ok_cong [OF assms(1)]) (use assms(2) in \<open>simp_all add: mg_put_def mg_desired_def\<close>)

lemma mg_ok_consumers:
  "mg_ok m \<Longrightarrow> mg_ok (m\<lparr>mg_router := r\<rparr>)" "mg_ok m \<Longrightarrow> mg_ok (m\<lparr>mg_outbound := p\<rparr>)"
  by (erule mg_ok_cong; simp add: mg_desired_def)+

lemma send_loop_ok:
  "mg_ok m \<Longrightarrow> send_loop m msgType payload choices reuse is e = Ret (m', e', rest) \<Longrightarrow> mg_ok m'"
proof (induction "is" arbitrary: m e)
  case (Cons i "is")
  show ?case
  proof (cases "ss_connected (mg_store m i)")
    case False
    then show ?thesis using Cons.IH [OF Cons.prems(1)] Cons.prems(2) by simp
  next
    case True
    then obtain w p res where w: "writer_Send (ss_writer (mg_store m i)) (mg_outbound m) msgType payload (choices i) reuse = Ret (w, p, res)"
      using Cons.prems(2) by (auto simp: go_bind_Ret_iff)
    have ok: "mg_ok (mg_upd i (\<lambda>s. s\<lparr>ss_writer := w\<rparr>) (m\<lparr>mg_outbound := p\<rparr>))"
      by (rule mg_ok_upd [OF mg_ok_consumers(2) [OF Cons.prems(1)]]) simp
    show ?thesis using Cons.prems(2) True w Cons.IH [OF ok] ok by (cases res) (auto simp: Let_def)
  qed
qed simp

lemma sessions_foldl:
  assumes "\<And>s. su_desired (ss_subscriptions (f s)) = su_desired (ss_subscriptions s)" "mg_ok m"
  shows "mg_ok (foldl (\<lambda>m i. mg_upd i f m) m is)"
  using assms(2) by (induction "is" arbitrary: m) (simp_all add: mg_ok_upd assms(1))

lemma runSession_step_subs:
  "runSession_step conn s p ev choice reuse = Ret (conn', s', p', res) \<Longrightarrow> ss_subscriptions s' = ss_subscriptions s"
  by (cases ev) (auto simp: runSession_step_def go_bind_Ret_iff Let_def split: prod.splits option.splits)

lemma resubscribe_desired:
  assumes "resubscribe s p enc order choices reuse = Ret (s', p', r)"
  shows "su_desired (ss_subscriptions s') = su_desired (ss_subscriptions s)"
proof -
  consider "subs_Desired (ss_subscriptions s) order = []" | "enc = None"
    | en where "enc = Some en" "subs_Desired (ss_subscriptions s) order \<noteq> []" by (cases enc) auto
  then show ?thesis
  proof cases
    case 3
    then have "resubscribe_loop s p en (subs_Desired (ss_subscriptions s) order) choices reuse = Ret (s', p', r)"
      using assms by (simp add: resubscribe_def)
    then show ?thesis using resubscribe_loop_active by blast
  qed (use assms in \<open>auto simp: resubscribe_def Let_def split: if_splits\<close>)
qed

lemma run_connect_desired:
  assumes "run_connect s p attempt hook enc order choices reuse = Ret (s', p', a, n)"
  shows "su_desired (ss_subscriptions s') = su_desired (ss_subscriptions s)"
proof (cases "hook = Some False")
  case True
  then show ?thesis using assms session_hangup_state(4) by (auto simp: run_connect_def split: prod.splits)
next
  case False
  let ?s = "s\<lparr>ss_subscriptions := subs_ClearActive (ss_subscriptions s)\<rparr>"
  obtain s1 p1 r where r: "resubscribe ?s p enc order choices reuse = Ret (s1, p1, r)"
    using assms False by (auto simp: run_connect_def go_bind_Ret_iff Let_def)
  have "su_desired (ss_subscriptions s1) = su_desired (ss_subscriptions ?s)"
    by (rule resubscribe_desired [OF r])
  then show ?thesis
    using assms False r session_hangup_state(4)
    by (cases r) (auto simp: run_connect_def Let_def subs_ClearActive_def split: prod.splits)
qed

lemma mg_step_ok: "mg_step m m' \<Longrightarrow> mg_ok m \<Longrightarrow> mg_ok m'"
proof (induction rule: mg_step.induct)
  case (subscribe m t choice reuse m' r)
  then show ?case using manager_Subscribe_ok by blast
next
  case (unsubscribe m t choice reuse m' r)
  then show ?case using manager_Unsubscribe_ok by blast
next
  case (add_consumer m t c m' e)
  then show ?case by (auto simp: manager_AddConsumer_def mg_ok_consumers split: option.splits)
next
  case (remove_consumer m t c m' e)
  then show ?case by (auto simp: manager_RemoveConsumer_def mg_ok_consumers split: option.splits)
next
  case (send m msgType payload choices reuse m' e rest)
  then show ?case using send_loop_ok by (auto simp: manager_Send_def go_bind_Ret_iff)
next
  case (enqueue m t frame m' r)
  then show ?case
    by (auto simp: manager_EnqueueOutbound_def Let_def mg_ok_consumers mg_ok_upd split: option.splits if_splits prod.splits enqueue_result.splits)
next
  case (run m m' e)
  then show ?case
    by (auto simp: manager_RunStart_def Let_def split: if_splits intro!: sessions_foldl elim: mg_ok_cong simp: mg_desired_def)
next
  case (run_stop m)
  then have "mg_ok (manager_stopAll m)" by (simp add: manager_stopAll_def sessions_foldl)
  then show ?case unfolding manager_RunStop_def by (rule mg_ok_cong) (simp_all add: mg_desired_def)
next
  case (connect m i attempt ctxDone dialOk s attempt' nxt)
  then show ?case by (intro mg_ok_put) (auto simp: run_head_def mg_desired_def split: if_splits)
next
  case (connected m i attempt hook order choices reuse s p attempt' nxt)
  then show ?case using run_connect_desired by (intro mg_ok_put) (simp_all add: mg_desired_def)
next
  case (serve conn m i ev choice' reuse conn' s p res)
  then show ?case using runSession_step_subs by (intro mg_ok_put) (simp_all add: mg_desired_def)
next
  case (hang_up m i attempt ctxDone s p attempt' nxt)
  then have "ss_subscriptions s = ss_subscriptions (mg_store m i)"
    using session_hangup_state(4) by (auto simp: run_end_def split: prod.splits if_splits)
  then show ?case using hang_up by (intro mg_ok_put) (simp_all add: mg_desired_def)
qed

lemma mg_reach_ok: "mg_reach m \<Longrightarrow> mg_ok m"
  by (induction rule: mg_reach.induct) (auto intro: mg_ok_New mg_step_ok)

text \<open>What evaluating a manager that has just been made unfolds.\<close>

lemmas manager_eval = manager_New_def manager_Subscribe_def pickSessionLocked_def mg_upd_def session_subscribe_def
  newSession_def mg_apply_def subs_Add_def newSubscriptions_def Option_init_def zero_option_def mg_put_def run_head_def
  sendSubscribe_def sendControl_def encodeControl_def newOutboundPool_def mg_count_def subs_Count_def Let_def

end
