(* ===== verification/Ws_Properties.thy ===== *)
theory Ws_Properties
  imports Ws_Wire_Laws Ws_Handshake Ws_Delivery Ws_Manager_Reach
begin

section \<open>Properties of the websocket client\<close>

text \<open>The theorems about \<open>libs/shared/websocket\<close>, from the frame format up to the manager.\<close>

subsection \<open>Frames on the wire\<close>

text \<open>C7: a text or binary message that one side writes is read by the other side, from the bytes sent
  and whatever follows them, as the same payload and type, for every payload up to the length limit and
  every state of the masks; the bytes after it stay in the input.\<close>

theorem written_message_read:
  assumes "msgType \<in> {MessageText, MessageBinary}" "\<not> wc_broken c" "length payload \<le> maxPayloadLen"
    and "wsConn_Write c msgType payload = (c', masked, e)" "wc_output c' = wc_output c @ sent"
    and "wc_input r = sent @ rest" "wc_pending r = None" "length payload \<le> dstLen"
  shows "\<exists>r'. wsConn_Read r dstLen = (r', Inr (payload, msgType)) \<and> wc_input r' = rest \<and> wc_pending r' = None"
  using read_written [OF assms] by metis

theorem written_message_read_witness:
  "\<exists>r'. wsConn_Read \<lparr>wc_input = drop 2 (wc_output (fst (wsConn_Write
        \<lparr>wc_input = [], wc_output = [1, 2], wc_broken = False, wc_mask = 99, wc_pending = None\<rparr> MessageText [104, 105]))) @ [7],
      wc_output = [], wc_broken = False, wc_mask = 5, wc_pending = None\<rparr> 16 = (r', Inr ([104, 105], MessageText))
    \<and> wc_input r' = [7] \<and> wc_pending r' = None"
proof -
  let ?c = "\<lparr>wc_input = [], wc_output = [1, 2], wc_broken = False, wc_mask = 99, wc_pending = None\<rparr>"
  obtain c' masked e where w: "wsConn_Write ?c MessageText [104, 105] = (c', masked, e)" by (cases "wsConn_Write ?c MessageText [104, 105]")
  have "take 2 (wc_output (fst (wsConn_Write ?c MessageText [104, 105]))) = [1, 2]" by code_simp
  then have o: "wc_output c' = wc_output ?c @ drop 2 (wc_output c')"
    unfolding w fst_conv using append_take_drop_id [of 2 "wc_output c'"] by simp
  show ?thesis
    unfolding w fst_conv by (rule written_message_read [OF _ _ _ w o]) simp_all
qed

text \<open>C8: a message sent in fragments, with pings and pongs before and between them, is read as the
  concatenation of its fragments under the type of the first, when it fits the buffer.\<close>

theorem fragmented_message_read:
  assumes "wc_input c = message_bytes opcode ps @ rest" "wc_pending c = None" "ps \<noteq> []" "list_all piece_ok ps"
    and "opcode \<in> {opText, opBinary}" "length (message_data ps) \<le> dstLen"
  shows "\<exists>c'. wsConn_Read c dstLen = (c', Inr (message_data ps, opcodeToMessageType opcode))
    \<and> wc_input c' = rest \<and> wc_pending c' = None"
proof -
  have o: "opcode \<in> {opText, opBinary} \<or> opcode = opContinuation \<and> (0 :: MessageType) \<noteq> 0" "opcode \<noteq> opContinuation"
    using assms(5) by auto
  obtain c' where "wc_input c' = rest" "wc_pending c' = wc_pending c"
      "read_loop c dstLen [] 0 = (c', Inr ([] @ message_data ps, if opcode = opContinuation then 0 else opcodeToMessageType opcode))"
    by (rule read_loop_message [OF assms(1,3,4) o(1), of "[]" dstLen]) (use assms(6) in simp_all)
  then show ?thesis using assms(2) o(2) by (simp add: wsConn_Read_def)
qed

theorem fragmented_message_read_witness:
  "\<exists>c'. wsConn_Read \<lparr>wc_input = message_bytes opText
      [([], \<lparr>fr_masked = False, fr_key = [0, 0, 0, 0], fr_data = [65, 66]\<rparr>),
       ([(opPing, \<lparr>fr_masked = False, fr_key = [0, 0, 0, 0], fr_data = [9]\<rparr>)],
        \<lparr>fr_masked = True, fr_key = [1, 2, 3, 4], fr_data = [67]\<rparr>)] @ [5],
      wc_output = [], wc_broken = False, wc_mask = 5, wc_pending = None\<rparr> 16 = (c', Inr ([65, 66, 67], MessageText))
    \<and> wc_input c' = [5] \<and> wc_pending c' = None"
proof -
  let ?ps = "[([], \<lparr>fr_masked = False, fr_key = [0, 0, 0, 0], fr_data = [65, 66]\<rparr>),
       ([(opPing, \<lparr>fr_masked = False, fr_key = [0, 0, 0, 0], fr_data = [9]\<rparr>)],
        \<lparr>fr_masked = True, fr_key = [1, 2, 3, 4], fr_data = [67]\<rparr>)] :: piece list"
  have ok: "list_all piece_ok ?ps" by (simp add: piece_ok_def control_ok_def)
  have d: "message_data ?ps = [65, 66, 67]" by (simp add: message_data_def)
  have t: "opcodeToMessageType opText = MessageText" by (simp add: opcodeToMessageType_def)
  show ?thesis
    using fragmented_message_read [of _ opText ?ps "[5]" 16, OF _ _ _ ok] unfolding d t by simp
qed

text \<open>C26: a read that fails because the message is larger than the buffer is resumed by the next read with
  a larger buffer, with the result a first read with that buffer would have had; nothing read is lost.\<close>

theorem read_resumes:
  assumes "wc_pending c = None" "L \<le> L'" "wsConn_Read c L = (c1, Inl errFrameTooLarge)" "wc_pending c1 \<noteq> None"
  shows "wsConn_Read c1 L' = wsConn_Read c L'"
  using assms by (rule read_retry)

theorem read_resumes_witness:
  "let c = \<lparr>wc_input = frame_bytes False opText False [0, 0, 0, 0] [65, 66]
        @ frame_bytes True opContinuation False [0, 0, 0, 0] [67], wc_output = [], wc_broken = False, wc_mask = 5,
      wc_pending = None\<rparr>
   in wsConn_Read (fst (wsConn_Read c 2)) 4 = wsConn_Read c 4"
proof -
  let ?c = "\<lparr>wc_input = frame_bytes False opText False [0, 0, 0, 0] [65, 66]
        @ frame_bytes True opContinuation False [0, 0, 0, 0] [67], wc_output = [], wc_broken = False, wc_mask = 5,
      wc_pending = None\<rparr>"
  have s: "snd (wsConn_Read ?c 2) = Inl errFrameTooLarge" "wc_pending (fst (wsConn_Read ?c 2)) \<noteq> None" by code_simp+
  show ?thesis
    unfolding Let_def by (rule read_resumes [OF _ _ _ s(2)]) (simp_all flip: s(1))
qed

text \<open>The handshake accepts a header exactly when one of its comma-separated values, trimmed of blanks
  and in lower case, is the token.\<close>

lemma header_token_iff:
  assumes "token \<noteq> []"
  shows "headerContainsToken v token \<longleftrightarrow> (\<exists>x \<in> set (comma_parts v). map ws_toLowerByte (trim x) = token)"
  using assms by (rule headerContainsToken_iff)

lemma header_token_iff_witness:
  "headerContainsToken ''keep-alive, Upgrade'' ''upgrade''"
proof -
  have "\<exists>x \<in> set (comma_parts ''keep-alive, Upgrade''). map ws_toLowerByte (trim x) = ''upgrade''" by code_simp
  then show ?thesis using header_token_iff [of "''upgrade''" "''keep-alive, Upgrade''"] by simp
qed

subsection \<open>Queues and frames\<close>

text \<open>C15: the ring buffer of a consumer implements the bounded list: \<open>Push\<close> never panics and appends, drops
  the oldest, refuses or waits as the policy says, and \<open>Pop\<close> takes the front; both keep the invariant.\<close>

theorem queue_refines_list:
  assumes "fq_ok q"
  shows "(\<exists>st' q' res. frameQueue_Push st q f = Ret (st', q', res) \<and> fq_ok q'
      \<and> (fq_list q', res) = push_spec (length (fq_buf q)) (fq_policy q) (fq_closed q) (fq_list q) f)
    \<and> (\<exists>q' r. frameQueue_Pop q = (q', r) \<and> fq_ok q' \<and> (fq_list q', r) = pop_spec (fq_closed q) (fq_list q))"
proof
  show "\<exists>st' q' res. frameQueue_Push st q f = Ret (st', q', res) \<and> fq_ok q'
      \<and> (fq_list q', res) = push_spec (length (fq_buf q)) (fq_policy q) (fq_closed q) (fq_list q) f"
    using push_refines [OF assms, of st f] by metis
  show "\<exists>q' r. frameQueue_Pop q = (q', r) \<and> fq_ok q' \<and> (fq_list q', r) = pop_spec (fq_closed q) (fq_list q)"
    using pop_refines(1,2) [OF assms] by (metis surj_pair)
qed

theorem queue_refines_list_witness:
  "\<exists>st' q'. frameQueue_Push (dl_store (dl_init [] 0 None)) (fq_enq (newFrameQueue 1 OverflowDropOldest) 7) 8
      = Ret (st', q', Pushed) \<and> fq_list q' = [8]"
proof -
  let ?q = "fq_enq (newFrameQueue 1 OverflowDropOldest) 7"
  have s: "fq_size (newFrameQueue 1 OverflowDropOldest) < length (fq_buf (newFrameQueue 1 OverflowDropOldest))"
    by (simp add: newFrameQueue_def)
  note e = fq_enq_ok [OF fq_ok_new(1) s, of 7, unfolded fq_ok_new(2) append.simps]
  have c: "length (fq_buf ?q) = 1" "fq_policy ?q = OverflowDropOldest" "fq_closed ?q = False"
    by (simp_all add: newFrameQueue_def)
  have "push_spec 1 OverflowDropOldest False [7] 8 = ([8], Pushed)" by (simp add: push_spec_def)
  then show ?thesis
    using conjunct1 [OF queue_refines_list [OF e(1), of "dl_store (dl_init [] 0 None)" 8]] unfolding c e(2)
    by (metis prod.inject)
qed

text \<open>C3: in every state the read loops, consumers and closings can reach, a frame that is in a queue, held by
  a consumer or still being routed is out of the pool, and its reference count is exactly the number
  of those references; a frame in the pool has none. So no frame is recycled while it is in use, and none
  is lost.\<close>

theorem frames_counted:
  assumes "dl_reach (dl_init queues sessions buffers) d"
  shows "(0 < occ (dl_queues d) f + dl_refs d f \<longrightarrow> f \<notin> set (fs_pool (dl_store d))
      \<and> Frame_ref (fs_frames (dl_store d) f) = int (occ (dl_queues d) f + dl_refs d f))
    \<and> (f < fs_next (dl_store d) \<and> f \<notin> set (fs_pool (dl_store d)) \<longrightarrow> 0 < occ (dl_queues d) f + dl_refs d f)"
proof -
  have "refs_ok (dl_store d) (dl_queues d) (dl_refs d)" using dl_reach_ok [OF assms dl_ok_init] by (simp add: dl_ok_def)
  then show ?thesis unfolding refs_ok_def live_def by (metis add_is_0 less_numeral_extra(3))
qed

theorem frames_counted_witness:
  "let d = dl_read (dl_init [(1, OverflowBlock), (1, OverflowBlock)] 1 None) 0 None None [0, 1]
   in Frame_ref (fs_frames (dl_store d) 0) = 2"
proof -
  let ?init = "dl_init [(1, OverflowBlock), (1, OverflowBlock)] 1 None"
  let ?d = "dl_read ?init 0 None None [0, 1]"
  have "dl_step ?init ?d" by (rule dl_step.read) (simp_all add: dl_init_def)
  with dl_reach.start [of ?init] have r: "dl_reach ?init ?d" by (rule dl_reach.step)
  have o: "occ (dl_queues ?d) 0 = 0" "dl_refs ?d 0 = 2" by code_simp+
  show ?thesis unfolding Let_def using frames_counted [OF r, of 0] unfolding o by simp
qed



text \<open>C24: \<open>Route\<close> keeps the reference counts exact in both fan-out modes: once it has returned, the router
  itself holds no reference to the frame it was given, and every frame still counts its queue entries
  and holders.\<close>

theorem route_keeps_counts:
  assumes "refs_ok st qs (h(f := Suc 0))" "occ qs f = 0"
    and "list_all (\<lambda>c. c < length qs) (rt_list rt (Frame_Topic (fs_frames st f)))"
    and "router_Route (Some rt) st qs (Some f) choice = Ret ((st', qs', []), w)"
  shows "refs_ok st' qs' (h(f := 0))"
  using assms by (rule Route_refs)

theorem route_keeps_counts_witness:
  "\<exists>st' qs' w. router_Route (Some \<lparr>rt_topics = [0 \<mapsto> [0]], rt_fanOut = FanOutShared, rt_hasPool = True\<rparr>)
      (fst (framePool_New (dl_store (dl_init [] 0 None)) None None)) [newFrameQueue 1 OverflowBlock] (Some 0) (\<lambda>_. (None, None))
      = Ret ((st', qs', []), w) \<and> refs_ok st' qs' ((\<lambda>_. 0)(0 := 0))"
proof -
  let ?init = "dl_store (dl_init [] 0 None)" and ?qs = "[newFrameQueue 1 OverflowBlock]"
  let ?rt = "\<lparr>rt_topics = [0 \<mapsto> [0]], rt_fanOut = FanOutShared, rt_hasPool = True\<rparr>"
  obtain st where st: "framePool_New ?init None None = (st, 0)" by (simp add: framePool_New_def dl_init_def)
  have o: "occ ?qs f = 0" for f using fq_ok_new(2) [of 1 OverflowBlock] by (simp add: occ_def)
  have "refs_ok ?init ?qs (\<lambda>_. 0)"
    unfolding refs_ok_def o using fq_ok_new(1) [of 1 OverflowBlock] by (simp add: live_def dl_init_def)
  from refs_ok_new [OF this st] have r: "refs_ok st ?qs ((\<lambda>_. 0)(0 := Suc 0))" .
  have t: "rt_list ?rt (Frame_Topic (fs_frames st 0)) = [0]"
    using framePool_New_frame(1) [OF st] by (simp add: rt_list_def)
  have p: "frameQueue_Push s (newFrameQueue 1 OverflowBlock) 0 = Ret (s, fq_enq (newFrameQueue 1 OverflowBlock) 0, Pushed)" for s
    by (rule Push_space [OF fq_ok_new(1)]) (simp_all add: newFrameQueue_def)
  have run: "\<exists>st' qs' w. router_Route (Some ?rt) st ?qs (Some 0) (\<lambda>_. (None, None)) = Ret ((st', qs', []), w)"
    using t p by (simp add: router_Route_def routeShared_def)
  then obtain st' qs' w where run: "router_Route (Some ?rt) st ?qs (Some 0) (\<lambda>_. (None, None)) = Ret ((st', qs', []), w)"
    by blast
  have "refs_ok st' qs' ((\<lambda>_. 0)(0 := 0))"
    by (rule route_keeps_counts [OF r o _ run], unfold t) simp
  then show ?thesis unfolding st fst_conv using run by blast
qed

subsection \<open>Sessions\<close>

text \<open>C2: a message whose size is covered by some bucket of the pool reaches its consumer: from the start of
  the message the read loop returns, after at most one round per bucket between the current and the
  needed size and one more, with exactly one new frame at the end of the consumer's queue, which
  carries the message and its topic, and no other queue changed.\<close>

theorem message_delivered:
  assumes "fs_buffers (rs_store s) = Some p" "pool_ok p" "rs_frameSize s \<in> set (bp_sizes p)" "rs_frameSize s \<le> x"
    and "x \<in> set (bp_sizes p)" "x \<le> max_alloc" "wc_pending (rs_conn s) = None"
    and "wsConn_Read (rs_conn s) (nat x) = (c', Inr (bs, mt))" "bs \<noteq> []" "mt \<in> {MessageText, MessageBinary}"
    and "\<forall>spare. decoder (text_of bs) spare = Ret (Some t)"
    and "rt_fanOut rt = FanOutShared" "rt_list rt t = [k]" "k < length (rs_queues s)"
    and "fq_ok (rs_queues s ! k)" "\<not> fq_closed (rs_queues s ! k)"
    and "fq_size (rs_queues s ! k) < length (fq_buf (rs_queues s ! k))"
  shows "\<exists>n s' f. n \<le> card {y \<in> set (bp_sizes p). rs_frameSize s < y \<and> y \<le> x} + 1
    \<and> readLoop rt decoder ch n s = Ret (s', ReadOn) \<and> rs_conn s' = c'
    \<and> fq_list (rs_queues s' ! k) = fq_list (rs_queues s ! k) @ [f] \<and> (\<forall>j. j \<noteq> k \<longrightarrow> rs_queues s' ! j = rs_queues s ! j)
    \<and> payload_of (Frame_Buf (fs_frames (rs_store s') f)) = bs \<and> Frame_Topic (fs_frames (rs_store s') f) = t"
  using readLoop_enqueues [where decoder = decoder and ch = ch, OF assms(1-10) spec [OF assms(11)] assms(12-17)] by auto

theorem message_delivered_witness:
  "\<exists>n s' f. readLoop \<lparr>rt_topics = [3 \<mapsto> [0]], rt_fanOut = FanOutShared, rt_hasPool = True\<rparr> (\<lambda>_ _. Ret (Some 3))
      (\<lambda>_. (0, None, None, \<lambda>_. (None, None))) n
      \<lparr>rs_conn = \<lparr>wc_input = frame_bytes True opText False [0, 0, 0, 0] (replicate 20 65), wc_output = [], wc_broken = False,
          wc_mask = 1, wc_pending = None\<rparr>,
       rs_store = dl_store (dl_init [] 0 (Some defaultBufferPool)), rs_queues = [newFrameQueue 4 OverflowBlock],
       rs_frameSize = 16\<rparr> = Ret (s', ReadOn)
    \<and> n \<le> 2 \<and> fq_list (rs_queues s' ! 0) = [f]
    \<and> payload_of (Frame_Buf (fs_frames (rs_store s') f)) = replicate 20 65"
proof -
  let ?s = "\<lparr>rs_conn = \<lparr>wc_input = frame_bytes True opText False [0, 0, 0, 0] (replicate 20 65), wc_output = [], wc_broken = False,
          wc_mask = 1, wc_pending = None\<rparr>,
       rs_store = dl_store (dl_init [] 0 (Some defaultBufferPool)), rs_queues = [newFrameQueue 4 OverflowBlock],
       rs_frameSize = 16\<rparr>"
  let ?rt = "\<lparr>rt_topics = [3 \<mapsto> [0]], rt_fanOut = FanOutShared, rt_hasPool = True\<rparr>"
  have sz: "bp_sizes defaultBufferPool = [16, 256, 4096, 65536, 4294967296, 9223372036854775807]" by code_simp
  have ok: "pool_ok defaultBufferPool" unfolding defaultBufferPool_def by (rule pool_ok_new)
  have "snd (wsConn_Read (rs_conn ?s) 256) = Inr (replicate 20 65, MessageText)" by code_simp
  then obtain c' where rd: "wsConn_Read (rs_conn ?s) (nat 256) = (c', Inr (replicate 20 65, MessageText))"
    by (metis nat_numeral prod.collapse)
  have q: "fq_ok (newFrameQueue 4 OverflowBlock)" "\<not> fq_closed (newFrameQueue 4 OverflowBlock)"
      "fq_size (newFrameQueue 4 OverflowBlock) < length (fq_buf (newFrameQueue 4 OverflowBlock))"
    by (rule fq_ok_new(1)) (simp_all add: newFrameQueue_def)
  have "{y \<in> set (bp_sizes defaultBufferPool). (16 :: int) < y \<and> y \<le> 256} = {256}" unfolding sz by auto
  then have c: "card {y \<in> set (bp_sizes defaultBufferPool). rs_frameSize ?s < y \<and> y \<le> 256} = 1" by simp
  have m: "(16 :: int) \<in> set (bp_sizes defaultBufferPool)" "(256 :: int) \<in> set (bp_sizes defaultBufferPool)" unfolding sz by simp_all
  obtain n s' f where "n \<le> card {y \<in> set (bp_sizes defaultBufferPool). rs_frameSize ?s < y \<and> y \<le> 256} + 1"
      "readLoop ?rt (\<lambda>_ _. Ret (Some 3)) (\<lambda>_. (0, None, None, \<lambda>_. (None, None))) n ?s = Ret (s', ReadOn)"
      "fq_list (rs_queues s' ! 0) = fq_list (rs_queues ?s ! 0) @ [f]"
      "payload_of (Frame_Buf (fs_frames (rs_store s') f)) = replicate 20 65"
    using message_delivered [of ?s defaultBufferPool 256 c' "replicate 20 65" MessageText "\<lambda>_ _. Ret (Some 3)" 3 ?rt 0
        "\<lambda>_. (0, None, None, \<lambda>_. (None, None))"] ok m q rd
    by (auto simp: dl_init_def rt_list_def max_alloc_def)
  then show ?thesis unfolding c
    by (intro exI [of _ n] exI [of _ s'] exI [of _ f]) (simp add: fq_ok_new(2))
qed

text \<open>While connected with room in the queue, sending a control message puts exactly the message the
  encoder made at the end of the queue, also when it did not fit the first buffer, and only that.\<close>

lemma control_message_queued:
  assumes "op_buffers p = Some bp" "pool_ok bp" "0 < ss_controlBufSize s" "x \<in> set (bp_sizes bp)"
    and "ss_controlBufSize s \<le> x" "x \<le> max_alloc"
    and "encode 0 = Inr (mt, bs)" "encode 1 = Inr (mt, bs)" "int (length bs) \<le> x"
    and "wr_connected (ss_writer s)" "length (wr_queue (ss_writer s)) < wr_cap (ss_writer s)"
  shows "\<exists>p' frame. sendControl s p encode choice reuse
      = Ret (s\<lparr>ss_writer := (ss_writer s)\<lparr>wr_queue := wr_queue (ss_writer s) @ [frame]\<rparr>\<rparr>, p', Sent)
    \<and> of_MsgType frame = mt \<and> payload_of (of_Buf frame) = bs"
  using sendControl_sent [OF assms, of choice reuse] by metis

lemma control_message_queued_witness:
  "\<exists>s' p'. sendControl ((newSession 1 True 4 OverflowBlock (Some defaultBufferPool))\<lparr>
        ss_writer := (newWriter True 4 OverflowBlock)\<lparr>wr_connected := True\<rparr>\<rparr>) (newOutboundPool (Some defaultBufferPool))
      (\<lambda>_. Inr (MessageText, replicate 20 65)) (\<lambda>_. None) False = Ret (s', p', Sent)
    \<and> map of_MsgType (wr_queue (ss_writer s')) = [MessageText]"
proof -
  let ?s = "(newSession 1 True 4 OverflowBlock (Some defaultBufferPool))\<lparr>
        ss_writer := (newWriter True 4 OverflowBlock)\<lparr>wr_connected := True\<rparr>\<rparr>"
  have sz: "bp_sizes defaultBufferPool = [16, 256, 4096, 65536, 4294967296, 9223372036854775807]" by code_simp
  have ok: "pool_ok defaultBufferPool" unfolding defaultBufferPool_def by (rule pool_ok_new)
  have i: "ss_controlBufSize ?s = 16" by (simp add: newSession_def bufferPool_InitSize_def bufferPool_sizeAt_def sz)
  have "\<exists>p' frame. sendControl ?s (newOutboundPool (Some defaultBufferPool)) (\<lambda>_. Inr (MessageText, replicate 20 65)) (\<lambda>_. None) False
      = Ret (?s\<lparr>ss_writer := (ss_writer ?s)\<lparr>wr_queue := wr_queue (ss_writer ?s) @ [frame]\<rparr>\<rparr>, p', Sent)
    \<and> of_MsgType frame = MessageText \<and> payload_of (of_Buf frame) = replicate 20 65"
    by (rule control_message_queued [of _ defaultBufferPool _ 256])
      (use ok i in \<open>simp_all add: newOutboundPool_def sz max_alloc_def newWriter_def\<close>)
  then show ?thesis by (auto simp: newWriter_def)
qed

text \<open>C27: when a session has reconnected and begins to serve, the topics marked active are exactly the
  desired ones: every topic registered while it was away is subscribed again.\<close>

theorem resubscribed_after_connect:
  assumes "run_connect s p attempt onConnect enc order choice reuse = Ret (s', p', a, RunServe)"
    and "su_desired (ss_subscriptions s) \<subseteq> set order"
  shows "su_active (ss_subscriptions s') = su_desired (ss_subscriptions s')"
  using assms by (rule run_connect_active)

theorem resubscribed_after_connect_witness:
  "\<exists>s' p' a. run_connect ((newSession 1 True 4 OverflowBlock (Some defaultBufferPool))\<lparr>
        ss_writer := (newWriter True 4 OverflowBlock)\<lparr>wr_connected := True\<rparr>, ss_connected := True,
        ss_subscriptions := \<lparr>su_desired = {5}, su_active = {}\<rparr>\<rparr>)
      (newOutboundPool (Some defaultBufferPool)) 0 None
      (Some \<lparr>en_subscribe = (\<lambda>t n. Inr (MessageText, [65])), en_unsubscribe = (\<lambda>t n. Inl ())\<rparr>) [5] (\<lambda>_ _. None) False
      = Ret (s', p', a, RunServe) \<and> su_active (ss_subscriptions s') = {5}"
proof -
  let ?s = "(newSession 1 True 4 OverflowBlock (Some defaultBufferPool))\<lparr>
        ss_writer := (newWriter True 4 OverflowBlock)\<lparr>wr_connected := True\<rparr>, ss_connected := True,
        ss_subscriptions := \<lparr>su_desired = {5}, su_active = {}\<rparr>\<rparr>"
  let ?r = "run_connect ?s (newOutboundPool (Some defaultBufferPool)) 0 None
      (Some \<lparr>en_subscribe = (\<lambda>t n. Inr (MessageText, [65])), en_unsubscribe = (\<lambda>t n. Inl ())\<rparr>) [5] (\<lambda>_ _. None) False"
  have "(case ?r of Ret (s', p', a, n) \<Rightarrow> n = RunServe \<and> su_desired (ss_subscriptions s') = {5} | Panic \<Rightarrow> False)" by code_simp
  then obtain s' p' a where r: "?r = Ret (s', p', a, RunServe)" "su_desired (ss_subscriptions s') = {5}"
    by (auto split: go.splits)
  have "su_active (ss_subscriptions s') = {5}"
    unfolding r(2) [symmetric] by (rule resubscribed_after_connect [OF r(1)]) simp
  then show ?thesis using r(1) by blast
qed

text \<open>A session whose goroutine has ended once cannot be run again: it starts, but its next end closes
  the channel \<open>done\<close> a second time and panics. Running a manager again after its context ended does this
  to every session it still has.\<close>

lemma session_restart_panics:
  assumes "session_exit s = Ret s1"
  shows "ss_running (session_start s1 True) \<and> session_exit (session_start s1 True) = Panic"
  using assms by (auto simp: session_exit_def session_start_def split: if_splits)

lemma session_restart_panics_witness:
  "session_exit (session_start ((newSession 1 True 4 OverflowBlock None)\<lparr>ss_done := True\<rparr>) True) = Panic"
proof -
  have "session_exit ((newSession 1 True 4 OverflowBlock None)\<lparr>ss_running := True\<rparr>)
      = Ret ((newSession 1 True 4 OverflowBlock None)\<lparr>ss_done := True\<rparr>)"
    by (simp add: session_exit_def newSession_def)
  from session_restart_panics [OF this] show ?thesis by blast
qed

text \<open>Without jitter, and with a factor of 2, the wait before attempt \<open>n\<close> is the minimum doubled \<open>n - 1\<close>
  times and capped by the maximum, with no rounding, for maxima below \<open>2 ^ 52\<close> nanoseconds (52 days).\<close>

lemma backoff_doubles:
  assumes "0 < Backoff_Min b" "Backoff_Min b \<le> Backoff_Max b" "Backoff_Max b < 2 ^ 52"
    and "Backoff_Factor b = Fin 2" "f64_le (Backoff_Jitter b) 0" "1 \<le> attempt"
  shows "Backoff_Next env r b attempt = min (Backoff_Min b * 2 ^ nat (attempt - 1)) (Backoff_Max b)"
  using assms backoff_loop_double [OF assms(1-3), of env "nat (attempt - 1)"] by (simp add: Backoff_Next_def)

lemma backoff_doubles_witness:
  "Backoff_Next \<lparr>go_now = 0, parseFloat_other = (\<lambda>_. None), int64_other = (\<lambda>_. 0)\<rparr> (Fin 0)
    \<lparr>Backoff_Min = 250000000, Backoff_Max = 5000000000, Backoff_Factor = Fin 2, Backoff_Jitter = Fin 0\<rparr> 4 = 2000000000"
  by (subst backoff_doubles) simp_all

text \<open>A buffer from the pool has the length asked for and at least that capacity, the pool stays
  consistent, and the next bucket of a size is the smallest larger bucket, or 0 when there is none.\<close>

lemma pool_buffers_fit:
  assumes "pool_ok p" "0 < s"
  shows "(bufferPool_Get (Some p) s choice = Ret (p', Some b) \<longrightarrow> int (buf_len b) = s \<and> s \<le> int (length (buf_data b))
      \<and> (\<exists>q. p' = Some q \<and> pool_ok q \<and> bp_sizes q = bp_sizes p))
    \<and> (bufferPool_NextBucketSize (Some p) s = 0 \<and> (\<forall>x \<in> set (bp_sizes p). x \<le> s)
      \<or> bufferPool_NextBucketSize (Some p) s \<in> set (bp_sizes p) \<and> s < bufferPool_NextBucketSize (Some p) s
        \<and> (\<forall>x \<in> set (bp_sizes p). s < x \<longrightarrow> bufferPool_NextBucketSize (Some p) s \<le> x))"
  using Get_ok [OF assms] NextBucketSize_spec [OF assms] by blast

lemma pool_buffers_fit_witness:
  "bufferPool_NextBucketSize (Some defaultBufferPool) 65536 \<in> set (bp_sizes defaultBufferPool)
    \<and> 65536 < bufferPool_NextBucketSize (Some defaultBufferPool) 65536"
proof -
  have ok: "pool_ok defaultBufferPool" unfolding defaultBufferPool_def by (rule pool_ok_new)
  have "bufferPool_NextBucketSize (Some defaultBufferPool) 65536 \<noteq> 0" by code_simp
  then show ?thesis using pool_buffers_fit [OF ok, of 65536] by auto
qed

subsection \<open>The manager\<close>

text \<open>C4: in every reachable state of a manager each subscribed topic is desired by exactly one session, which
  is in the list, and each session in the list has between one topic and \<open>MaxTopicsPerConn\<close> of them; no
  session is in the list twice.\<close>

theorem manager_registry:
  assumes "mg_reach m"
  shows "distinct (mg_sessions m)
    \<and> (\<forall>t i. mg_subscriptions m t = Some i \<longleftrightarrow> i \<in> set (mg_sessions m) \<and> t \<in> mg_desired m i)
    \<and> (\<forall>i \<in> set (mg_sessions m). mg_desired m i \<noteq> {} \<and> int (card (mg_desired m i)) \<le> MaxTopicsPerConn (mg_opt m))"
  using mg_reach_ok [OF assms] unfolding mg_ok_def by blast

theorem manager_registry_witness:
  "\<exists>m :: unit manager. mg_subscriptions m 5 = Some 1 \<and> mg_sessions m = [1] \<and> 5 \<in> mg_desired m 1"
proof -
  let ?enc = "\<lparr>en_subscribe = (\<lambda>t n. Inr (MessageText, [65])), en_unsubscribe = (\<lambda>t n. Inl ())\<rparr> :: unit encoder"
  have ok: "(case manager_New True True (Some ?enc) [] of Inl e \<Rightarrow> False | Inr m \<Rightarrow>
      (case manager_Subscribe (Some m) 5 (\<lambda>_. None) False of
         Ret (Some m', r) \<Rightarrow> mg_subscriptions m' 5 = Some 1 \<and> mg_sessions m' = [1] | _ \<Rightarrow> False))"
    by (simp add: manager_eval)
  then obtain m m' r where n: "manager_New True True (Some ?enc) [] = Inr m"
    and s: "manager_Subscribe (Some m) 5 (\<lambda>_. None) False = Ret (Some m', r)" "mg_subscriptions m' 5 = Some 1" "mg_sessions m' = [1]"
    by (auto split: sum.splits go.splits option.splits)
  have "mg_reach m'" by (rule mg_reach.step [OF mg_reach.new [OF n] mg_step.subscribe [OF s(1)]])
  from manager_registry [OF this] s(2,3) show ?thesis by blast
qed

text \<open>Once \<open>Subscribe\<close> has reached the registry, the topic is registered even when it returns an error,
  such as a refused control message; a second \<open>Subscribe\<close> of the topic is then refused.\<close>

lemma subscribe_error_keeps_topic:
  assumes "mg_reach m" "mg_encoder m \<noteq> None" "mg_ctx m \<noteq> Some True" "mg_subscriptions m t = None"
    and "manager_Subscribe (Some m) t choice reuse = Ret (m', r)"
  shows "\<exists>m1 i. m' = Some m1 \<and> mg_subscriptions m1 = (mg_subscriptions m)(t \<mapsto> i) \<and> i \<in> set (mg_sessions m1)"
  using manager_Subscribe_ok [OF mg_reach_ok [OF assms(1)] assms(5)] assms(2-4) by blast

lemma subscribe_error_keeps_topic_witness:
  "\<exists>(m :: unit manager) m1. manager_Subscribe (Some m) 6 (\<lambda>_. None) False = Ret (Some m1, SendErr (EncErr ()))
     \<and> mg_subscriptions m1 6 \<noteq> None"
proof -
  let ?enc = "\<lparr>en_subscribe = (\<lambda>t n. if t = 5 then Inr (MessageText, [65]) else Inl ()), en_unsubscribe = (\<lambda>t n. Inl ())\<rparr> :: unit encoder"
  let ?c = "\<lambda>m. mg_put 1 (fst (run_head (mg_store m 1) 0 False True)) (mg_outbound m) m"
  have i: "bufferPool_InitSize (Some defaultBufferPool) = 16" by code_simp
  have "(case bufferPool_Get (Some defaultBufferPool) 16 None of Ret (p, b) \<Rightarrow> p \<noteq> None | _ \<Rightarrow> False)" by code_simp
  then obtain bp buf where g: "bufferPool_Get (Some defaultBufferPool) 16 None = Ret (bp, buf)"
    by (auto split: go.splits)
  have ok: "(case manager_New True True (Some ?enc) [] of Inl e \<Rightarrow> False | Inr m \<Rightarrow>
      (case manager_Subscribe (Some m) 5 (\<lambda>_. None) False of
         Ret (Some m', r) \<Rightarrow> mg_encoder (?c m') \<noteq> None \<and> mg_ctx (?c m') \<noteq> Some True \<and> mg_subscriptions (?c m') 6 = None
           \<and> (case manager_Subscribe (Some (?c m')) 6 (\<lambda>_. None) False of
               Ret (x, r) \<Rightarrow> r = SendErr (EncErr ()) | Panic \<Rightarrow> False) | _ \<Rightarrow> False))"
    by (simp add: manager_eval i g)
  then obtain m where n: "manager_New True True (Some ?enc) [] = Inr m"
    by (cases "manager_New True True (Some ?enc) []") simp_all
  note ok = ok [unfolded n sum.case]
  obtain m' r where s: "manager_Subscribe (Some m) 5 (\<lambda>_. None) False = Ret (Some m', r)"
  proof (cases "manager_Subscribe (Some m) 5 (\<lambda>_. None) False")
    case (Ret y)
    obtain z r where y: "y = (z, r)" by (cases y)
    show thesis using ok that unfolding Ret y by (cases z) simp_all
  next
    case Panic
    then show thesis using ok by (simp only: go.case)
  qed
  note ok = ok [unfolded s go.case prod.case option.case]
  obtain x where c: "mg_encoder (?c m') \<noteq> None" "mg_ctx (?c m') \<noteq> Some True" "mg_subscriptions (?c m') 6 = None"
      "manager_Subscribe (Some (?c m')) 6 (\<lambda>_. None) False = Ret (x, SendErr (EncErr ()))"
  proof (cases "manager_Subscribe (Some (?c m')) 6 (\<lambda>_. None) False")
    case (Ret y)
    obtain z r where y: "y = (z, r)" by (cases y)
    note ok = ok [unfolded Ret y go.case prod.case]
    show thesis by (rule that) (use ok Ret y in \<open>blast+\<close>)
  next
    case Panic
    with ok show thesis by (simp only: go.case) blast
  qed
  have "mg_reach m'" by (rule mg_reach.step [OF mg_reach.new [OF n] mg_step.subscribe [OF s]])
  moreover have "mg_step m' (?c m')"
    by (cases "run_head (mg_store m' 1) 0 False True") (auto intro: mg_step.connect)
  ultimately have "mg_reach (?c m')" by (rule mg_reach.step)
  from subscribe_error_keeps_topic [OF this c] c(4) show ?thesis by fastforce
qed

end
