(* ===== verification/Ingest_Usecase.thy ===== *)
theory Ingest_Usecase
  imports Codec_Laws Ws_Manager_Reach Exceptions
begin

section \<open>The ingest use case\<close>

text \<open>
  \<open>bundle/internal/ingest/usecase.go\<close>. A group per platform and API key owns a manager, a codec and the
  topics subscribed through it. Groups and topic states are shared by pointer; they live in lists that only
  grow and are named by their position. The codec is one object, used by the group and by its manager as
  decoder and encoder, so the manager's encoder is brought up to date before each call. A call that blocks
  on a full outbound queue has the result \<open>UseWait\<close> and holds the locks it has. \<open>low\<close> is
  \<open>strings.ToLower\<close> on text outside ASCII.
\<close>

datatype platformCodec = BinanceCodec binance_codec | BtccCodec btcc_codec

record topicState =
  ts_topic :: Topic
  ts_arg :: string
  ts_symbol :: Symbol
  ts_topicID :: TopicID
  ts_refCount :: int

type_synonym topicKey = "Topic \<times> string"
type_synonym groupKey = "Platform \<times> string"

record wsGroup =
  gr_manager :: "codec_error manager"
  gr_codec :: platformCodec
  gr_topics :: "topicKey \<rightharpoonup> nat"
  gr_topicsByID :: "TopicID \<rightharpoonup> nat"
  gr_states :: "topicState list"
  gr_running :: bool
  gr_apiKey :: Str64
  gr_authReqID :: u64
  gr_platform :: Platform

record usecase =
  us_groups :: "groupKey \<rightharpoonup> nat"
  us_store :: "wsGroup list"
  us_currTopicID :: u32

datatype use_error = IngestErr ingest_error | ManagerErr "codec_error session_error" | RegisterErr codec_error

datatype use_result = UseDone "use_error option" | UseWait

subsection \<open>The codec interface\<close>

fun codec_Register ::
  "(string \<Rightarrow> string) \<Rightarrow> platformCodec \<Rightarrow> TopicID \<Rightarrow> IngestRequest \<Rightarrow> platformCodec \<times> codec_error option" where
  "codec_Register low (BinanceCodec c) topicID req =
     (case binance_Register low (Some c) topicID req of (c', e) \<Rightarrow> (BinanceCodec (the c'), e))"
| "codec_Register low (BtccCodec c) topicID req =
     (case btcc_Register (Some c) topicID req of (c', e) \<Rightarrow> (BtccCodec (the c'), e))"

fun codec_Unregister :: "platformCodec \<Rightarrow> TopicID \<Rightarrow> platformCodec" where
  "codec_Unregister (BinanceCodec c) topicID = BinanceCodec (the (binance_Unregister (Some c) topicID))"
| "codec_Unregister (BtccCodec c) topicID = BtccCodec (the (btcc_Unregister (Some c) topicID))"

fun codec_RegisterAuth :: "platformCodec \<Rightarrow> TopicID \<Rightarrow> string \<Rightarrow> u64 \<Rightarrow> platformCodec \<times> codec_error option" where
  "codec_RegisterAuth (BinanceCodec c) topicID apiKey reqID =
     (case binance_RegisterAuth (Some c) topicID apiKey reqID of (c', e) \<Rightarrow> (BinanceCodec (the c'), e))"
| "codec_RegisterAuth (BtccCodec c) topicID apiKey reqID =
     (case btcc_RegisterAuth (Some c) topicID apiKey reqID of (c', e) \<Rightarrow> (BtccCodec (the c'), e))"

fun codec_EncodeAuth :: "platformCodec \<Rightarrow> string \<Rightarrow> string \<Rightarrow> u64 \<Rightarrow> codec_error + MessageType \<times> string" where
  "codec_EncodeAuth (BinanceCodec c) dst apiKey reqID = binance_EncodeAuth (Some c) dst apiKey reqID"
| "codec_EncodeAuth (BtccCodec c) dst apiKey reqID = btcc_EncodeAuth (Some c) dst apiKey reqID"

fun codec_EncodeSubscribe :: "platformCodec \<Rightarrow> string \<Rightarrow> TopicID \<Rightarrow> (codec_error + MessageType \<times> string) go" where
  "codec_EncodeSubscribe (BinanceCodec c) dst topic = binance_EncodeSubscribe (Some c) dst topic"
| "codec_EncodeSubscribe (BtccCodec c) dst topic = btcc_EncodeSubscribe (Some c) dst topic"

fun codec_EncodeUnsubscribe :: "platformCodec \<Rightarrow> string \<Rightarrow> TopicID \<Rightarrow> (codec_error + MessageType \<times> string) go" where
  "codec_EncodeUnsubscribe (BinanceCodec c) dst topic = binance_EncodeUnsubscribe (Some c) dst topic"
| "codec_EncodeUnsubscribe (BtccCodec c) dst topic = btcc_EncodeUnsubscribe (Some c) dst topic"

fun codec_DecodeTopic :: "platformCodec \<Rightarrow> string \<Rightarrow> string \<Rightarrow> TopicID option go" where
  "codec_DecodeTopic (BinanceCodec c) payload spare = Ret (binance_DecodeTopic (Some c) payload)"
| "codec_DecodeTopic (BtccCodec c) payload spare = btcc_DecodeTopic (Some c) payload spare"

text \<open>The encoder a manager sees; the encoders of a codec that is there do not panic.\<close>

definition to_encode :: "(codec_error + MessageType \<times> string) go \<Rightarrow> codec_error encode" where
  "to_encode r = (\<lambda>_. case r of Ret x \<Rightarrow> map_sum id (map_prod id bytes_of) x | Panic \<Rightarrow> Inl Codec_ErrWebSocketProtocol)"

definition codec_encoder :: "platformCodec \<Rightarrow> codec_error encoder" where
  "codec_encoder c = \<lparr>en_subscribe = (\<lambda>t. to_encode (codec_EncodeSubscribe c [] t)),
     en_unsubscribe = (\<lambda>t. to_encode (codec_EncodeUnsubscribe c [] t))\<rparr>"

lemma codec_encodes: "codec_EncodeSubscribe c dst t \<noteq> Panic" "codec_EncodeUnsubscribe c dst t \<noteq> Panic"
  by (cases c; simp add: btcc_EncodeSubscribe_def btcc_EncodeUnsubscribe_def binance_EncodeSubscribe_def
      binance_EncodeUnsubscribe_def split: option.split)+

definition group_manager :: "wsGroup \<Rightarrow> codec_error manager" where
  "group_manager g = (gr_manager g)\<lparr>mg_encoder := Some (codec_encoder (gr_codec g))\<rparr>"

subsection \<open>Groups\<close>

definition newGroup :: "Platform \<Rightarrow> Str64 \<Rightarrow> use_error + wsGroup" where
  "newGroup platform apiKey =
     (let make = (\<lambda>codec.
        case manager_New True True (Some (codec_encoder codec)) [zero_option\<lparr>FanOut := FanOutShared\<rparr>] of
          Inl e \<Rightarrow> Inl (ManagerErr (WsErr e))
        | Inr m \<Rightarrow> Inr \<lparr>gr_manager = m, gr_codec = codec, gr_topics = Map.empty, gr_topicsByID = Map.empty,
            gr_states = [], gr_running = False, gr_apiKey = apiKey, gr_authReqID = 0, gr_platform = platform\<rparr>)
      in if platform = PlatformBinance then make (BinanceCodec binance_NewCodec)
         else if platform = PlatformBTCC then make (BtccCodec btcc_NewCodec)
         else Inl (IngestErr ErrIngestUnsupportedPlatform))"

text \<open>The hook \<open>OnConnect\<close>: the authentication message, when the group has an API key. The second result
  says how the hook ended; it waits on a full blocking queue.\<close>

datatype hook_result = HookOk | HookErr "codec_error session_error" | HookWait

definition group_OnConnect ::
  "wsGroup \<Rightarrow> writer \<Rightarrow> outboundPool \<Rightarrow> nat option \<Rightarrow> bool \<Rightarrow> (writer \<times> outboundPool \<times> hook_result) go" where
  "group_OnConnect g w p choice reuse =
     (if Str64_Len (gr_apiKey g) = 0 then Ret (w, p, HookOk)
      else case codec_EncodeAuth (gr_codec g) [] (Str64_String (gr_apiKey g)) (gr_authReqID g) of
        Inl e \<Rightarrow> Ret (w, p, HookErr (EncErr e))
      | Inr (msgType, payload) \<Rightarrow>
          go_bind (writer_Send w p msgType (bytes_of payload) choice reuse) (\<lambda>(w, p, r).
            Ret (w, p, case r of Accepted \<Rightarrow> HookOk | Refused \<Rightarrow> HookErr (WsErr ErrQueueFull) | EnqueueWait \<Rightarrow> HookWait)))"

text \<open>\<open>start\<close> sets the flag and starts a goroutine, which runs the manager and clears the flag when
  \<open>Run\<close> returns: at once when the manager runs already, else after its context is done.\<close>

definition group_start :: "wsGroup \<Rightarrow> wsGroup \<times> bool" where
  "group_start g = (if gr_running g then (g, False) else (g\<lparr>gr_running := True\<rparr>, True))"

definition group_run :: "wsGroup \<Rightarrow> wsGroup" where
  "group_run g =
     (case manager_RunStart (Some (group_manager g)) of
        (m, None) \<Rightarrow> g\<lparr>gr_manager := the m\<rparr>
      | (m, Some e) \<Rightarrow> g\<lparr>gr_manager := the m, gr_running := False\<rparr>)"

definition group_run_end :: "wsGroup \<Rightarrow> wsGroup" where
  "group_run_end g = g\<lparr>gr_manager := manager_RunStop (gr_manager g), gr_running := False\<rparr>"

subsection \<open>Topics\<close>

definition nextTopicID :: "u32 \<Rightarrow> u32 \<times> TopicID" where
  "nextTopicID currID = (currID + 1, currID + 1)"

datatype ensure_result = Ensured nat | EnsureErr use_error | EnsureWait

definition ensureTopic ::
  "(string \<Rightarrow> string) \<Rightarrow> wsGroup \<Rightarrow> u32 \<Rightarrow> Topic \<Rightarrow> Symbol \<Rightarrow> (nat \<Rightarrow> nat option) \<Rightarrow> bool
     \<Rightarrow> (wsGroup \<times> u32 \<times> ensure_result) go" where
  "ensureTopic low g currID topic symbol choice reuse =
     (let symbolStr = Symbol_String symbol; key = (topic, symbolStr) in
      case gr_topics g key of
        Some existing \<Rightarrow> Ret (g, currID, Ensured existing)
      | None \<Rightarrow>
          let (currID, topicID) = nextTopicID currID;
              (codec, err) = codec_Register low (gr_codec g) topicID
                \<lparr>Ingest_Platform = gr_platform g, Ingest_Topic = topic, Ingest_Symbol = symbol, Ingest_APIKey = gr_apiKey g\<rparr>;
              g = g\<lparr>gr_codec := codec\<rparr>
          in case err of
               Some e \<Rightarrow> Ret (g, currID, EnsureErr (RegisterErr e))
             | None \<Rightarrow>
                 go_bind (manager_Subscribe (Some (group_manager g)) topicID choice reuse) (\<lambda>(m, r).
                   let g = g\<lparr>gr_manager := the m\<rparr> in
                   case r of
                     SendErr e \<Rightarrow> Ret (g\<lparr>gr_codec := codec_Unregister (gr_codec g) topicID\<rparr>, currID, EnsureErr (ManagerErr e))
                   | SendWait \<Rightarrow> Ret (g, currID, EnsureWait)
                   | Sent \<Rightarrow>
                       let p = length (gr_states g);
                           state = \<lparr>ts_topic = topic, ts_arg = symbolStr, ts_symbol = symbol, ts_topicID = topicID, ts_refCount = 0\<rparr>
                       in Ret (g\<lparr>gr_states := gr_states g @ [state], gr_topics := (gr_topics g)(key \<mapsto> p),
                                 gr_topicsByID := (gr_topicsByID g)(topicID \<mapsto> p)\<rparr>, currID, Ensured p)))"

subsection \<open>The use case\<close>

definition NewUsecase :: usecase where
  "NewUsecase = \<lparr>us_groups = Map.empty, us_store = [], us_currTopicID = 0\<rparr>"

definition getGroup :: "usecase option \<Rightarrow> Platform \<Rightarrow> Str64 \<Rightarrow> nat option" where
  "getGroup use platform apiKey =
     (case use of None \<Rightarrow> None | Some u \<Rightarrow> us_groups u (platform, Str64_String apiKey))"

definition us_put :: "nat \<Rightarrow> wsGroup \<Rightarrow> usecase \<Rightarrow> usecase" where
  "us_put i g u = u\<lparr>us_store := (us_store u)[i := g]\<rparr>"

definition getOrCreateGroup :: "usecase \<Rightarrow> Platform \<Rightarrow> Str64 \<Rightarrow> usecase \<times> (use_error + nat)" where
  "getOrCreateGroup u platform apiKey =
     (if \<not> Platform_IsAvailable platform then (u, Inl (IngestErr ErrIngestInvalidRequest))
      else
        let key = (platform, Str64_String apiKey);
            (currID, authReqID) = (if 0 < Str64_Len apiKey
              then (let (currID, t) = nextTopicID (us_currTopicID u) in (currID, ucast t)) else (us_currTopicID u, 0));
            u = u\<lparr>us_currTopicID := currID\<rparr>
        in case us_groups u key of
             Some i \<Rightarrow> (us_put i (fst (group_start (us_store u ! i))) u, Inr i)
           | None \<Rightarrow>
               (case newGroup platform apiKey of
                  Inl e \<Rightarrow> (u, Inl e)
                | Inr g \<Rightarrow>
                    let (g, err) = (if 0 < Str64_Len apiKey
                          then (let (codec, err) = codec_RegisterAuth (gr_codec g) (ucast authReqID) (snd key) authReqID
                                in (g\<lparr>gr_authReqID := authReqID, gr_codec := codec\<rparr>, err))
                          else (g, None))
                    in case err of
                         Some e \<Rightarrow> (u, Inl (RegisterErr e))
                       | None \<Rightarrow>
                           let i = length (us_store u) in
                           (u\<lparr>us_groups := (us_groups u)(key \<mapsto> i), us_store := us_store u @ [fst (group_start g)]\<rparr>, Inr i)))"

definition bump :: "nat \<Rightarrow> int \<Rightarrow> wsGroup \<Rightarrow> wsGroup" where
  "bump p k g = g\<lparr>gr_states := (gr_states g)[p := (gr_states g ! p)\<lparr>ts_refCount := ts_refCount (gr_states g ! p) + k\<rparr>]\<rparr>"

definition usecase_Subscribe ::
  "(string \<Rightarrow> string) \<Rightarrow> usecase option \<Rightarrow> Platform \<Rightarrow> Str64 \<Rightarrow> Topic \<Rightarrow> Symbol \<Rightarrow> nat option
     \<Rightarrow> (nat \<Rightarrow> nat option) \<Rightarrow> bool \<Rightarrow> (usecase option \<times> use_result) go" where
  "usecase_Subscribe low use platform apiKey topic symbol consumer choice reuse =
     (case use of
        None \<Rightarrow> Ret (None, UseDone (Some (IngestErr ErrIngestInvalidRequest)))
      | Some u \<Rightarrow>
          if \<not> Platform_IsAvailable platform \<or> \<not> Topic_IsAvailable topic
          then Ret (Some u, UseDone (Some (IngestErr ErrIngestInvalidRequest)))
          else if consumer = None then Ret (Some u, UseDone (Some (IngestErr ErrIngestNilConsumer)))
          else case getOrCreateGroup u platform apiKey of
            (u, Inl e) \<Rightarrow> Ret (Some u, UseDone (Some e))
          | (u, Inr i) \<Rightarrow>
              go_bind (ensureTopic low (us_store u ! i) (us_currTopicID u) topic symbol choice reuse) (\<lambda>(g, currID, r).
                let u = (us_put i g u)\<lparr>us_currTopicID := currID\<rparr> in
                case r of
                  EnsureErr e \<Rightarrow> Ret (Some u, UseDone (Some e))
                | EnsureWait \<Rightarrow> Ret (Some u, UseWait)
                | Ensured p \<Rightarrow>
                    let (m, err) = manager_AddConsumer (Some (gr_manager g)) (ts_topicID (gr_states g ! p)) consumer;
                        g = g\<lparr>gr_manager := the m\<rparr>
                    in case err of
                         Some e \<Rightarrow> Ret (Some (us_put i g u), UseDone (Some (ManagerErr (WsErr e))))
                       | None \<Rightarrow> Ret (Some (us_put i (bump p 1 g) u), UseDone None)))"

definition usecase_Unsubscribe ::
  "usecase option \<Rightarrow> Platform \<Rightarrow> Str64 \<Rightarrow> Topic \<Rightarrow> Symbol \<Rightarrow> nat option
     \<Rightarrow> (nat \<Rightarrow> nat option) \<Rightarrow> bool \<Rightarrow> (usecase option \<times> use_result) go" where
  "usecase_Unsubscribe use platform apiKey topic symbol consumer choice reuse =
     (case use of
        None \<Rightarrow> Ret (None, UseDone (Some (IngestErr ErrIngestInvalidRequest)))
      | Some u \<Rightarrow>
          if \<not> Platform_IsAvailable platform \<or> \<not> Topic_IsAvailable topic
          then Ret (Some u, UseDone (Some (IngestErr ErrIngestInvalidRequest)))
          else if consumer = None then Ret (Some u, UseDone (Some (IngestErr ErrIngestNilConsumer)))
          else case getGroup use platform apiKey of
            None \<Rightarrow> Ret (Some u, UseDone (Some (IngestErr ErrIngestUnknownTopic)))
          | Some i \<Rightarrow>
              let g = us_store u ! i; key = (topic, Symbol_String symbol) in
              case gr_topics g key of
                None \<Rightarrow> Ret (Some u, UseDone (Some (IngestErr ErrIngestUnknownTopic)))
              | Some p \<Rightarrow>
                  let topicID = ts_topicID (gr_states g ! p);
                      (m, err) = manager_RemoveConsumer (Some (gr_manager g)) topicID consumer;
                      g = g\<lparr>gr_manager := the m\<rparr>
                  in case err of
                       Some e \<Rightarrow> Ret (Some (us_put i g u), UseDone (Some (ManagerErr (WsErr e))))
                     | None \<Rightarrow>
                         let g = bump p (- 1) g in
                         if ts_refCount (gr_states g ! p) \<le> 0 then
                           let g = g\<lparr>gr_topics := (gr_topics g)(key := None), gr_topicsByID := (gr_topicsByID g)(topicID := None)\<rparr>;
                               g = g\<lparr>gr_codec := codec_Unregister (gr_codec g) topicID\<rparr>
                           in go_bind (manager_Unsubscribe (Some (group_manager g)) topicID choice reuse) (\<lambda>(m, r).
                                Ret (Some (us_put i (g\<lparr>gr_manager := the m\<rparr>) u), if r = SendWait then UseWait else UseDone None))
                         else Ret (Some (us_put i g u), UseDone None))"

definition usecase_Resolve :: "usecase option \<Rightarrow> Platform \<Rightarrow> Str64 \<Rightarrow> TopicID \<Rightarrow> (Topic \<times> Symbol) option" where
  "usecase_Resolve use platform apiKey topicID =
     (case use of
        None \<Rightarrow> None
      | Some u \<Rightarrow>
          if \<not> Platform_IsAvailable platform then None
          else case getGroup use platform apiKey of
            None \<Rightarrow> None
          | Some i \<Rightarrow>
              (case gr_topicsByID (us_store u ! i) topicID of
                 None \<Rightarrow> None
               | Some p \<Rightarrow> Some (ts_topic (gr_states (us_store u ! i) ! p), ts_symbol (gr_states (us_store u ! i) ! p))))"

end
