(* ===== verification/Ingest_Laws.thy ===== *)
theory Ingest_Laws
  imports Ingest_Usecase
begin

section \<open>The topics of the ingest use case\<close>

text \<open>
  The tables of a group agree with each other, with the manager and with the codec, and topic ids come from
  one counter, so they are fresh until it wraps around after \<open>2 ^ 32\<close> ids.
\<close>

subsection \<open>The codec interface\<close>

fun codec_known :: "platformCodec \<Rightarrow> TopicID \<Rightarrow> bool" where
  "codec_known (BinanceCodec c) t = binance_known c t"
| "codec_known (BtccCodec c) t = btcc_known c t"

lemma codec_Register_known:
  "codec_Register low c t req = (c', e) \<Longrightarrow> codec_known c' u \<longleftrightarrow> codec_known c u \<or> u = t \<and> e = None"
  by (cases c) (auto split: prod.splits dest!: binance_tables.known_reg [where u = u] btcc_tables.known_reg [where u = u])

lemma codec_Unregister_known [simp]: "codec_known (codec_Unregister c t) u \<longleftrightarrow> codec_known c u \<and> u \<noteq> t"
proof (cases c)
  case (BinanceCodec b)
  then show ?thesis using binance_tables.known_unreg [of b t u] by auto
next
  case (BtccCodec b)
  then show ?thesis using btcc_tables.known_unreg [of b t u] by auto
qed

lemma codec_RegisterAuth_known: "codec_RegisterAuth c t key n = (c', e) \<Longrightarrow> codec_known c' u = codec_known c u"
  by (cases c) (auto split: prod.splits dest!: binance_tables.known_auth [where u = u] btcc_tables.known_auth [where u = u])

text \<open>A codec refuses to encode control messages of a topic it does not know.\<close>

fun codec_auth_topic :: "platformCodec \<Rightarrow> TopicID \<Rightarrow> bool" where
  "codec_auth_topic (BinanceCodec c) t = binance_isAuthTopic c t"
| "codec_auth_topic (BtccCodec c) t = btcc_isAuthTopic c t"

lemma codec_encoder_unknown:
  "\<not> codec_known c t \<Longrightarrow> \<not> codec_auth_topic c t \<Longrightarrow>
     en_unsubscribe (codec_encoder c) t n = Inl Codec_ErrWebSocketProtocol"
  by (cases c) (simp_all add: codec_encoder_def to_encode_def btcc_EncodeUnsubscribe_def binance_EncodeUnsubscribe_def
      binance_known_def btcc_known_def)

lemma codec_Unregister_auth [simp]: "codec_auth_topic (codec_Unregister c t) u = codec_auth_topic c u"
  by (cases c) (simp_all add: binance_Unregister_def btcc_Unregister_def binance_isAuthTopic_def btcc_isAuthTopic_def Let_def
      split: option.split)

subsection \<open>The invariant of a group\<close>

definition ts_key :: "topicState \<Rightarrow> topicKey" where
  "ts_key s = (ts_topic s, ts_arg s)"

definition tables_ok :: "(topicKey \<rightharpoonup> nat) \<Rightarrow> (TopicID \<rightharpoonup> nat) \<Rightarrow> topicState list \<Rightarrow> bool" where
  "tables_ok topics byID states \<longleftrightarrow>
     (\<forall>k p. topics k = Some p \<longrightarrow> p < length states \<and> k = ts_key (states ! p) \<and> byID (ts_topicID (states ! p)) = Some p)
     \<and> (\<forall>t p. byID t = Some p \<longrightarrow> p < length states \<and> ts_topicID (states ! p) = t
          \<and> ts_arg (states ! p) = Symbol_String (ts_symbol (states ! p)) \<and> topics (ts_key (states ! p)) = Some p)"

lemma tables_ok_add:
  assumes "tables_ok T B S" "T (ts_key s) = None" "B (ts_topicID s) = None" "ts_arg s = Symbol_String (ts_symbol s)"
  shows "tables_ok (T(ts_key s \<mapsto> length S)) (B(ts_topicID s \<mapsto> length S)) (S @ [s])"
proof -
  have T: "p < length S \<and> k = ts_key (S ! p) \<and> B (ts_topicID (S ! p)) = Some p" if "T k = Some p" for k p
    using assms(1) that unfolding tables_ok_def by blast
  have B: "p < length S \<and> ts_topicID (S ! p) = t \<and> ts_arg (S ! p) = Symbol_String (ts_symbol (S ! p))
      \<and> T (ts_key (S ! p)) = Some p" if "B t = Some p" for t p
    using assms(1) that unfolding tables_ok_def by blast
  show ?thesis
    unfolding tables_ok_def
  proof (intro allI impI conjI)
    fix k p
    assume a: "(T(ts_key s \<mapsto> length S)) k = Some p"
    have "p < length (S @ [s]) \<and> k = ts_key ((S @ [s]) ! p)
        \<and> (B(ts_topicID s \<mapsto> length S)) (ts_topicID ((S @ [s]) ! p)) = Some p"
    proof (cases "k = ts_key s")
      case True
      then have "p = length S" using a by simp
      then show ?thesis using True by (simp add: nth_append)
    next
      case False
      then have t: "p < length S" "k = ts_key (S ! p)" "B (ts_topicID (S ! p)) = Some p" using a T [of k p] by simp_all
      then have "ts_topicID (S ! p) \<noteq> ts_topicID s" using assms(3) by auto
      then show ?thesis using t by (simp add: nth_append)
    qed
    then show "p < length (S @ [s])" "k = ts_key ((S @ [s]) ! p)"
      "(B(ts_topicID s \<mapsto> length S)) (ts_topicID ((S @ [s]) ! p)) = Some p" by blast+
  next
    fix t p
    assume a: "(B(ts_topicID s \<mapsto> length S)) t = Some p"
    have "p < length (S @ [s]) \<and> ts_topicID ((S @ [s]) ! p) = t
        \<and> ts_arg ((S @ [s]) ! p) = Symbol_String (ts_symbol ((S @ [s]) ! p))
        \<and> (T(ts_key s \<mapsto> length S)) (ts_key ((S @ [s]) ! p)) = Some p"
    proof (cases "t = ts_topicID s")
      case True
      then have "p = length S" using a by simp
      then show ?thesis using True assms(4) by (simp add: nth_append)
    next
      case False
      then have t: "p < length S" "ts_topicID (S ! p) = t" "ts_arg (S ! p) = Symbol_String (ts_symbol (S ! p))"
          "T (ts_key (S ! p)) = Some p" using a B [of t p] by simp_all
      then have "ts_key (S ! p) \<noteq> ts_key s" using assms(2) by auto
      then show ?thesis using t by (simp add: nth_append)
    qed
    then show "p < length (S @ [s])" "ts_topicID ((S @ [s]) ! p) = t"
      "ts_arg ((S @ [s]) ! p) = Symbol_String (ts_symbol ((S @ [s]) ! p))"
      "(T(ts_key s \<mapsto> length S)) (ts_key ((S @ [s]) ! p)) = Some p" by blast+
  qed
qed

lemma tables_ok_remove:
  assumes "tables_ok T B S" "T k = Some p"
  shows "tables_ok (T(k := None)) (B(ts_topicID (S ! p) := None)) S"
proof -
  have T: "q < length S \<and> k' = ts_key (S ! q) \<and> B (ts_topicID (S ! q)) = Some q" if "T k' = Some q" for k' q
    using assms(1) that unfolding tables_ok_def by blast
  have B: "q < length S \<and> ts_topicID (S ! q) = t \<and> ts_arg (S ! q) = Symbol_String (ts_symbol (S ! q))
      \<and> T (ts_key (S ! q)) = Some q" if "B t = Some q" for t q
    using assms(1) that unfolding tables_ok_def by blast
  have k: "k = ts_key (S ! p)" "B (ts_topicID (S ! p)) = Some p" using T [OF assms(2)] by simp_all
  have "ts_topicID (S ! q) \<noteq> ts_topicID (S ! p)" if "T k' = Some q" "k' \<noteq> k" for k' q
    using T [OF that(1)] that(2) k by (metis option.inject)
  moreover have "ts_key (S ! q) \<noteq> k" if "B t = Some q" "t \<noteq> ts_topicID (S ! p)" for t q
    using B [OF that(1)] that(2) assms(2) by (metis option.inject)
  ultimately show ?thesis using T B unfolding tables_ok_def by (simp del: split_paired_All)
qed

lemma tables_ok_states:
  assumes "tables_ok T B S" "length S' = length S" "\<And>p. ts_key (S' ! p) = ts_key (S ! p)"
    and "\<And>p. ts_arg (S' ! p) = ts_arg (S ! p)" "\<And>p. ts_symbol (S' ! p) = ts_symbol (S ! p)" "\<And>p. ts_topicID (S' ! p) = ts_topicID (S ! p)"
  shows "tables_ok T B S'"
  using assms(1) unfolding tables_ok_def assms(2-6) .

definition group_ok :: "wsGroup \<Rightarrow> bool" where
  "group_ok g \<longleftrightarrow> mg_ok (gr_manager g) \<and> tables_ok (gr_topics g) (gr_topicsByID g) (gr_states g)
     \<and> (\<forall>t. gr_topicsByID g t \<noteq> None \<longrightarrow> mg_subscriptions (gr_manager g) t \<noteq> None \<and> codec_known (gr_codec g) t)"


definition ids_upto :: "u32 \<Rightarrow> wsGroup \<Rightarrow> bool" where
  "ids_upto n g \<longleftrightarrow> (\<forall>t. gr_topicsByID g t \<noteq> None \<or> mg_subscriptions (gr_manager g) t \<noteq> None \<or> codec_known (gr_codec g) t
     \<longrightarrow> unat t \<le> unat n)"

lemma ids_upto_mono: "ids_upto n g \<Longrightarrow> unat n \<le> unat m \<Longrightarrow> ids_upto m g"
  unfolding ids_upto_def using order_trans by blast

lemma group_ok_cong:
  assumes "group_ok g" "mg_ok (gr_manager g')" "mg_subscriptions (gr_manager g') = mg_subscriptions (gr_manager g)"
    and "gr_topics g' = gr_topics g" "gr_topicsByID g' = gr_topicsByID g" "\<And>t. codec_known (gr_codec g') t = codec_known (gr_codec g) t"
    and "gr_states g' = gr_states g"
  shows "group_ok g'"
  using assms(1,2) unfolding group_ok_def assms(3-7) by blast

lemma ids_upto_cong:
  assumes "ids_upto n g" "gr_topicsByID g' = gr_topicsByID g" "mg_subscriptions (gr_manager g') = mg_subscriptions (gr_manager g)"
    and "\<And>t. codec_known (gr_codec g') t = codec_known (gr_codec g) t"
  shows "ids_upto n g'"
  using assms unfolding ids_upto_def by simp

lemma group_manager_ok [simp]: "mg_ok (group_manager g) = mg_ok (gr_manager g)"
  "mg_subscriptions (group_manager g) = mg_subscriptions (gr_manager g)"
proof -
  show "mg_subscriptions (group_manager g) = mg_subscriptions (gr_manager g)" by (simp add: group_manager_def)
  show "mg_ok (group_manager g) = mg_ok (gr_manager g)"
    by (rule iffI; erule mg_ok_cong; simp add: group_manager_def mg_desired_def)
qed

lemma bump_states [simp]:
  "ts_topic (gr_states (bump p k g) ! q) = ts_topic (gr_states g ! q)" "ts_arg (gr_states (bump p k g) ! q) = ts_arg (gr_states g ! q)"
  "ts_symbol (gr_states (bump p k g) ! q) = ts_symbol (gr_states g ! q)"
  "ts_topicID (gr_states (bump p k g) ! q) = ts_topicID (gr_states g ! q)"
  "length (gr_states (bump p k g)) = length (gr_states g)" "gr_manager (bump p k g) = gr_manager g"
  "gr_codec (bump p k g) = gr_codec g" "gr_topics (bump p k g) = gr_topics g" "gr_topicsByID (bump p k g) = gr_topicsByID g"
proof -
  have "gr_states (bump p k g) = (gr_states g)[p := (gr_states g ! p)\<lparr>ts_refCount := ts_refCount (gr_states g ! p) + k\<rparr>]"
    by (simp add: bump_def)
  then have n: "gr_states (bump p k g) ! q = (if q = p \<and> p < length (gr_states g)
      then (gr_states g ! p)\<lparr>ts_refCount := ts_refCount (gr_states g ! p) + k\<rparr> else gr_states g ! q)"
    by (cases "p < length (gr_states g)") (simp_all add: nth_list_update not_less list_update_beyond)
  show "ts_topic (gr_states (bump p k g) ! q) = ts_topic (gr_states g ! q)" "ts_arg (gr_states (bump p k g) ! q) = ts_arg (gr_states g ! q)"
    "ts_symbol (gr_states (bump p k g) ! q) = ts_symbol (gr_states g ! q)"
    "ts_topicID (gr_states (bump p k g) ! q) = ts_topicID (gr_states g ! q)"
    unfolding n by simp_all
qed (simp_all add: bump_def)

lemma newGroup_ok:
  assumes "newGroup platform apiKey = Inr g"
  shows "group_ok g" "ids_upto n g"
proof -
  have "\<exists>codec m opts. (codec = BinanceCodec binance_NewCodec \<or> codec = BtccCodec btcc_NewCodec)
      \<and> manager_New True True (Some (codec_encoder codec)) opts = Inr m
      \<and> g = \<lparr>gr_manager = m, gr_codec = codec, gr_topics = Map.empty, gr_topicsByID = Map.empty,
            gr_states = [], gr_running = False, gr_apiKey = apiKey, gr_authReqID = 0, gr_platform = platform\<rparr>"
    using assms by (auto simp: newGroup_def Let_def split: if_splits sum.splits)
  then obtain codec m opts where g: "codec = BinanceCodec binance_NewCodec \<or> codec = BtccCodec btcc_NewCodec"
    "manager_New True True (Some (codec_encoder codec)) opts = Inr m"
    "g = \<lparr>gr_manager = m, gr_codec = codec, gr_topics = Map.empty, gr_topicsByID = Map.empty,
            gr_states = [], gr_running = False, gr_apiKey = apiKey, gr_authReqID = 0, gr_platform = platform\<rparr>" by blast
  have "mg_subscriptions m = Map.empty" using g(2) by (auto simp: manager_New_def Let_def split: if_splits)
  moreover have "\<not> codec_known codec t" for t
    using g(1) binance_tables.known_new btcc_tables.known_new by auto
  ultimately show "group_ok g" "ids_upto n g" using g(3) mg_ok_New [OF g(2)] by (simp_all add: group_ok_def ids_upto_def tables_ok_def)
qed

subsection \<open>Making sure of a topic\<close>

lemma next_id: "unat n + 1 < 2 ^ 32 \<Longrightarrow> unat (n + 1 :: u32) = unat n + 1"
  by (simp add: unat_word_ariths)

lemma ensureTopic_ok:
  assumes "group_ok g" "ids_upto n g" "unat n + 1 < 2 ^ 32" "ensureTopic low g n topic symbol choice reuse = Ret (g', n', r)"
  shows "group_ok g'" "ids_upto n' g'" "unat n \<le> unat n'" "unat n' \<le> unat n + 1"
    "r = Ensured p \<Longrightarrow> gr_topics g' (topic, Symbol_String symbol) = Some p"
    "gr_platform g' = gr_platform g" "gr_apiKey g' = gr_apiKey g"
proof -
  have main: "group_ok g' \<and> ids_upto n' g' \<and> unat n \<le> unat n' \<and> unat n' \<le> unat n + 1
      \<and> (r = Ensured p \<longrightarrow> gr_topics g' (topic, Symbol_String symbol) = Some p)
      \<and> gr_platform g' = gr_platform g \<and> gr_apiKey g' = gr_apiKey g"
  proof (cases "gr_topics g (topic, Symbol_String symbol)")
    case (Some q)
    then show ?thesis using assms by (auto simp: ensureTopic_def)
  next
    case None
    let ?t = "n + 1 :: TopicID"
    let ?req = "\<lparr>Ingest_Platform = gr_platform g, Ingest_Topic = topic, Ingest_Symbol = symbol, Ingest_APIKey = gr_apiKey g\<rparr>"
    obtain c e where c: "codec_Register low (gr_codec g) ?t ?req = (c, e)" by fastforce
    note kn = codec_Register_known [OF c]
    have un: "unat ?t = unat n + 1" by (rule next_id [OF assms(3)])
    have fresh: "gr_topicsByID g ?t = None" "mg_subscriptions (gr_manager g) ?t = None" "\<not> codec_known (gr_codec g) ?t"
      using assms(2) un unfolding ids_upto_def by force+
    let ?g = "g\<lparr>gr_codec := c\<rparr>"
    show ?thesis
    proof (cases e)
      case (Some err)
      then have r: "g' = ?g" "n' = ?t" "r = EnsureErr (RegisterErr err)"
        using assms(4) None c by (simp_all add: ensureTopic_def nextTopicID_def)
      have same: "codec_known c u = codec_known (gr_codec g) u" for u using kn [of u] Some by simp
      have "group_ok ?g" by (rule group_ok_cong [OF assms(1)]) (use assms(1) same in \<open>simp_all add: group_ok_def\<close>)
      moreover have "ids_upto n ?g" by (rule ids_upto_cong [OF assms(2)]) (simp_all add: same)
      ultimately show ?thesis using r un ids_upto_mono by simp
    next
      case eN: None
      obtain m res where m: "manager_Subscribe (Some (group_manager ?g)) ?t choice reuse = Ret (m, res)"
        using assms(4) None c eN by (auto simp: ensureTopic_def nextTopicID_def go_bind_Ret_iff Let_def)
      have out: "case res of
            SendErr e \<Rightarrow> g' = ?g\<lparr>gr_manager := the m, gr_codec := codec_Unregister c ?t\<rparr> \<and> n' = ?t \<and> r = EnsureErr (ManagerErr e)
          | SendWait \<Rightarrow> g' = ?g\<lparr>gr_manager := the m\<rparr> \<and> n' = ?t \<and> r = EnsureWait
          | Sent \<Rightarrow> g' = ?g\<lparr>gr_manager := the m,
                gr_states := gr_states g @ [\<lparr>ts_topic = topic, ts_arg = Symbol_String symbol, ts_symbol = symbol, ts_topicID = ?t, ts_refCount = 0\<rparr>],
                gr_topics := (gr_topics g)((topic, Symbol_String symbol) \<mapsto> length (gr_states g)),
                gr_topicsByID := (gr_topicsByID g)(?t \<mapsto> length (gr_states g))\<rparr>
              \<and> n' = ?t \<and> r = Ensured (length (gr_states g))"
        using assms(4) None c eN m by (cases res) (auto simp: ensureTopic_def nextTopicID_def Let_def)
      have ok: "mg_ok (group_manager ?g)" using assms(1) by (simp add: group_ok_def)
      have enc: "mg_encoder (group_manager ?g) \<noteq> None" by (simp add: group_manager_def)
      obtain m1 where m1: "m = Some m1" "mg_ok m1"
        and sub: "mg_ctx (group_manager ?g) \<noteq> Some True \<Longrightarrow> \<exists>i. mg_subscriptions m1 = (mg_subscriptions (gr_manager g))(?t \<mapsto> i)"
        using manager_Subscribe_ok [OF ok m] enc fresh(2) by (auto simp: group_manager_def)
      have stopped: "mg_ctx (group_manager ?g) = Some True \<Longrightarrow> res \<noteq> Sent \<and> res \<noteq> SendWait \<and> mg_subscriptions m1 = mg_subscriptions (gr_manager g)"
        using m m1(1) enc by (auto simp: manager_Subscribe_def group_manager_def)
      have sub1: "mg_subscriptions m1 u \<noteq> None \<longrightarrow> mg_subscriptions (gr_manager g) u \<noteq> None \<or> u = ?t"
        "u \<noteq> ?t \<Longrightarrow> mg_subscriptions m1 u = mg_subscriptions (gr_manager g) u" for u
        using sub stopped by (cases "mg_ctx (group_manager ?g) = Some True"; fastforce)+
      have kn': "codec_known c u \<longleftrightarrow> codec_known (gr_codec g) u \<or> u = ?t" for u using kn [of u] eN by simp
      have ids: "gr_topicsByID g u \<noteq> None \<or> mg_subscriptions m1 u \<noteq> None \<or> codec_known c u \<or> u = ?t \<Longrightarrow> unat u \<le> unat ?t" for u
        using assms(2) sub1(1) [of u] kn' [of u] un unfolding ids_upto_def by force
      have base: "group_ok (?g\<lparr>gr_manager := m1\<rparr>)"
        using assms(1) m1(2) fresh sub1(2) kn' unfolding group_ok_def by (auto; metis)
      show ?thesis
      proof (cases res)
        case Sent
        then have g': "g' = ?g\<lparr>gr_manager := m1, gr_states := gr_states g @ [\<lparr>ts_topic = topic, ts_arg = Symbol_String symbol, ts_symbol = symbol, ts_topicID = ?t, ts_refCount = 0\<rparr>],
            gr_topics := (gr_topics g)((topic, Symbol_String symbol) \<mapsto> length (gr_states g)),
            gr_topicsByID := (gr_topicsByID g)(?t \<mapsto> length (gr_states g))\<rparr>" "n' = ?t" "r = Ensured (length (gr_states g))"
          using out m1(1) by simp_all
        have subt: "mg_subscriptions m1 ?t \<noteq> None" using sub stopped Sent by (metis fun_upd_same option.distinct(1))
        let ?s = "\<lparr>ts_topic = topic, ts_arg = Symbol_String symbol, ts_symbol = symbol, ts_topicID = ?t, ts_refCount = 0\<rparr>"
        have "tables_ok ((gr_topics g)(ts_key ?s \<mapsto> length (gr_states g))) ((gr_topicsByID g)(ts_topicID ?s \<mapsto> length (gr_states g)))
            (gr_states g @ [?s])"
          by (rule tables_ok_add) (use assms(1) None fresh in \<open>simp_all add: group_ok_def ts_key_def\<close>)
        then have "group_ok g'"
          using base subt kn' unfolding g'(1) group_ok_def by (auto simp: ts_key_def)
        moreover have "ids_upto ?t g'" using ids by (auto simp: g'(1) ids_upto_def)
        ultimately show ?thesis using g' un by simp
      next
        case (SendErr e)
        then have g': "g' = ?g\<lparr>gr_manager := m1, gr_codec := codec_Unregister c ?t\<rparr>" "n' = ?t" "r = EnsureErr (ManagerErr e)"
          using out m1(1) by simp_all
        have "group_ok g'" using base fresh unfolding g'(1) group_ok_def by auto
        moreover have "ids_upto ?t g'" using ids by (auto simp: g'(1) ids_upto_def)
        ultimately show ?thesis using g' un by simp
      next
        case SendWait
        then have g': "g' = ?g\<lparr>gr_manager := m1\<rparr>" "n' = ?t" "r = EnsureWait" using out m1(1) by simp_all
        have "ids_upto ?t g'" using ids by (auto simp: g'(1) ids_upto_def)
        then show ?thesis using g' un base by simp
      qed
    qed
  qed
  then show "group_ok g'" "ids_upto n' g'" "unat n \<le> unat n'" "unat n' \<le> unat n + 1"
    "r = Ensured p \<Longrightarrow> gr_topics g' (topic, Symbol_String symbol) = Some p"
    "gr_platform g' = gr_platform g" "gr_apiKey g' = gr_apiKey g" by blast+
qed

lemma ensureTopic_topic:
  assumes "group_ok g'" "gr_topics g' (topic, Symbol_String symbol) = Some p"
  shows "p < length (gr_states g')" "gr_topicsByID g' (ts_topicID (gr_states g' ! p)) = Some p"
    "ts_topic (gr_states g' ! p) = topic" "Symbol_String (ts_symbol (gr_states g' ! p)) = Symbol_String symbol"
    "mg_subscriptions (gr_manager g') (ts_topicID (gr_states g' ! p)) \<noteq> None"
proof -
  have t: "tables_ok (gr_topics g') (gr_topicsByID g') (gr_states g')" using assms(1) by (simp add: group_ok_def)
  then have k: "p < length (gr_states g')" "(topic, Symbol_String symbol) = ts_key (gr_states g' ! p)"
    "gr_topicsByID g' (ts_topicID (gr_states g' ! p)) = Some p"
    using assms(2) unfolding tables_ok_def by blast+
  then have "ts_arg (gr_states g' ! p) = Symbol_String (ts_symbol (gr_states g' ! p))"
    using t unfolding tables_ok_def by blast
  then show "p < length (gr_states g')" "gr_topicsByID g' (ts_topicID (gr_states g' ! p)) = Some p"
    "ts_topic (gr_states g' ! p) = topic" "Symbol_String (ts_symbol (gr_states g' ! p)) = Symbol_String symbol"
    "mg_subscriptions (gr_manager g') (ts_topicID (gr_states g' ! p)) \<noteq> None"
    using k assms(1) by (simp_all add: ts_key_def group_ok_def)
qed

subsection \<open>The use case\<close>

definition us_ok :: "usecase \<Rightarrow> bool" where
  "us_ok u \<longleftrightarrow> (\<forall>i < length (us_store u). group_ok (us_store u ! i) \<and> ids_upto (us_currTopicID u) (us_store u ! i))
     \<and> (\<forall>k i. us_groups u k = Some i \<longrightarrow> i < length (us_store u)
          \<and> k = (gr_platform (us_store u ! i), Str64_String (gr_apiKey (us_store u ! i))))"

lemma us_ok_New: "us_ok NewUsecase"
  by (simp add: us_ok_def NewUsecase_def)

lemma us_ok_put:
  assumes "us_ok u" "group_ok g" "ids_upto n g" "unat (us_currTopicID u) \<le> unat n"
    and "gr_platform g = gr_platform (us_store u ! i)" "gr_apiKey g = gr_apiKey (us_store u ! i)"
  shows "us_ok ((us_put i g u)\<lparr>us_currTopicID := n\<rparr>)"
proof -
  have "group_ok ((us_store u)[i := g] ! j) \<and> ids_upto n ((us_store u)[i := g] ! j)" if "j < length (us_store u)" for j
    using assms(1-4) that ids_upto_mono by (cases "j = i") (auto simp: us_ok_def)
  moreover have "j < length (us_store u) \<and> k = (gr_platform ((us_store u)[i := g] ! j), Str64_String (gr_apiKey ((us_store u)[i := g] ! j)))"
    if "us_groups u k = Some j" for k j
  proof -
    have "j < length (us_store u)" "k = (gr_platform (us_store u ! j), Str64_String (gr_apiKey (us_store u ! j)))"
      using assms(1) that unfolding us_ok_def by blast+
    then show ?thesis using assms(5,6) by (cases "j = i") simp_all
  qed
  ultimately show ?thesis unfolding us_ok_def by (simp add: us_put_def del: split_paired_All)
qed

lemma us_ok_put_same:
  assumes "us_ok u" "group_ok g" "ids_upto (us_currTopicID u) g"
    and "gr_platform g = gr_platform (us_store u ! i)" "gr_apiKey g = gr_apiKey (us_store u ! i)"
  shows "us_ok (us_put i g u)"
proof -
  have "us_ok ((us_put i g u)\<lparr>us_currTopicID := us_currTopicID u\<rparr>)" using assms by (intro us_ok_put) simp_all
  moreover have "(us_put i g u)\<lparr>us_currTopicID := us_currTopicID u\<rparr> = us_put i g u" by (simp add: us_put_def)
  ultimately show ?thesis by (simp only:)
qed

lemma group_start_sel [simp]:
  "gr_platform (fst (group_start g)) = gr_platform g" "gr_apiKey (fst (group_start g)) = gr_apiKey g"
  "group_ok (fst (group_start g)) = group_ok g" "ids_upto n (fst (group_start g)) = ids_upto n g"
  by (simp_all add: group_start_def group_ok_def ids_upto_def)

lemma newGroup_sel: "newGroup platform apiKey = Inr g \<Longrightarrow> gr_platform g = platform \<and> gr_apiKey g = apiKey"
  by (auto simp: newGroup_def Let_def split: if_splits sum.splits)

lemma us_ok_add:
  assumes "us_ok u" "group_ok g" "ids_upto (us_currTopicID u) g" "k = (gr_platform g, Str64_String (gr_apiKey g))"
  shows "us_ok (u\<lparr>us_groups := (us_groups u)(k \<mapsto> length (us_store u)), us_store := us_store u @ [g]\<rparr>)"
  using assms unfolding us_ok_def
  by (simp add: nth_append less_Suc_eq del: split_paired_All)

lemma us_ok_counter:
  assumes "us_ok u" "unat (us_currTopicID u) \<le> unat n"
  shows "us_ok (u\<lparr>us_currTopicID := n\<rparr>)"
  using assms ids_upto_mono unfolding us_ok_def by (simp del: split_paired_All) blast

lemma getOrCreateGroup_ok:
  assumes "us_ok u" "unat (us_currTopicID u) + 1 < 2 ^ 32" "getOrCreateGroup u platform apiKey = (u', r)"
  shows "us_ok u'" "unat (us_currTopicID u) \<le> unat (us_currTopicID u')" "unat (us_currTopicID u') \<le> unat (us_currTopicID u) + 1"
    "r = Inr i \<Longrightarrow> i < length (us_store u') \<and> us_groups u' (platform, Str64_String apiKey) = Some i"
proof -
  define n where "n = (if 0 < Str64_Len apiKey then us_currTopicID u + 1 else us_currTopicID u)"
  define a where "a = (if 0 < Str64_Len apiKey then ucast n else 0 :: u64)"
  have n: "unat (us_currTopicID u) \<le> unat n" "unat n \<le> unat (us_currTopicID u) + 1"
    using next_id [OF assms(2)] by (simp_all add: n_def)
  let ?u = "u\<lparr>us_currTopicID := n\<rparr>" and ?k = "(platform, Str64_String apiKey)"
  have u: "us_ok ?u" by (rule us_ok_counter [OF assms(1) n(1)])
  have pair: "(if 0 < Str64_Len apiKey then (let (currID, t) = nextTopicID (us_currTopicID u) in (currID, ucast t))
      else (us_currTopicID u, 0)) = (n, a)" by (simp add: n_def a_def nextTopicID_def)
  have main: "us_ok u' \<and> us_currTopicID u' \<in> {us_currTopicID u, n}
      \<and> (r = Inr i \<longrightarrow> i < length (us_store u') \<and> us_groups u' ?k = Some i)"
  proof (cases "Platform_IsAvailable platform")
    case False
    then show ?thesis using assms(1,3) by (auto simp: getOrCreateGroup_def)
  next
    case av: True
    note def = assms(3) [unfolded getOrCreateGroup_def Let_def pair [unfolded Let_def]]
    show ?thesis
    proof (cases "us_groups u ?k")
      case (Some j)
      then have e: "u' = us_put j (fst (group_start (us_store u ! j))) ?u" "r = Inr j" using def av by simp_all
      have j: "j < length (us_store u)" using assms(1) Some unfolding us_ok_def by blast
      have "us_ok u'" unfolding e(1)
        by (rule us_ok_put_same [OF u]) (use u j in \<open>simp_all add: us_ok_def\<close>)
      then show ?thesis using e j Some by (simp add: us_put_def)
    next
      case None
      show ?thesis
      proof (cases "newGroup platform apiKey")
        case (Inl e)
        then have "u' = ?u" "r = Inl e" using def av None by simp_all
        then show ?thesis using u by simp
      next
        case (Inr g)
        note ng = newGroup_ok [OF Inr] newGroup_sel [OF Inr]
        define ga where "ga = (if 0 < Str64_Len apiKey
            then (g\<lparr>gr_authReqID := a, gr_codec := fst (codec_RegisterAuth (gr_codec g) (ucast a) (Str64_String apiKey) a)\<rparr>,
                  snd (codec_RegisterAuth (gr_codec g) (ucast a) (Str64_String apiKey) a)) else (g, None))"
        have kn: "codec_known (gr_codec (fst ga)) t = codec_known (gr_codec g) t" for t
          using codec_RegisterAuth_known [OF prod.collapse [symmetric]] by (auto simp: ga_def)
        have gk: "group_ok (fst ga)" "ids_upto n (fst ga)" "gr_platform (fst ga) = platform" "gr_apiKey (fst ga) = apiKey"
          using ng kn by (auto simp: ga_def group_ok_def ids_upto_def split: if_splits)
        have res: "(u', r) = (case snd ga of Some e \<Rightarrow> (?u, Inl (RegisterErr e))
            | None \<Rightarrow> (?u\<lparr>us_groups := (us_groups u)(?k \<mapsto> length (us_store u)), us_store := us_store u @ [fst (group_start (fst ga))]\<rparr>,
                 Inr (length (us_store u))))"
          using def av None Inr by (auto simp: ga_def split: prod.splits option.splits if_splits)
        have "us_ok (?u\<lparr>us_groups := (us_groups ?u)(?k \<mapsto> length (us_store ?u)), us_store := us_store ?u @ [fst (group_start (fst ga))]\<rparr>)"
          by (rule us_ok_add [OF u]) (use gk in simp_all)
        then show ?thesis using res u by (auto split: option.splits)
      qed
    qed
  qed
  then show "us_ok u'" "unat (us_currTopicID u) \<le> unat (us_currTopicID u')" "unat (us_currTopicID u') \<le> unat (us_currTopicID u) + 1"
    "r = Inr i \<Longrightarrow> i < length (us_store u') \<and> us_groups u' (platform, Str64_String apiKey) = Some i"
    using n by auto
qed

subsection \<open>Subscribe and Unsubscribe\<close>

lemma AddConsumer_ok:
  assumes "mg_ok m" "manager_AddConsumer (Some m) t c = (m', e)"
  shows "\<exists>m1. m' = Some m1 \<and> mg_ok m1 \<and> mg_subscriptions m1 = mg_subscriptions m
    \<and> (e = None \<longrightarrow> (\<forall>k. c = Some k \<longrightarrow> k \<in> set (rt_list (mg_router m1) t)))"
  using assms by (auto simp: manager_AddConsumer_def mg_ok_consumers router_AddConsumer_def rt_list_def Let_def split: option.splits)

lemma RemoveConsumer_ok:
  assumes "mg_ok m" "manager_RemoveConsumer (Some m) t c = (m', e)"
  shows "\<exists>m1. m' = Some m1 \<and> mg_ok m1 \<and> mg_subscriptions m1 = mg_subscriptions m
    \<and> mg_store m1 = mg_store m \<and> mg_sessions m1 = mg_sessions m \<and> mg_outbound m1 = mg_outbound m
    \<and> (e = None \<longleftrightarrow> mg_subscriptions m t \<noteq> None)"
  using assms by (auto simp: manager_RemoveConsumer_def mg_ok_consumers split: option.splits)

lemma bump_ok [simp]:
  "group_ok (bump p k g) = group_ok g" "ids_upto n (bump p k g) = ids_upto n g"
  "gr_platform (bump p k g) = gr_platform g" "gr_apiKey (bump p k g) = gr_apiKey g"
proof -
  have t: "tables_ok T B (gr_states (bump p k g)) = tables_ok T B (gr_states g)" for T B
    by (rule iffI; erule tables_ok_states) (simp_all add: ts_key_def)
  show "group_ok (bump p k g) = group_ok g" by (simp add: group_ok_def t)
  show "ids_upto n (bump p k g) = ids_upto n g" by (simp add: ids_upto_def)
qed (simp_all add: bump_def)

lemma group_ok_manager:
  assumes "group_ok g" "mg_ok m" "mg_subscriptions m = mg_subscriptions (gr_manager g)"
  shows "group_ok (g\<lparr>gr_manager := m\<rparr>)" "ids_upto n (g\<lparr>gr_manager := m\<rparr>) = ids_upto n g"
  using assms by (simp_all add: group_ok_def ids_upto_def)

lemma usecase_Subscribe_ok:
  assumes "us_ok u" "unat (us_currTopicID u) + 2 < 2 ^ 32"
    and "usecase_Subscribe low (Some u) platform apiKey topic symbol c choice reuse = Ret (u', r)"
  shows "\<exists>u1. u' = Some u1 \<and> us_ok u1 \<and> (r = UseDone None \<longrightarrow>
    (\<exists>i p k. c = Some k \<and> Platform_IsAvailable platform \<and> us_groups u1 (platform, Str64_String apiKey) = Some i
       \<and> gr_topics (us_store u1 ! i) (topic, Symbol_String symbol) = Some p
       \<and> k \<in> set (rt_list (mg_router (gr_manager (us_store u1 ! i))) (ts_topicID (gr_states (us_store u1 ! i) ! p)))))"
proof (cases "\<not> Platform_IsAvailable platform \<or> \<not> Topic_IsAvailable topic \<or> c = None")
  case True
  then have "u' = Some u \<and> r \<noteq> UseDone None" using assms(3) unfolding usecase_Subscribe_def option.case
    by (cases "\<not> Platform_IsAvailable platform \<or> \<not> Topic_IsAvailable topic") (simp_all only: if_True if_False, auto)
  then show ?thesis using assms(1) by simp
next
  case False
  then obtain k where k: "c = Some k" "Platform_IsAvailable platform" "Topic_IsAvailable topic" by auto
  note def = assms(3) [unfolded usecase_Subscribe_def]
  obtain ug rg where ug: "getOrCreateGroup u platform apiKey = (ug, rg)" by fastforce
  have lim: "unat (us_currTopicID u) + 1 < 2 ^ 32" using assms(2) by simp
  note og = getOrCreateGroup_ok [OF assms(1) lim ug]
  show ?thesis
  proof (cases rg)
    case (Inl e)
    then show ?thesis using def k ug og(1) by auto
  next
    case (Inr i)
    note i = og(4) [OF Inr]
    let ?g = "us_store ug ! i"
    have g: "group_ok ?g" "ids_upto (us_currTopicID ug) ?g" using og(1) i by (simp_all add: us_ok_def)
    have lim2: "unat (us_currTopicID ug) + 1 < 2 ^ 32" using og(3) assms(2) by linarith
    obtain g1 n1 r1 where e: "ensureTopic low ?g (us_currTopicID ug) topic symbol choice reuse = Ret (g1, n1, r1)"
      using def k ug Inr by (auto simp: go_bind_Ret_iff Let_def)
    note en = ensureTopic_ok [OF g lim2 e]
    let ?u = "(us_put i g1 ug)\<lparr>us_currTopicID := n1\<rparr>"
    have u: "us_ok ?u" by (rule us_ok_put [OF og(1) en(1,2,3)]) (use en(6,7) in simp_all)
    have at: "us_store ?u ! i = g1" "us_groups ?u = us_groups ug" "i < length (us_store ?u)" using i by (simp_all add: us_put_def)
    show ?thesis
    proof (cases r1)
      case (EnsureErr err)
      then show ?thesis using def k ug Inr e u by (auto simp: Let_def)
    next
      case EnsureWait
      then show ?thesis using def k ug Inr e u by (auto simp: Let_def)
    next
      case (Ensured p)
      obtain m err where m: "manager_AddConsumer (Some (gr_manager g1)) (ts_topicID (gr_states g1 ! p)) c = (m, err)" by fastforce
      have okm: "mg_ok (gr_manager g1)" using en(1) by (simp add: group_ok_def)
      obtain m1 where m1: "m = Some m1" "mg_ok m1" "mg_subscriptions m1 = mg_subscriptions (gr_manager g1)"
        "err = None \<longrightarrow> k \<in> set (rt_list (mg_router m1) (ts_topicID (gr_states g1 ! p)))"
        using AddConsumer_ok [OF okm m] k(1) by auto
      let ?g1 = "g1\<lparr>gr_manager := m1\<rparr>"
      have ok1: "group_ok ?g1" "ids_upto n1 ?g1" using group_ok_manager [OF en(1) m1(2,3)] en(2) by simp_all
      have put: "us_ok (us_put i g' ?u)" if "group_ok g'" "ids_upto n1 g'" "gr_platform g' = gr_platform g1" "gr_apiKey g' = gr_apiKey g1" for g'
        by (rule us_ok_put_same [OF u]) (use that at in simp_all)
      show ?thesis
      proof (cases err)
        case (Some err')
        then have "u' = Some (us_put i ?g1 ?u)" "r \<noteq> UseDone None"
          using def k ug Inr e m m1(1) Ensured by (auto simp: Let_def)
        then show ?thesis using put [OF ok1] by simp
      next
        case None
        then have r: "u' = Some (us_put i (bump p 1 ?g1) ?u)" "r = UseDone None"
          using def k ug Inr e m m1(1) Ensured by (auto simp: Let_def)
        have ok2: "us_ok (us_put i (bump p 1 ?g1) ?u)" by (rule put) (use ok1 in simp_all)
        have "us_store (us_put i (bump p 1 ?g1) ?u) ! i = bump p 1 ?g1" using at(3) by (simp add: us_put_def)
        then show ?thesis using ok2 r k m1(4) None en(5) [OF Ensured] i at(2)
          by (auto simp: us_put_def)
      qed
    qed
  qed
qed

text \<open>The last step of \<open>Unsubscribe\<close>: both tables, the codec and the manager forget the topic.\<close>

lemma group_forget_ok:
  assumes "group_ok g" "gr_topics g k = Some p" "t = ts_topicID (gr_states g ! p)" "mg_ok m"
    and "mg_subscriptions m = (mg_subscriptions (gr_manager g))(t := None)"
    and "g' = g\<lparr>gr_topics := (gr_topics g)(k := None), gr_topicsByID := (gr_topicsByID g)(t := None),
          gr_codec := codec_Unregister (gr_codec g) t, gr_manager := m\<rparr>"
  shows "group_ok g'" "ids_upto n g \<Longrightarrow> ids_upto n g'"
proof -
  have "tables_ok ((gr_topics g)(k := None)) ((gr_topicsByID g)(t := None)) (gr_states g)"
    unfolding assms(3) by (rule tables_ok_remove) (use assms(1,2) in \<open>simp_all add: group_ok_def\<close>)
  then show "group_ok g'" using assms(1,4,5) by (simp add: assms(6) group_ok_def)
  show "ids_upto n g'" if "ids_upto n g" using that assms(5) by (simp add: assms(6) ids_upto_def)
qed

lemma usecase_Unsubscribe_ok:
  assumes "us_ok u" "usecase_Unsubscribe (Some u) platform apiKey topic symbol c choice reuse = Ret (u', r)"
  shows "\<exists>u1. u' = Some u1 \<and> us_ok u1"
proof (cases "\<not> Platform_IsAvailable platform \<or> \<not> Topic_IsAvailable topic \<or> c = None")
  case True
  then have "u' = Some u" using assms(2) unfolding usecase_Unsubscribe_def option.case
    by (cases "\<not> Platform_IsAvailable platform \<or> \<not> Topic_IsAvailable topic") (simp_all only: if_True if_False, auto)
  then show ?thesis using assms(1) by simp
next
  case False
  note def = assms(2) [unfolded usecase_Unsubscribe_def]
  show ?thesis
  proof (cases "us_groups u (platform, Str64_String apiKey)")
    case None
    then show ?thesis using def False assms(1) by (auto simp: getGroup_def)
  next
    case (Some i)
    let ?g = "us_store u ! i" and ?k = "(topic, Symbol_String symbol)"
    have i: "i < length (us_store u)" using assms(1) Some unfolding us_ok_def by blast
    then have g: "group_ok ?g" "ids_upto (us_currTopicID u) ?g" using assms(1) by (simp_all add: us_ok_def)
    show ?thesis
    proof (cases "gr_topics ?g ?k")
      case None
      then show ?thesis using def False Some assms(1) by (auto simp: getGroup_def Let_def)
    next
      case p: (Some p)
      let ?t = "ts_topicID (gr_states ?g ! p)"
      obtain m err where m: "manager_RemoveConsumer (Some (gr_manager ?g)) ?t c = (m, err)" by fastforce
      have okm: "mg_ok (gr_manager ?g)" using g(1) by (simp add: group_ok_def)
      obtain m1 where m1: "m = Some m1" "mg_ok m1" "mg_subscriptions m1 = mg_subscriptions (gr_manager ?g)"
        using RemoveConsumer_ok [OF okm m] by auto
      let ?g1 = "?g\<lparr>gr_manager := m1\<rparr>"
      have ok1: "group_ok ?g1" "ids_upto (us_currTopicID u) ?g1" using group_ok_manager [OF g(1) m1(2,3)] g(2) by simp_all
      have put: "us_ok (us_put i g' u)" if "group_ok g'" "ids_upto (us_currTopicID u) g'" "gr_platform g' = gr_platform ?g" "gr_apiKey g' = gr_apiKey ?g" for g'
        by (rule us_ok_put_same [OF assms(1)]) (use that in simp_all)
      let ?g2 = "bump p (- 1) ?g1"
      have ok2: "group_ok ?g2" "ids_upto (us_currTopicID u) ?g2" using ok1 by simp_all
      show ?thesis
      proof (cases "err \<noteq> None \<or> \<not> ts_refCount (gr_states ?g2 ! p) \<le> 0")
        case True
        then have "u' = Some (us_put i ?g1 u) \<or> u' = Some (us_put i ?g2 u)"
          using def False Some p m m1(1) by (cases err) (auto simp: getGroup_def Let_def)
        then show ?thesis using put [OF ok1] put [OF ok2] by auto
      next
        case last: False
        let ?g3 = "?g2\<lparr>gr_topics := (gr_topics ?g2)(?k := None), gr_topicsByID := (gr_topicsByID ?g2)(?t := None)\<rparr>"
        let ?g4 = "?g3\<lparr>gr_codec := codec_Unregister (gr_codec ?g3) ?t\<rparr>"
        obtain m2 res where m2: "manager_Unsubscribe (Some (group_manager ?g4)) ?t choice reuse = Ret (m2, res)"
          and r: "u' = Some (us_put i (?g4\<lparr>gr_manager := the m2\<rparr>) u)"
          using def False Some p m m1(1) last by (auto simp: getGroup_def Let_def go_bind_Ret_iff)
        have "mg_ok (group_manager ?g4)" using m1(2) by simp
        from manager_Unsubscribe_ok [OF this m2] obtain m3 where m3: "m2 = Some m3" "mg_ok m3"
            "mg_subscriptions m3 = (mg_subscriptions m1)(?t := None)" by auto
        have f: "group_ok (?g4\<lparr>gr_manager := m3\<rparr>)" "ids_upto (us_currTopicID u) (?g4\<lparr>gr_manager := m3\<rparr>)"
          using group_forget_ok [OF ok2(1), of ?k p ?t m3 "?g4\<lparr>gr_manager := m3\<rparr>"] p m3(2,3) ok2(2) by simp_all
        show ?thesis unfolding r m3(1) option.sel using put [OF f] by simp
      qed
    qed
  qed
qed

subsection \<open>Reachable use cases\<close>

text \<open>Up to the point where the topic counter has wrapped around: requests, the start and end of a group's
  manager, and what the sessions of a group do.\<close>

inductive use_reach :: "usecase \<Rightarrow> bool" where
  new: "use_reach NewUsecase"
| subscribe: "use_reach u \<Longrightarrow> unat (us_currTopicID u) + 2 < 2 ^ 32 \<Longrightarrow>
    usecase_Subscribe low (Some u) platform apiKey topic symbol c choice reuse = Ret (Some u', r) \<Longrightarrow> use_reach u'"
| unsubscribe: "use_reach u \<Longrightarrow>
    usecase_Unsubscribe (Some u) platform apiKey topic symbol c choice reuse = Ret (Some u', r) \<Longrightarrow> use_reach u'"
| run: "use_reach u \<Longrightarrow> i < length (us_store u) \<Longrightarrow> use_reach (us_put i (group_run (us_store u ! i)) u)"
| run_end: "use_reach u \<Longrightarrow> i < length (us_store u) \<Longrightarrow> use_reach (us_put i (group_run_end (us_store u ! i)) u)"
| session: "use_reach u \<Longrightarrow> i < length (us_store u) \<Longrightarrow> mg_step (group_manager (us_store u ! i)) m \<Longrightarrow>
    mg_subscriptions m = mg_subscriptions (gr_manager (us_store u ! i)) \<Longrightarrow>
    use_reach (us_put i ((us_store u ! i)\<lparr>gr_manager := m\<rparr>) u)"

lemma RunStart_ok:
  assumes "mg_ok m" "manager_RunStart (Some m) = (m', e)"
  shows "\<exists>m1. m' = Some m1 \<and> mg_ok m1 \<and> mg_subscriptions m1 = mg_subscriptions m"
proof -
  obtain m1 where m1: "m' = Some m1" using assms(2) by (auto simp: manager_RunStart_def Let_def split: if_splits)
  have f: "mg_subscriptions (foldl (\<lambda>m i. mg_upd i f m) m is) = mg_subscriptions m" for f "is" and m :: "'a manager"
    by (induction "is" arbitrary: m) simp_all
  have "mg_subscriptions m1 = mg_subscriptions m" using assms(2) m1 by (auto simp: manager_RunStart_def Let_def f split: if_splits)
  moreover have "mg_ok m1" using mg_step_ok [OF mg_step.run assms(1)] assms(2) m1 by blast
  ultimately show ?thesis using m1 by blast
qed

lemma RunStop_ok: "mg_ok m \<Longrightarrow> mg_ok (manager_RunStop m) \<and> mg_subscriptions (manager_RunStop m) = mg_subscriptions m"
proof -
  have "mg_subscriptions (foldl (\<lambda>m i. mg_upd i f m) m is) = mg_subscriptions m" for f "is" and m :: "'a manager"
    by (induction "is" arbitrary: m) simp_all
  then show "mg_ok m \<Longrightarrow> mg_ok (manager_RunStop m) \<and> mg_subscriptions (manager_RunStop m) = mg_subscriptions m"
    using mg_step_ok [OF mg_step.run_stop] by (simp add: manager_RunStop_def manager_stopAll_def)
qed

lemma group_run_sel:
  assumes "group_ok g"
  shows "group_ok (group_run g)" "ids_upto n (group_run g) = ids_upto n g"
    "gr_platform (group_run g) = gr_platform g" "gr_apiKey (group_run g) = gr_apiKey g"
proof -
  obtain m e where r: "manager_RunStart (Some (group_manager g)) = (m, e)" by fastforce
  have "mg_ok (group_manager g)" using assms by (simp add: group_ok_def)
  from RunStart_ok [OF this r] obtain m1 where m1: "m = Some m1" "mg_ok m1" "mg_subscriptions m1 = mg_subscriptions (gr_manager g)"
    by auto
  then show "group_ok (group_run g)" "ids_upto n (group_run g) = ids_upto n g"
    "gr_platform (group_run g) = gr_platform g" "gr_apiKey (group_run g) = gr_apiKey g"
    using assms by (auto simp: group_run_def r group_ok_def ids_upto_def split: option.split)
qed

lemma us_ok_group: "us_ok u \<Longrightarrow> i < length (us_store u) \<Longrightarrow> group_ok (us_store u ! i) \<and> ids_upto (us_currTopicID u) (us_store u ! i)"
  by (simp add: us_ok_def)

lemma use_reach_ok: "use_reach u \<Longrightarrow> us_ok u"
proof (induction rule: use_reach.induct)
  case new
  show ?case by (rule us_ok_New)
next
  case (subscribe u low platform apiKey topic symbol c choice reuse u' r)
  then show ?case using usecase_Subscribe_ok by blast
next
  case (unsubscribe u platform apiKey topic symbol c choice reuse u' r)
  then show ?case using usecase_Unsubscribe_ok by blast
next
  case (run u i)
  note g = us_ok_group [OF run(3,2)]
  show ?case by (rule us_ok_put_same [OF run(3)]) (use g group_run_sel in simp_all)
next
  case (run_end u i)
  note g = us_ok_group [OF run_end(3,2)]
  have "mg_ok (gr_manager (us_store u ! i))" using g by (simp add: group_ok_def)
  note m = RunStop_ok [OF this]
  show ?case by (rule us_ok_put_same [OF run_end(3)]) (use g m in \<open>simp_all add: group_run_end_def group_ok_def ids_upto_def\<close>)
next
  case (session u i m)
  note g = us_ok_group [OF session(5,2)]
  have "mg_ok m" by (rule mg_step_ok [OF session(3)]) (use g in \<open>simp add: group_ok_def\<close>)
  then show ?case using group_ok_manager [of "us_store u ! i" m] g session(4)
    by (intro us_ok_put_same [OF session(5)]) simp_all
qed

subsection \<open>The last consumer leaves\<close>

text \<open>The codec forgets the topic before the manager asks it for the unsubscribe message, so a connected
  session stays as it is: it is out of the manager's list, still connected and not cancelled.\<close>

lemma usecase_Unsubscribe_leaks:
  assumes "us_ok u" "us_groups u (platform, Str64_String apiKey) = Some i" "g = us_store u ! i"
    and "Platform_IsAvailable platform" "Topic_IsAvailable topic"
    and "gr_topics g (topic, Symbol_String symbol) = Some p" "ts_refCount (gr_states g ! p) = 1" "t = ts_topicID (gr_states g ! p)"
    and "mg_subscriptions (gr_manager g) t = Some s" "mg_desired (gr_manager g) s = {t}"
    and "ss_connected (mg_store (gr_manager g) s)" "\<not> codec_auth_topic (gr_codec g) t"
    and "op_buffers (mg_outbound (gr_manager g)) = Some bp" "pool_ok bp" "0 < ss_controlBufSize (mg_store (gr_manager g) s)"
    and "x \<in> set (bp_sizes bp)" "ss_controlBufSize (mg_store (gr_manager g) s) \<le> x" "x \<le> max_alloc"
  shows "\<exists>u' m. usecase_Unsubscribe (Some u) platform apiKey topic symbol (Some k) choice reuse = Ret (Some u', UseDone None)
    \<and> m = gr_manager (us_store u' ! i) \<and> s \<notin> set (mg_sessions m) \<and> ss_connected (mg_store m s)
    \<and> ss_cancel (mg_store m s) = ss_cancel (mg_store (gr_manager g) s)"
proof -
  have i: "i < length (us_store u)" using assms(1,2) unfolding us_ok_def by blast
  have g: "group_ok g" using us_ok_group [OF assms(1) i] assms(3) by simp
  have okm: "mg_ok (gr_manager g)" using g by (simp add: group_ok_def)
  obtain m e where m: "manager_RemoveConsumer (Some (gr_manager g)) t (Some k) = (m, e)" by fastforce
  obtain m1 where m1: "m = Some m1" "mg_ok m1" "mg_subscriptions m1 = mg_subscriptions (gr_manager g)" "e = None"
    "mg_store m1 = mg_store (gr_manager g)" "mg_outbound m1 = mg_outbound (gr_manager g)"
    using RemoveConsumer_ok [OF okm m] assms(9) by auto
  let ?g1 = "bump p (- 1) (g\<lparr>gr_manager := m1\<rparr>)"
  have p: "p < length (gr_states g)" using ensureTopic_topic(1) [OF g assms(6)] .
  have last: "ts_refCount (gr_states ?g1 ! p) \<le> 0" using p assms(7) by (simp add: bump_def)
  let ?g4 = "?g1\<lparr>gr_topics := (gr_topics ?g1)((topic, Symbol_String symbol) := None),
      gr_topicsByID := (gr_topicsByID ?g1)(t := None), gr_codec := codec_Unregister (gr_codec ?g1) t\<rparr>"
  let ?gm = "group_manager ?g4"
  have ok: "mg_ok ?gm" using m1(2) by simp
  have gm: "mg_subscriptions ?gm t = Some s" "mg_desired ?gm s = {t}" "ss_connected (mg_store ?gm s)"
    "mg_encoder ?gm = Some (codec_encoder (codec_Unregister (gr_codec g) t))" "op_buffers (mg_outbound ?gm) = Some bp"
    "mg_store ?gm = mg_store (gr_manager g)"
    using m1 assms(9-11,13) by (simp_all add: group_manager_def mg_desired_def)
  have enc: "en_unsubscribe (codec_encoder (codec_Unregister (gr_codec g) t)) t 0 = Inl Codec_ErrWebSocketProtocol"
    by (rule codec_encoder_unknown) (simp_all add: assms(12))
  obtain m' where un: "manager_Unsubscribe (Some ?gm) t choice reuse = Ret (Some m', SendErr (EncErr Codec_ErrWebSocketProtocol))"
    "s \<notin> set (mg_sessions m')" "ss_connected (mg_store m' s)" "ss_cancel (mg_store m' s) = ss_cancel (mg_store ?gm s)"
    using manager_Unsubscribe_leak [OF ok gm(1-4) enc gm(5) assms(14) _ assms(16) _ assms(18)] assms(15,17) gm(6) by auto
  let ?u = "us_put i (?g4\<lparr>gr_manager := m'\<rparr>) u"
  have "usecase_Unsubscribe (Some u) platform apiKey topic symbol (Some k) choice reuse = Ret (Some ?u, UseDone None)"
    using assms(2,4-6,8) m m1(1,4) last un(1) by (simp add: usecase_Unsubscribe_def getGroup_def Let_def assms(3) [symmetric])
  moreover have "us_store ?u ! i = ?g4\<lparr>gr_manager := m'\<rparr>" using i by (simp add: us_put_def)
  ultimately show ?thesis using un(2-4) gm(6) by simp
qed

end
