(* ===== verification/Ingest_Properties.thy ===== *)
theory Ingest_Properties
  imports Ingest_Laws
begin

section \<open>Properties of the ingest use case\<close>

text \<open>
  The theorems about \<open>bundle/internal/ingest/usecase.go\<close>, which rest on the manager and on both codecs.
\<close>

text \<open>C28: in every reachable state of the use case, a topic id that \<open>Resolve\<close> knows is subscribed with the
  group's manager and known to its codec, and it is the only id of its topic and symbol text.\<close>

theorem usecase_topics_consistent:
  assumes "use_reach u" "us_groups u k = Some i" "gr_topicsByID (us_store u ! i) t = Some p"
    and "s = gr_states (us_store u ! i) ! p"
  shows "mg_subscriptions (gr_manager (us_store u ! i)) t \<noteq> None \<and> codec_known (gr_codec (us_store u ! i)) t
    \<and> ts_topicID s = t \<and> gr_topics (us_store u ! i) (ts_topic s, Symbol_String (ts_symbol s)) = Some p"
proof -
  have i: "i < length (us_store u)" using use_reach_ok [OF assms(1)] assms(2) unfolding us_ok_def by blast
  have g: "group_ok (us_store u ! i)" using us_ok_group [OF use_reach_ok [OF assms(1)] i] by blast
  then have "tables_ok (gr_topics (us_store u ! i)) (gr_topicsByID (us_store u ! i)) (gr_states (us_store u ! i))"
    by (simp add: group_ok_def)
  then have "ts_topicID s = t \<and> ts_arg s = Symbol_String (ts_symbol s) \<and> gr_topics (us_store u ! i) (ts_key s) = Some p"
    using assms(3,4) unfolding tables_ok_def by blast
  then show ?thesis using g assms(3) by (auto simp: group_ok_def ts_key_def)
qed


text \<open>What a first subscription to a depth topic of BTCC leads to, for the witnesses.\<close>

definition first_subscription :: "(usecase option \<times> use_result) go" where
  "first_subscription = usecase_Subscribe (\<lambda>s. s) (Some NewUsecase) PlatformBTCC (NewStr64 []) TopicDepth
     (NewSymbol ''BTC'' ''USDT'' []) (Some 0) (\<lambda>_. None) False"

lemmas usecase_eval = manager_eval NewUsecase_def usecase_Subscribe_def getOrCreateGroup_def newGroup_def group_start_def
  ensureTopic_def nextTopicID_def group_manager_def us_put_def bump_def manager_AddConsumer_def mg_desired_def newRouter_def
  router_AddConsumer_def rt_list_def

lemma first_subscription_eval:
  obtains u g where "first_subscription = Ret (Some u, UseDone None)" "us_groups u (PlatformBTCC, []) = Some 0"
    "us_store u = [g]" "gr_topics g (TopicDepth, ''BTCUSDT'') = Some 0" "length (gr_states g) = 1"
    "ts_refCount (gr_states g ! 0) = 1" "ts_topicID (gr_states g ! 0) = 1" "gr_topicsByID g 1 = Some 0"
    "mg_subscriptions (gr_manager g) 1 = Some 1" "mg_desired (gr_manager g) 1 = {1}"
    "op_buffers (mg_outbound (gr_manager g)) = Some defaultBufferPool" "ss_controlBufSize (mg_store (gr_manager g) 1) = 16"
    "\<not> codec_auth_topic (gr_codec g) 1"
proof -
  let ?sym = "NewSymbol ''BTC'' ''USDT'' []"
  let ?req = "\<lparr>Ingest_Platform = PlatformBTCC, Ingest_Topic = TopicDepth, Ingest_Symbol = ?sym, Ingest_APIKey = NewStr64 []\<rparr>"
  have c: "snd (codec_Register (\<lambda>s. s) (BtccCodec btcc_NewCodec) 1 ?req) = None" by code_simp
  have a: "\<not> codec_auth_topic (fst (codec_Register (\<lambda>s. s) (BtccCodec btcc_NewCodec) 1 ?req)) 1" by code_simp
  obtain cd where cd: "codec_Register (\<lambda>s. s) (BtccCodec btcc_NewCodec) 1 ?req = (cd, None)" using c by (metis prod.collapse)
  note a = a [unfolded cd fst_conv]
  have k: "Str64_Len (NewStr64 []) = 0" "Str64_String (NewStr64 []) = []" "Symbol_String ?sym = ''BTCUSDT''" by code_simp+
  have i: "bufferPool_InitSize (Some defaultBufferPool) = 16" by code_simp
  have av: "Platform_IsAvailable PlatformBTCC" "Topic_IsAvailable TopicDepth" by code_simp+
  show thesis
    using that cd k i av a by (simp add: usecase_eval first_subscription_def)
qed

theorem usecase_topics_consistent_witness:
  "\<exists>u. first_subscription = Ret (Some u, UseDone None) \<and> codec_known (gr_codec (us_store u ! 0)) 1"
proof -
  obtain u g where u: "first_subscription = Ret (Some u, UseDone None)" "us_groups u (PlatformBTCC, []) = Some 0"
    "us_store u = [g]" "gr_topicsByID g 1 = Some 0" by (rule first_subscription_eval)
  have "use_reach u"
    by (rule use_reach.subscribe [OF use_reach.new _ u(1) [unfolded first_subscription_def]]) (simp add: NewUsecase_def)
  from usecase_topics_consistent [OF this u(2), of 1 0] u show ?thesis by auto
qed




end
