(* ===== verification/Order_Delegator.thy ===== *)
theory Order_Delegator
  imports Adapter_Records Go_Crypto Go_Float Exceptions
    "HOL-Library.Char_ord" "HOL-Library.List_Lexorder" "HOL-Library.Multiset"
begin

section \<open>Sending orders to BTCC\<close>

text \<open>
  \<open>bundle/internal/order/delegator/btcc\<close>. A request body is a map of texts and numbers, here the list of
  its entries; the order in which \<open>range\<close> visits them is the parameter \<open>oe_range\<close>. Outside are
  the clock, \<open>sonic\<close> (marshalling and decoding) and the HTTP client: \<open>oe_do\<close> is the response body or
  nothing on an error, and \<open>oe_decode_place\<close> and \<open>oe_decode_cancel\<close> are the decoded value with the kind
  of the error. Errors are kept without the texts wrapped around them, which \<open>errors.Is\<close> looks through.
\<close>

definition btccBaseUrl :: string where "btccBaseUrl = ''https://spotapi2.btcccdn.com''"
definition btccBaseUrlDev :: string where "btccBaseUrlDev = ''https://spot.cryptouat.com:9910''"

definition pathPlaceLimitOrder :: string where "pathPlaceLimitOrder = ''/btcc_api_trade/order/limit''"
definition pathPlaceMarketOrder :: string where "pathPlaceMarketOrder = ''/btcc_api_trade/order/market''"
definition pathCancelOrder :: string where "pathCancelOrder = ''/btcc_api_trade/order/cancel''"

subsection \<open>Responses\<close>

record ResponseError =
  re_Code :: int
  re_Message :: string

record 't Response =
  rs_Error :: ResponseError
  rs_Data :: 't

record ResponsePlaceOrder =
  rp_ID :: int
  rp_Type :: int
  rp_Side :: int
  rp_User :: int
  rp_Account :: int
  rp_Option :: int
  rp_Ctime :: f64
  rp_Mtime :: f64
  rp_Market :: string
  rp_Source :: string
  rp_ClientID :: string
  rp_Price :: string
  rp_Amount :: string
  rp_TakerFee :: string
  rp_MakerFee :: string
  rp_Left :: string
  rp_DealStock :: string
  rp_DealMoney :: string
  rp_DealFee :: string
  rp_AssetFee :: string
  rp_FeeDiscount :: string
  rp_FeeAsset :: string

record ResponseCancelOrder =
  rc_ID :: int
  rc_Type :: int
  rc_Side :: int
  rc_User :: int
  rc_Account :: int
  rc_Option :: int
  rc_Ctime :: f64
  rc_Mtime :: f64
  rc_Market :: string
  rc_Source :: string
  rc_ClientID :: string
  rc_Price :: string
  rc_Amount :: string
  rc_TakerFee :: string
  rc_MakerFee :: string
  rc_Left :: string
  rc_DealStock :: string
  rc_DealMoney :: string
  rc_DealFee :: string
  rc_AssetFee :: string
  rc_FeeDiscount :: string
  rc_FeeAsset :: "string option"

datatype decode_error = DecodeOk | DecodeEOF | DecodeFailed

datatype delegator_error =
  OrderErr order_error | MarshalErr | RequestErr | DoErr | DecodeErr | BadOrderID

subsection \<open>Requests\<close>

datatype body_value = BStr string | BInt int

type_synonym request_body = "(string \<times> body_value) list"

record http_request =
  hr_url :: string
  hr_payload :: string
  hr_authorization :: string

record order_env =
  oe_unix :: int
  oe_range :: "request_body \<Rightarrow> request_body"
  oe_marshal :: "request_body \<Rightarrow> string option"
  oe_url_ok :: "string \<Rightarrow> bool"
  oe_do :: "http_request \<Rightarrow> string option"
  oe_decode_place :: "string \<Rightarrow> ResponsePlaceOrder Response \<times> decode_error"
  oe_decode_cancel :: "string \<Rightarrow> ResponseCancelOrder Response \<times> decode_error"

record Delegator =
  dg_restBaseUrl :: string
  dg_hasClient :: bool

definition NewDelegator :: "bool \<Rightarrow> bool list \<Rightarrow> Delegator" where
  "NewDelegator hasClient isTestnet =
     \<lparr>dg_restBaseUrl = (if length isTestnet \<noteq> 0 \<and> isTestnet ! 0 then btccBaseUrlDev else btccBaseUrl),
      dg_hasClient = hasClient\<rparr>"

definition btccSide :: "OrderSide \<Rightarrow> int" where
  "btccSide side = (if side = OrderSideSell then 2 else if side = OrderSideBuy then 1 else 1)"

definition btccTimeInForce :: "OrderTimeInForce \<Rightarrow> int" where
  "btccTimeInForce tif =
     (if tif = OrderTimeInForceGTC then 0 else if tif = OrderTimeInForceIOC then 8
      else if tif = OrderTimeInForceFOK then 16 else 0)"

subsection \<open>Signing\<close>

fun sprint_value :: "body_value \<Rightarrow> string" where
  "sprint_value (BStr s) = s"
| "sprint_value (BInt n) = appendInt [] n"

fun join :: "string list \<Rightarrow> string \<Rightarrow> string" where
  "join [] sep = []"
| "join [x] sep = x"
| "join (x # y # r) sep = x @ sep @ join (y # r) sep"

definition signature_text :: "request_body \<Rightarrow> string \<Rightarrow> string" where
  "signature_text visited secret =
     join (sort (map (\<lambda>(k, v). k @ ''='' @ sprint_value v) visited @ [''secret_key='' @ secret])) ''&''"

definition sign :: "order_env \<Rightarrow> request_body \<Rightarrow> string \<Rightarrow> string" where
  "sign env body secret = hex_EncodeToString (md5 (bytes_of (signature_text (oe_range env body) secret)))"

subsection \<open>The exchange\<close>

text \<open>The code \<open>placeOrder\<close> and \<open>cancelOrder\<close> share from the marshalling on: what they read of the decoded
  response is the error and the id.\<close>

definition btcc_exchange ::
  "order_env \<Rightarrow> Delegator \<Rightarrow> (string \<Rightarrow> (ResponseError \<times> int) \<times> decode_error) \<Rightarrow> OrderResponse \<Rightarrow> string \<Rightarrow> request_body
     \<Rightarrow> (OrderResponse \<times> delegator_error option) go" where
  "btcc_exchange env d decode response path body =
     (case oe_marshal env body of
        None \<Rightarrow> Ret (response, Some MarshalErr)
      | Some payload \<Rightarrow>
          let url = dg_restBaseUrl d @ path in
          if \<not> oe_url_ok env url then Ret (response, Some RequestErr)
          else
            let signed = sign env body (Str64_String (Token_Secret (Request_Token (Response_Request response)))) in
            if \<not> dg_hasClient d then Panic
            else case oe_do env \<lparr>hr_url = url, hr_payload = payload, hr_authorization = signed\<rparr> of
              None \<Rightarrow> Ret (response, Some DoErr)
            | Some resp \<Rightarrow>
                let response = response\<lparr>Response_Sent := True\<rparr>;
                    ((err, orderID), decoded) = decode resp
                in if decoded = DecodeFailed
                   then Ret (SetInternalError response (order_error_text ErrOrderDecodeResponseBody), Some DecodeErr)
                   else if re_Code err \<noteq> 0 then Ret (SetError response (re_Code err) (re_Message err), None)
                   else if orderID = 0
                   then Ret (SetInternalError response (order_error_text ErrOrderEmptyResponseOrderID),
                             Some (OrderErr ErrOrderEmptyResponseOrderID))
                   else Ret (response\<lparr>Response_OrderID := NewStr64 (appendInt [] orderID)\<rparr>, None))"

definition new_response :: "OrderRequest \<Rightarrow> OrderResponse" where
  "new_response req = \<lparr>Response_Request = req, Response_OrderID = replicate 64 NUL, Response_Sent = False,
     Response_Code = 0, Response_Msg = replicate 64 NUL\<rparr>"

definition order_body :: "order_env \<Rightarrow> OrderRequest \<Rightarrow> (string \<times> request_body) option" where
  "order_body env req =
     (let i = Request_Intent req in
      if Intent_Type i = OrderTypeLimit then Some (pathPlaceLimitOrder,
        [(''access_id'', BStr (Str64_AppendBytes (Token_Key (Request_Token req)) [])),
         (''tm'', BInt (oe_unix env)),
         (''market'', BStr (Symbol_AppendBytes (Intent_Symbol i) [])),
         (''side'', BInt (btccSide (Intent_Side i))),
         (''price'', BStr (Decimal_AppendBytes (Intent_Price i) [])),
         (''amount'', BStr (Decimal_AppendBytes (Intent_Quantity i) [])),
         (''source'', BStr (Str64_AppendBytes (Intent_Source i) [])),
         (''option'', BInt (btccTimeInForce (Intent_TimeInForce i))),
         (''client_id'', BStr (Str64_AppendBytes (Intent_ClientOrderID i) []))])
      else if Intent_Type i = OrderTypeMarket then Some (pathPlaceMarketOrder,
        [(''access_id'', BStr (Str64_AppendBytes (Token_Key (Request_Token req)) [])),
         (''tm'', BInt (oe_unix env)),
         (''market'', BStr (Symbol_AppendBytes (Intent_Symbol i) [])),
         (''side'', BInt (btccSide (Intent_Side i))),
         (''amount'', BStr (Decimal_AppendBytes (Intent_Quantity i) [])),
         (''source'', BStr (Str64_AppendBytes (Intent_Source i) [])),
         (''client_id'', BStr (Str64_AppendBytes (Intent_ClientOrderID i) []))])
      else None)"

definition placeOrder :: "order_env \<Rightarrow> Delegator \<Rightarrow> OrderRequest \<Rightarrow> (OrderResponse \<times> delegator_error option) go" where
  "placeOrder env d req =
     (let response = new_response req in
      if Intent_Platform (Request_Intent req) \<noteq> PlatformBTCC then Ret (response, Some (OrderErr ErrOrderMismatchPlatform))
      else case order_body env req of
        None \<Rightarrow> Ret (response, Some (OrderErr ErrOrderUnsupportedType))
      | Some (path, body) \<Rightarrow>
          btcc_exchange env d (\<lambda>r. case oe_decode_place env r of (x, e) \<Rightarrow> ((rs_Error x, rp_ID (rs_Data x)), e)) response path body)"

definition cancelOrder :: "order_env \<Rightarrow> Delegator \<Rightarrow> OrderRequest \<Rightarrow> (OrderResponse \<times> delegator_error option) go" where
  "cancelOrder env d req =
     (let response = new_response req in
      if Intent_Platform (Request_Intent req) \<noteq> PlatformBTCC then Ret (response, Some (OrderErr ErrOrderMismatchPlatform))
      else
        let orderID = fst (parseInt (Str64_AppendBytes (Intent_ID (Request_Intent req)) []));
            body = [(''access_id'', BStr (Str64_AppendBytes (Token_Key (Request_Token req)) [])),
                    (''tm'', BInt (oe_unix env)),
                    (''market'', BStr (Symbol_AppendBytes (Intent_Symbol (Request_Intent req)) [])),
                    (''id'', BInt orderID)]
        in if orderID = 0 then Ret (response, Some BadOrderID)
           else btcc_exchange env d (\<lambda>r. case oe_decode_cancel env r of (x, e) \<Rightarrow> ((rs_Error x, rc_ID (rs_Data x)), e))
                  response pathCancelOrder body)"

definition zero_OrderRequest :: OrderRequest where
  "zero_OrderRequest = \<lparr>Request_Intent = \<lparr>Intent_Symbol = replicate 32 NUL, Intent_Platform = 0, Intent_Action = 0, Intent_Type = 0,
     Intent_Side = 0, Intent_Price = zero_Decimal, Intent_Quantity = zero_Decimal, Intent_TimeInForce = 0,
     Intent_CreatedTime = 0, Intent_ID = replicate 64 NUL, Intent_ClientOrderID = replicate 64 NUL,
     Intent_Source = replicate 64 NUL\<rparr>, Request_Token = \<lparr>Token_Key = replicate 64 NUL, Token_Secret = replicate 64 NUL\<rparr>\<rparr>"

definition Delegator_Send :: "order_env \<Rightarrow> Delegator \<Rightarrow> OrderRequest \<Rightarrow> (OrderResponse \<times> delegator_error option) go" where
  "Delegator_Send env d req =
     (if Intent_Action (Request_Intent req) = OrderActionPlaceOrder then placeOrder env d req
      else if Intent_Action (Request_Intent req) = OrderActionCancelOrder then cancelOrder env d req
      else Ret (new_response zero_OrderRequest, Some (OrderErr ErrOrderUnsupportedAction)))"

subsection \<open>What the signature depends on\<close>

lemma sort_mset_cong: "mset xs = mset ys \<Longrightarrow> sort xs = sort ys"
  by (metis mset_sort properties_for_sort sorted_sort)

lemma signature_text_cong: "mset b = mset b' \<Longrightarrow> signature_text b s = signature_text b' s"
  unfolding signature_text_def
  by (rule arg_cong [where f = "\<lambda>l. join l _"], rule sort_mset_cong) simp

lemma sign_sorted:
  assumes "mset (oe_range env body) = mset body"
  shows "sign env body secret = hex_EncodeToString (md5 (bytes_of (signature_text body secret)))"
  using signature_text_cong [OF assms] by (simp add: sign_def)

subsection \<open>How an exchange ends\<close>

text \<open>The response is marked as sent exactly when the request went out; without an error it either has the
  exchange's code and message or a decimal order id.\<close>

lemma SetError_sel [simp]:
  "Response_Request (SetError r c m) = Response_Request r" "Response_Sent (SetError r c m) = Response_Sent r"
  "Response_Request (SetInternalError r m) = Response_Request r" "Response_Sent (SetInternalError r m) = Response_Sent r"
  "Response_Code (SetError r c m) = c" "Response_Code (SetInternalError r m) = CodeInternalError"
  by (simp_all add: SetError_def SetInternalError_def)

lemma Str64_Len_zero [simp]: "Str64_Len (replicate n NUL) = 0"
  by (simp add: Str64_Len_String Str64_String_eq)

lemma exchange_outcome:
  assumes "btcc_exchange env d decode (new_response req) path body = Ret (resp, e)"
  shows "Response_Request resp = req"
    and "e = None \<Longrightarrow> Response_Sent resp \<and> (Response_Code resp \<noteq> 0
        \<or> Response_Code resp = 0 \<and> (\<exists>n. n \<noteq> 0 \<and> Response_OrderID resp = NewStr64 (appendInt [] n) \<and> OrderResponse_Error resp = None))"
    and "\<not> Response_Sent resp \<Longrightarrow> Response_Code resp = 0 \<and> e \<in> {Some MarshalErr, Some RequestErr, Some DoErr}"
  using assms
  by (auto simp: btcc_exchange_def Let_def new_response_def OrderResponse_Error_def split: option.splits if_splits prod.splits)

end
