(* ===== verification/Order_Usecase.thy ===== *)
theory Order_Usecase
  imports Order_Delegator
begin

section \<open>The order use case\<close>

text \<open>
  \<open>bundle/internal/order/usecase.go\<close>. The queue is a channel: a send hands the request to a worker that
  waits in its select (\<open>ou_idle\<close> of them), else goes into the buffer while there is room. A request a
  worker has taken is in \<open>ou_busy\<close>. A delegator is an interface value, possibly nil; logging and the
  normaliser clients, which nothing uses, are left out.
\<close>

type_synonym delegator = "OrderRequest \<Rightarrow> (OrderResponse \<times> delegator_error option) go"

record order_usecase =
  ou_btcc :: "delegator option"
  ou_binance :: "delegator option"
  ou_running :: bool
  ou_worker :: int
  ou_cap :: nat
  ou_queue :: "OrderRequest list"
  ou_idle :: nat
  ou_busy :: "OrderRequest list"

text \<open>\<open>make(chan, n)\<close> panics for a negative capacity.\<close>

definition order_NewUsecase :: "int \<Rightarrow> int \<Rightarrow> delegator option \<Rightarrow> delegator option \<Rightarrow> order_usecase go" where
  "order_NewUsecase workerCount workerCap btcc binance =
     (if workerCap < 0 then Panic
      else Ret \<lparr>ou_btcc = btcc, ou_binance = binance, ou_running = False, ou_worker = workerCount,
        ou_cap = nat workerCap, ou_queue = [], ou_idle = 0, ou_busy = []\<rparr>)"

definition order_Handle :: "order_usecase \<Rightarrow> OrderRequest \<Rightarrow> order_usecase \<times> order_error option" where
  "order_Handle u req =
     (if 0 < ou_idle u then (u\<lparr>ou_idle := ou_idle u - 1, ou_busy := ou_busy u @ [req]\<rparr>, None)
      else if length (ou_queue u) < ou_cap u then (u\<lparr>ou_queue := ou_queue u @ [req]\<rparr>, None)
      else (u, Some ErrOrderQueueFull))"

text \<open>A worker that reaches its select takes the oldest request or waits; \<open>worker_done\<close> is the other case
  of the select.\<close>

definition worker_select :: "order_usecase \<Rightarrow> order_usecase" where
  "worker_select u =
     (case ou_queue u of
        [] \<Rightarrow> u\<lparr>ou_idle := ou_idle u + 1\<rparr>
      | req # rest \<Rightarrow> u\<lparr>ou_queue := rest, ou_busy := ou_busy u @ [req]\<rparr>)"

definition worker_done :: "order_usecase \<Rightarrow> order_usecase" where
  "worker_done u = u\<lparr>ou_idle := ou_idle u - 1\<rparr>"

definition order_Run :: "order_usecase \<Rightarrow> order_usecase" where
  "order_Run u =
     (if ou_running u then u
      else foldl (\<lambda>u _. worker_select u) (u\<lparr>ou_running := True\<rparr>) [0..<nat (ou_worker u)])"

text \<open>One request in a worker: the binance case panics before anything is sent, and a platform the switch
  does not name leaves the delegator nil.\<close>

definition worker_process :: "order_usecase \<Rightarrow> OrderRequest \<Rightarrow> (OrderResponse \<times> delegator_error option) go" where
  "worker_process u req =
     (if Intent_Platform (Request_Intent req) = PlatformBTCC
      then (case ou_btcc u of None \<Rightarrow> Panic | Some send \<Rightarrow> send req)
      else if Intent_Platform (Request_Intent req) = PlatformBinance then Panic
      else Panic)"

subsection \<open>Runs\<close>

text \<open>The states of a use case, with the requests accepted and the requests whose sending has returned.\<close>

inductive order_run :: "order_usecase \<Rightarrow> order_usecase \<Rightarrow> OrderRequest list \<Rightarrow> OrderRequest list \<Rightarrow> bool" for u0 where
  begin_run: "order_run u0 u0 [] []"
| accept: "order_run u0 u acc don \<Longrightarrow> order_Handle u req = (u', None) \<Longrightarrow> order_run u0 u' (acc @ [req]) don"
| refuse: "order_run u0 u acc don \<Longrightarrow> order_Handle u req = (u', Some e) \<Longrightarrow> order_run u0 u' acc don"
| start: "order_run u0 u acc don \<Longrightarrow> order_run u0 (order_Run u) acc don"
| served: "order_run u0 u acc don \<Longrightarrow> ou_busy u = l @ req # r \<Longrightarrow> worker_process u req = Ret res \<Longrightarrow>
    order_run u0 (worker_select (u\<lparr>ou_busy := l @ r\<rparr>)) acc (don @ [req])"
| stopped: "order_run u0 u acc don \<Longrightarrow> 0 < ou_idle u \<Longrightarrow> order_run u0 (worker_done u) acc don"

definition order_ok :: "order_usecase \<Rightarrow> OrderRequest list \<Rightarrow> OrderRequest list \<Rightarrow> bool" where
  "order_ok u acc don \<longleftrightarrow> mset acc = mset (ou_queue u) + mset (ou_busy u) + mset don
     \<and> length (ou_queue u) \<le> ou_cap u \<and> (0 < ou_idle u \<longrightarrow> ou_queue u = [])
     \<and> (\<exists>taken. acc = taken @ ou_queue u)"

lemma order_ok_Handle:
  assumes "order_ok u acc don" "order_Handle u req = (u', e)"
  shows "order_ok u' (if e = None then acc @ [req] else acc) don"
  using assms by (auto simp: order_ok_def order_Handle_def split: if_splits)

lemma order_ok_select: "order_ok u acc don \<Longrightarrow> order_ok (worker_select u) acc don"
  by (auto simp: order_ok_def worker_select_def split: list.split)

lemma order_ok_selects: "order_ok u acc don \<Longrightarrow> order_ok (foldl (\<lambda>u _. worker_select u) u xs) acc don"
  by (induction xs arbitrary: u) (simp_all add: order_ok_select)

lemma order_run_ok: "order_run u0 u acc don \<Longrightarrow> order_ok u0 [] [] \<Longrightarrow> order_ok u acc don"
proof (induction rule: order_run.induct)
  case (accept u acc don req u')
  then show ?case using order_ok_Handle [of u acc don req u' None] by simp
next
  case (refuse u acc don req u' e)
  then show ?case using order_ok_Handle [of u acc don req u' "Some e"] by simp
next
  case (start u acc don)
  then have "order_ok (u\<lparr>ou_running := True\<rparr>) acc don" by (simp add: order_ok_def)
  then show ?case using start by (simp add: order_Run_def order_ok_selects)
next
  case (served u acc don l req r res)
  then have "order_ok (u\<lparr>ou_busy := l @ r\<rparr>) acc (don @ [req])" by (simp add: order_ok_def)
  then show ?case by (rule order_ok_select)
next
  case (stopped u acc don)
  then show ?case by (auto simp: order_ok_def worker_done_def)
qed simp

end
