(* ===== verification/Order_Properties.thy ===== *)
theory Order_Properties
  imports Order_Usecase
begin

section \<open>Properties of sending orders\<close>

text \<open>
  The theorems about \<open>bundle/internal/order\<close>: the queue and its workers, and what one request to BTCC comes to.
\<close>

text \<open>C40: the text that is signed is the entries of the body and the secret, sorted: it does not depend on the
  order in which the map is visited, so the signature is the same in every run.\<close>

theorem signature_order_independent:
  assumes "mset (oe_range env body) = mset body"
  shows "sign env body secret = hex_EncodeToString (md5 (bytes_of (join
    (sort (map (\<lambda>(k, v). k @ ''='' @ sprint_value v) body @ [''secret_key='' @ secret])) ''&'')))"
  using sign_sorted [OF assms] by (simp add: signature_text_def)

theorem signature_order_independent_witness:
  "sign \<lparr>oe_unix = 7, oe_range = rev, oe_marshal = (\<lambda>_. None), oe_url_ok = (\<lambda>_. True), oe_do = (\<lambda>_. None),
      oe_decode_place = (\<lambda>_. undefined), oe_decode_cancel = (\<lambda>_. undefined)\<rparr>
     [(''tm'', BInt 7), (''id'', BInt 5)] ''s''
   = hex_EncodeToString (md5 (bytes_of ''id=5&secret_key=s&tm=7''))"
proof -
  let ?env = "\<lparr>oe_unix = 7, oe_range = rev, oe_marshal = (\<lambda>_. None), oe_url_ok = (\<lambda>_. True), oe_do = (\<lambda>_. None),
      oe_decode_place = (\<lambda>_. undefined), oe_decode_cancel = (\<lambda>_. undefined)\<rparr>"
  let ?b = "[(''tm'', BInt 7), (''id'', BInt 5)]"
  have "join (sort (map (\<lambda>(k, v). k @ ''='' @ sprint_value v) ?b @ [''secret_key='' @ ''s''])) ''&'' = ''id=5&secret_key=s&tm=7''"
    by code_simp
  then show ?thesis using signature_order_independent [of ?env ?b "''s''"] by simp
qed



text \<open>\<open>cancelOrder\<close> ignores the range error of \<open>ParseInt\<close>: an order id text beyond int64 is sent as the
  largest int64, a different order, instead of being refused.\<close>

lemma cancel_id_clamped:
  assumes "Intent_Platform (Request_Intent req) = PlatformBTCC"
    and "parseInt (Str64_AppendBytes (Intent_ID (Request_Intent req)) []) = (v, Some ErrRange)"
  shows "cancelOrder env d req = btcc_exchange env d
    (\<lambda>r. case oe_decode_cancel env r of (x, e) \<Rightarrow> ((rs_Error x, rc_ID (rs_Data x)), e)) (new_response req) pathCancelOrder
    [(''access_id'', BStr (Str64_AppendBytes (Token_Key (Request_Token req)) [])), (''tm'', BInt (oe_unix env)),
     (''market'', BStr (Symbol_AppendBytes (Intent_Symbol (Request_Intent req)) [])), (''id'', BInt v)]
    \<and> v \<in> {2 ^ 63 - 1, - (2 ^ 63)}"
proof -
  have "v \<in> {2 ^ 63 - 1, - (2 ^ 63)}"
    using assms(2) by (auto simp: parseInt_def Let_def split: if_splits sum.splits num_error.splits)
  then show ?thesis using assms by (auto simp: cancelOrder_def Let_def)
qed

definition far_cancel :: OrderRequest where
  "far_cancel = zero_OrderRequest\<lparr>Request_Intent := (Request_Intent zero_OrderRequest)\<lparr>Intent_Platform := PlatformBTCC,
     Intent_Action := OrderActionCancelOrder, Intent_ID := NewStr64 ''99999999999999999999''\<rparr>\<rparr>"

lemma cancel_id_clamped_witness:
  "\<forall>env d. \<exists>f. cancelOrder env d far_cancel = btcc_exchange env d f (new_response far_cancel) pathCancelOrder
    [(''access_id'', BStr []), (''tm'', BInt (oe_unix env)), (''market'', BStr []), (''id'', BInt 9223372036854775807)]"
proof -
  have p: "Intent_Platform (Request_Intent far_cancel) = PlatformBTCC" by (simp add: far_cancel_def)
  have i: "Str64_AppendBytes (Intent_ID (Request_Intent far_cancel)) [] = ''99999999999999999999''"
    unfolding far_cancel_def by code_simp
  have l: "parseUint_loop ''99999999999999999999'' 0 = Inl ErrRange" by (simp add: go_eval)
  have q: "parseInt (Str64_AppendBytes (Intent_ID (Request_Intent far_cancel)) []) = (9223372036854775807, Some ErrRange)"
    unfolding i by (simp add: parseInt_def l del: parseUint_loop.simps)
  have "Str64_AppendBytes (Token_Key (Request_Token far_cancel)) [] = []" by code_simp
  moreover have "Symbol_AppendBytes (Intent_Symbol (Request_Intent far_cancel)) [] = []" by code_simp
  ultimately show ?thesis using cancel_id_clamped [OF p q] by auto
qed

text \<open>The worker panics on every request that is not for BTCC, whatever its delegators are, although
  \<open>Handle\<close> accepts such a request whenever a worker waits or there is room.\<close>

lemma worker_panics_off_btcc:
  assumes "Intent_Platform (Request_Intent req) \<noteq> PlatformBTCC"
  shows "worker_process u req = Panic
    \<and> (0 < ou_idle u \<or> length (ou_queue u) < ou_cap u \<longrightarrow> snd (order_Handle u req) = None)"
  using assms by (simp add: worker_process_def order_Handle_def)

lemma worker_panics_off_btcc_witness:
  "\<exists>u. order_NewUsecase 2 3 None None = Ret u \<and> worker_process u zero_OrderRequest = Panic
    \<and> snd (order_Handle u zero_OrderRequest) = None"
proof -
  let ?u = "\<lparr>ou_btcc = None, ou_binance = None, ou_running = False, ou_worker = 2, ou_cap = 3, ou_queue = [],
    ou_idle = 0, ou_busy = []\<rparr>"
  have n: "order_NewUsecase 2 3 None None = Ret ?u" by (simp add: order_NewUsecase_def)
  have "Intent_Platform (Request_Intent zero_OrderRequest) \<noteq> PlatformBTCC" by (simp add: zero_OrderRequest_def)
  from worker_panics_off_btcc [OF this, of ?u] n show ?thesis by auto
qed



end
