(* ===== verification/Go_Strings.thy ===== *)
theory Go_Strings
  imports Adapter_Symbol
begin

section \<open>The part of strings, strconv and filepath the commands use\<close>

text \<open>
  \<open>strings.TrimSpace\<close>, \<open>strings.Fields\<close> and \<open>strings.ToLower\<close> are defined on ASCII text; on other text, where they follow
  the Unicode tables, they are the parameter \<open>unicode_tables\<close>. \<open>strconv.Atoi\<close> accepts and computes what
  \<open>ParseInt\<close> does. A path is cleaned component by component, as \<open>filepath.Clean\<close> describes.
\<close>

record unicode_tables =
  ut_lower :: "string \<Rightarrow> string"
  ut_trim :: "string \<Rightarrow> string"
  ut_fields :: "string \<Rightarrow> string list"

definition seven_bit :: "string \<Rightarrow> bool" where
  "seven_bit s \<longleftrightarrow> (\<forall>c \<in> set s. code c < 128)"

definition trim_space_char :: "char \<Rightarrow> bool" where
  [go_eval]: "trim_space_char c \<longleftrightarrow> code c \<in> {9, 10, 11, 12, 13, 32}"

definition trim_ascii :: "string \<Rightarrow> string" where
  "trim_ascii s = rev (dropWhile trim_space_char (rev (dropWhile trim_space_char s)))"

definition TrimSpace :: "unicode_tables \<Rightarrow> string \<Rightarrow> string" where
  "TrimSpace ut s = (if seven_bit s then trim_ascii s else ut_trim ut s)"

definition lower_ascii :: "char \<Rightarrow> char" where
  [go_eval]: "lower_ascii c = (if 65 \<le> code c \<and> code c \<le> 90 then char_of (code c + 32) else c)"

definition ToLower :: "unicode_tables \<Rightarrow> string \<Rightarrow> string" where
  "ToLower ut s = (if seven_bit s then map lower_ascii s else ut_lower ut s)"

definition ReplaceAll :: "char \<Rightarrow> char \<Rightarrow> string \<Rightarrow> string" where
  "ReplaceAll old nw s = map (\<lambda>c. if c = old then nw else c) s"

fun fields_ascii :: "string \<Rightarrow> string \<Rightarrow> string list" where
  "fields_ascii word [] = (if word = [] then [] else [word])"
| "fields_ascii word (c # cs) =
     (if trim_space_char c then (if word = [] then fields_ascii [] cs else word # fields_ascii [] cs)
      else fields_ascii (word @ [c]) cs)"

definition Fields :: "unicode_tables \<Rightarrow> string \<Rightarrow> string list" where
  "Fields ut s = (if seven_bit s then fields_ascii [] s else ut_fields ut s)"

definition HasPrefix :: "string \<Rightarrow> string \<Rightarrow> bool" where
  "HasPrefix s p \<longleftrightarrow> take (length p) s = p"

definition TrimPrefix :: "string \<Rightarrow> string \<Rightarrow> string" where
  "TrimPrefix s p = (if HasPrefix s p then drop (length p) s else s)"

definition TrimSuffix :: "string \<Rightarrow> string \<Rightarrow> string" where
  "TrimSuffix s p =
     (if length p \<le> length s \<and> drop (length s - length p) s = p then take (length s - length p) s else s)"

text \<open>The value and whether there was no error.\<close>

definition Atoi :: "string \<Rightarrow> int option" where
  "Atoi s = (case parseInt s of (n, None) \<Rightarrow> Some n | _ \<Rightarrow> None)"

definition hex_digit :: "nat \<Rightarrow> char" where
  [go_eval]: "hex_digit d = (if d < 10 then char_of (48 + d) else char_of (87 + d))"

function FormatHex :: "nat \<Rightarrow> string" where
  "FormatHex n = (if n < 16 then [hex_digit n] else FormatHex (n div 16) @ [hex_digit (n mod 16)])"
  by pat_completeness auto
termination
  by (relation "measure id") auto

declare FormatHex.simps [simp del]

subsection \<open>Paths\<close>

fun split_on :: "char \<Rightarrow> string \<Rightarrow> string list" where
  "split_on c [] = [[]]"
| "split_on c (x # xs) =
     (if x = c then [] # split_on c xs else (case split_on c xs of p # ps \<Rightarrow> (x # p) # ps | [] \<Rightarrow> [[x]]))"

definition clean_step :: "bool \<Rightarrow> string list \<Rightarrow> string \<Rightarrow> string list" where
  "clean_step rooted acc part =
     (if part = [] \<or> part = ''.'' then acc
      else if part = ''..'' then
        (if acc \<noteq> [] \<and> last acc \<noteq> ''..'' then butlast acc
         else if rooted then acc else acc @ [''..''])
      else acc @ [part])"

fun join_path :: "string list \<Rightarrow> string" where
  "join_path [] = []"
| "join_path [p] = p"
| "join_path (p # q # r) = p @ ''/'' @ join_path (q # r)"

definition path_Clean :: "string \<Rightarrow> string" where
  "path_Clean path =
     (if path = [] then ''.''
      else
        let rooted = (hd path = CHR ''/'');
            out = (if rooted then ''/'' else []) @ join_path (foldl (clean_step rooted) [] (split_on (CHR ''/'') path))
        in if out = [] then ''.'' else out)"

text \<open>\<open>filepath.Join\<close> of two elements and \<open>filepath.Dir\<close>.\<close>

definition path_Join :: "string \<Rightarrow> string \<Rightarrow> string" where
  "path_Join a b =
     (if a = [] \<and> b = [] then []
      else if a = [] then path_Clean b
      else path_Clean (a @ ''/'' @ b))"

definition path_Dir :: "string \<Rightarrow> string" where
  "path_Dir path = path_Clean (rev (dropWhile (\<lambda>c. c \<noteq> CHR ''/'') (rev path)))"

definition path_Base :: "string \<Rightarrow> string" where
  "path_Base path =
     (if path = [] then ''.''
      else
        let path = rev (takeWhile (\<lambda>c. c \<noteq> CHR ''/'') (dropWhile (\<lambda>c. c = CHR ''/'') (rev path)))
        in if path = [] then ''/'' else path)"

definition path_Ext :: "string \<Rightarrow> string" where
  "path_Ext path =
     (let back_part = takeWhile (\<lambda>c. c \<noteq> CHR ''/'') (rev path);
          ext = takeWhile (\<lambda>c. c \<noteq> CHR ''.'') back_part
      in if length ext < length back_part then CHR ''.'' # rev ext else [])"

end
