(* ===== verification/Ingest_Socket.thy ===== *)
theory Ingest_Socket
  imports Go_Strings Adapter_Codable Exceptions
begin

section \<open>The ingest socket: names, requests and responses\<close>

text \<open>
  What \<open>bundle/cmd/ingest/main.go\<close> and \<open>bundle/cmd/ingest_test_client/main.go\<close> have to agree on: the socket's
  file name, the platform and topic texts and the frames on the connection. The two files hold copies of
  several functions; the client's are the \<open>client_\<close> ones, and the lemmas show they are equal to the server's.
  A connection that writes is the list of what its \<open>Write\<close> calls return (bytes written and whether there was
  an error), one that is read is the list of bytes before its end.
\<close>

definition defaultUDSDir :: string where "defaultUDSDir = ''/tmp/go-hft''"
definition reqHeaderSize :: nat where "reqHeaderSize = 4"
definition respHeaderSize :: nat where [simp]: "respHeaderSize = 4"
definition maxUint16 :: nat where [simp]: "maxUint16 = 65535"
definition maxTopicName :: nat where [simp]: "maxTopicName = 64"

datatype cmd_error = MissingPlatform | UnknownPlatform string | MissingTopic | UnknownTopic string | MissingSocketTopic

subsection \<open>Names\<close>

definition hashBytes :: "string \<Rightarrow> u64" where
  "hashBytes data = foldl (\<lambda>hash c. (hash XOR of_nat (code c)) * 1099511628211) 14695981039346656037 data"

definition sanitizeSegment :: "unicode_tables \<Rightarrow> string \<Rightarrow> string \<Rightarrow> string" where
  "sanitizeSegment ut value fallback =
     (let value = TrimSpace ut (ToLower ut value) in
      if value = [] then fallback
      else
        let value = ReplaceAll (CHR ''/'') (CHR ''_'') value;
            value = ReplaceAll (CHR 0x5C) (CHR ''_'') value;
            value = ReplaceAll (CHR '' '') (CHR ''_'') value
        in if maxTopicName < length value
           then take maxTopicName value @ ''-'' @ FormatHex (unat (hashBytes value))
           else value)"

definition buildSocketFilename :: "unicode_tables \<Rightarrow> string \<Rightarrow> string" where
  "buildSocketFilename ut platformName =
     (let platformSegment = sanitizeSegment ut platformName [] in ''marketdata-'' @ platformSegment)"

definition parsePlatform :: "unicode_tables \<Rightarrow> string \<Rightarrow> cmd_error + Platform" where
  "parsePlatform ut value =
     (let val = TrimSpace ut (ToLower ut value) in
      if val = [] then Inl MissingPlatform
      else if val = ''btcc'' then Inr PlatformBTCC
      else if val = ''binance'' then Inr PlatformBinance
      else case Atoi val of
        Some num \<Rightarrow>
          (let p = (word_of_int num :: Platform)
           in if \<not> Platform_IsAvailable p then Inl (UnknownPlatform value) else Inr p)
      | None \<Rightarrow> Inl (UnknownPlatform value))"

subsection \<open>Writing\<close>

datatype write_result = Written | WriteFailed | WriteWaiting

text \<open>Each \<open>Write\<close> returns how much of the rest it has written; a count beyond it would make the slice panic.\<close>

fun writeFull :: "(nat \<times> bool) list \<Rightarrow> byte list \<Rightarrow> byte list \<Rightarrow> (byte list \<times> (nat \<times> bool) list \<times> write_result) go" where
  "writeFull writes out [] = Ret (out, writes, Written)"
| "writeFull [] out (b # bs) = Ret (out, [], WriteWaiting)"
| "writeFull ((n, failed) # writes) out (b # bs) =
     (let out' = out @ take n (b # bs) in
      if failed then Ret (out', writes, WriteFailed)
      else if length (b # bs) < n then Panic
      else writeFull writes out' (drop n (b # bs)))"

definition response_frame :: "Platform \<Rightarrow> Topic \<Rightarrow> byte list \<Rightarrow> byte list \<Rightarrow> byte list" where
  "response_frame platform topic arg payload =
     (let argLen = length arg;
          buf = replicate (respHeaderSize + argLen + length payload) (0 :: byte);
          buf = buf[0 := platform];
          buf = buf[1 := topic];
          buf = take 2 buf @ enc_be 2 (int argLen mod 2 ^ 16) @ drop 4 buf;
          buf = take respHeaderSize buf @ copy_into (slice buf respHeaderSize (respHeaderSize + argLen)) arg
                  @ drop (respHeaderSize + argLen) buf
      in take (respHeaderSize + argLen) buf @ copy_into (drop (respHeaderSize + argLen) buf) payload)"

datatype response_result = ResponseRefused ingest_error | ResponseSent "byte list" write_result

definition writeResponse ::
  "(nat \<times> bool) list option \<Rightarrow> Platform \<Rightarrow> Topic \<Rightarrow> byte list \<Rightarrow> byte list \<Rightarrow> ((nat \<times> bool) list option \<times> response_result) go" where
  "writeResponse conn platform topic arg payload =
     (case conn of
        None \<Rightarrow> Ret (None, ResponseRefused ErrIngestInvalidRequest)
      | Some writes \<Rightarrow>
          if maxUint16 < length arg then Ret (Some writes, ResponseRefused ErrIngestInvalidRequest)
          else go_bind (writeFull writes [] (response_frame platform topic arg payload)) (\<lambda>(out, writes, r).
                 Ret (Some writes, ResponseSent out r)))"

subsection \<open>The test client\<close>

record response =
  resp_Platform :: Platform
  resp_Topic :: Topic
  resp_Arg :: string
  resp_Payload :: "byte list"

datatype client_error = NilConn | ConnEOF | UnknownKind Topic

definition payloadSize :: "Topic \<Rightarrow> client_error + nat" where
  "payloadSize kind =
     (if kind = TopicDepth then Inr Depth_SizeInByte
      else if kind = TopicOrder then Inr Order_SizeInByte
      else Inl (UnknownKind kind))"

text \<open>\<open>io.ReadFull\<close>: all of the bytes or an error, with what it has read gone from the connection.\<close>

definition io_ReadFull :: "nat \<Rightarrow> byte list \<Rightarrow> byte list option \<times> byte list" where
  "io_ReadFull n input = (if n \<le> length input then (Some (take n input), drop n input) else (None, []))"

definition readResponse :: "byte list option \<Rightarrow> byte list option \<times> (client_error + response)" where
  "readResponse conn =
     (case conn of
        None \<Rightarrow> (None, Inl NilConn)
      | Some input \<Rightarrow>
          (case io_ReadFull respHeaderSize input of
             (None, input) \<Rightarrow> (Some input, Inl ConnEOF)
           | (Some header, input) \<Rightarrow>
               (let argLen = nat (dec_be (slice header 2 4)) in
                case (if 0 < argLen then io_ReadFull argLen input else (Some [], input)) of
                  (None, input) \<Rightarrow> (Some input, Inl ConnEOF)
                | (Some arg, input) \<Rightarrow>
                    (case payloadSize (header ! 1) of
                       Inl e \<Rightarrow> (Some input, Inl e)
                     | Inr n \<Rightarrow>
                         (case (if 0 < n then io_ReadFull n input else (Some [], input)) of
                            (None, input) \<Rightarrow> (Some input, Inl ConnEOF)
                          | (Some payload, input) \<Rightarrow>
                              (Some input, Inr \<lparr>resp_Platform = header ! 0, resp_Topic = header ! 1,
                                 resp_Arg = text_of arg, resp_Payload = payload\<rparr>))))))"

definition client_hashBytes :: "string \<Rightarrow> u64" where
  "client_hashBytes data = foldl (\<lambda>hash c. (hash XOR of_nat (code c)) * 1099511628211) 14695981039346656037 data"

definition client_sanitizeSegment :: "unicode_tables \<Rightarrow> string \<Rightarrow> string \<Rightarrow> string" where
  "client_sanitizeSegment ut value fallback =
     (let value = TrimSpace ut (ToLower ut value) in
      if value = [] then fallback
      else
        let value = ReplaceAll (CHR ''/'') (CHR ''_'') value;
            value = ReplaceAll (CHR 0x5C) (CHR ''_'') value;
            value = ReplaceAll (CHR '' '') (CHR ''_'') value
        in if maxTopicName < length value
           then take maxTopicName value @ ''-'' @ FormatHex (unat (client_hashBytes value))
           else value)"

definition client_buildSocketFilename :: "unicode_tables \<Rightarrow> string \<Rightarrow> string \<Rightarrow> string" where
  "client_buildSocketFilename ut platformName topic =
     (let platformSegment = client_sanitizeSegment ut platformName ''platform'';
          topicSegment = client_sanitizeSegment ut topic ''topic''
      in ''marketdata-'' @ platformSegment @ ''-'' @ topicSegment)"

definition client_parsePlatform :: "unicode_tables \<Rightarrow> string \<Rightarrow> cmd_error + Platform" where
  "client_parsePlatform ut value =
     (let val = TrimSpace ut (ToLower ut value) in
      if val = [] then Inl MissingPlatform
      else if val = ''btcc'' then Inr PlatformBTCC
      else if val = ''binance'' then Inr PlatformBinance
      else case Atoi val of
        Some num \<Rightarrow>
          (let p = (word_of_int num :: Platform)
           in if \<not> Platform_IsAvailable p then Inl (UnknownPlatform value) else Inr p)
      | None \<Rightarrow> Inl (UnknownPlatform value))"

definition parseTopic :: "unicode_tables \<Rightarrow> string \<Rightarrow> cmd_error + Topic" where
  "parseTopic ut value =
     (let val = TrimSpace ut (ToLower ut value) in
      if val = ''depth'' then Inr TopicDepth
      else if val = ''order'' then Inr TopicOrder
      else if val = [] then Inl MissingTopic
      else case Atoi val of
        Some num \<Rightarrow>
          (let t = (word_of_int num :: Topic)
           in if \<not> Topic_IsAvailable t then Inl (UnknownTopic value) else Inr t)
      | None \<Rightarrow> Inl (UnknownTopic value))"

lemma client_hashBytes_eq: "client_hashBytes = hashBytes"
  by (simp add: fun_eq_iff client_hashBytes_def hashBytes_def)

lemma client_copies: "client_sanitizeSegment = sanitizeSegment" "client_parsePlatform = parsePlatform"
  by (intro ext, simp only: client_sanitizeSegment_def sanitizeSegment_def client_hashBytes_eq
      client_parsePlatform_def parsePlatform_def)+

subsection \<open>Framing\<close>

lemma writeFull_written:
  "writeFull writes out bs = Ret (out', rest, r) \<Longrightarrow> (\<exists>n. out' = out @ take n bs) \<and> (r = Written \<longrightarrow> out' = out @ bs)"
proof (induction writes out bs rule: writeFull.induct)
  case (3 n failed writes out b bs)
  show ?case
  proof (cases "failed \<or> length (b # bs) < n")
    case True
    then show ?thesis using 3(2) by (auto simp: Let_def split: if_splits)
  next
    case False
    then obtain k where k: "out' = (out @ take n (b # bs)) @ take k (drop n (b # bs))"
      and w: "r = Written \<longrightarrow> out' = (out @ take n (b # bs)) @ drop n (b # bs)"
      using 3 by (auto simp: Let_def)
    then have "out' = out @ take (n + k) (b # bs)" by (simp add: take_add)
    then show ?thesis using w by auto
  qed
qed auto

lemma writeFull_returns:
  "\<forall>(n, failed) \<in> set writes. \<not> failed \<and> n = length bs \<Longrightarrow> writes \<noteq> [] \<Longrightarrow> bs \<noteq> [] \<Longrightarrow>
     writeFull writes out bs = Ret (out @ bs, tl writes, Written)"
  by (cases writes; cases bs) auto

lemma length_2_list: "length xs = 2 \<Longrightarrow> \<exists>a b. xs = [a, b]"
  by (cases xs; cases "tl xs") auto

lemma response_frame_eq:
  "response_frame platform topic arg payload = platform # topic # enc_be 2 (int (length arg) mod 2 ^ 16) @ arg @ payload"
proof -
  let ?z = "replicate (length arg) (0 :: byte) @ replicate (length payload) 0"
  have r: "replicate (respHeaderSize + length arg + length payload) (0 :: byte) = [0, 0, 0, 0] @ ?z"
  proof -
    have "replicate 4 (0 :: byte) = [0, 0, 0, 0]" by code_simp
    then show ?thesis by (simp add: replicate_add)
  qed
  obtain a b where e: "enc_be 2 (int (length arg) mod 2 ^ 16) = [a, b]"
    using length_2_list [OF length_enc_be] by blast
  have u: "take 2 (list_update (list_update ([0, 0, 0, 0] @ ?z) 0 platform) 1 topic) = [platform, topic]"
    "drop 4 (list_update (list_update ([0, 0, 0, 0] @ ?z) 0 platform) 1 topic) = ?z" by simp_all
  have n: "respHeaderSize + length arg = Suc (Suc (Suc (Suc (length arg))))" by simp
  show ?thesis
    unfolding response_frame_def Let_def r u e n by (simp add: copy_into_def slice_def)
qed

lemma io_ReadFull_append [simp]: "length bs = n \<Longrightarrow> io_ReadFull n (bs @ rest) = (Some bs, rest)"
  by (simp add: io_ReadFull_def)

lemma io_ReadFull_if:
  "length bs = n \<Longrightarrow> (if 0 < n then io_ReadFull n (bs @ rest) else (Some [], bs @ rest)) = (Some bs, rest)"
  by (cases n) simp_all

lemma readResponse_parts:
  assumes "length h = respHeaderSize" "nat (dec_be (slice h 2 4)) = length arg" "payloadSize (h ! 1) = Inr (length payload)"
  shows "readResponse (Some (h @ arg @ payload @ rest))
    = (Some rest, Inr \<lparr>resp_Platform = h ! 0, resp_Topic = h ! 1, resp_Arg = text_of arg, resp_Payload = payload\<rparr>)"
  unfolding readResponse_def option.case io_ReadFull_append [OF assms(1)] prod.case Let_def assms(2,3)
    io_ReadFull_if [OF refl] sum.case ..

lemma readResponse_frame:
  assumes "length arg \<le> maxUint16" "payloadSize topic = Inr (length payload)"
  shows "readResponse (Some (response_frame platform topic arg payload @ rest))
    = (Some rest, Inr \<lparr>resp_Platform = platform, resp_Topic = topic, resp_Arg = text_of arg, resp_Payload = payload\<rparr>)"
proof -
  let ?n = "int (length arg) mod 2 ^ 16"
  let ?h = "platform # topic # enc_be 2 ?n"
  have h: "length ?h = respHeaderSize" by simp
  have "slice ?h 2 4 = enc_be 2 ?n" by (simp add: slice_def)
  moreover have "nat (dec_be (enc_be 2 ?n)) = length arg" using assms(1) by (simp add: dec_enc_be)
  ultimately have n: "nat (dec_be (slice ?h 2 4)) = length arg" by (simp only:)
  have t: "payloadSize (?h ! 1) = Inr (length payload)" using assms(2) by simp
  have "response_frame platform topic arg payload @ rest = ?h @ arg @ payload @ rest"
    by (simp only: response_frame_eq append_Cons append_assoc)
  then show ?thesis using readResponse_parts [OF h n t, of rest] by simp
qed

subsection \<open>Names of the two sides\<close>

lemma Atoi_cases:
  assumes "Atoi s = Some n"
  obtains rest where "rest \<noteq> []" "\<forall>c \<in> set rest. is_digit c" "s = rest \<or> s = CHR ''-'' # rest \<or> s = CHR ''+'' # rest"
proof -
  have "parseInt s = (n, None)" using assms by (auto simp: Atoi_def split: prod.splits option.splits)
  then obtain c cs where s: "s = c # cs" and r: "(if c = CHR ''-'' \<or> c = CHR ''+'' then cs else s) \<noteq> []"
    and u: "\<exists>m. parseUint_loop (if c = CHR ''-'' \<or> c = CHR ''+'' then cs else s) 0 = Inr m"
    by (cases s) (simp_all add: parseInt_def Let_def split: if_splits sum.splits num_error.splits)
  from u parseUint_loop_ok have "\<forall>d \<in> set (if c = CHR ''-'' \<or> c = CHR ''+'' then cs else s). is_digit d" by blast
  from that [OF r this] s show thesis by (auto split: if_splits)
qed

lemma is_digit_plain: "is_digit c \<Longrightarrow> c \<noteq> CHR ''/'' \<and> c \<noteq> CHR 0x5C \<and> c \<noteq> CHR '' '' \<and> c \<noteq> CHR ''-''"
  by (auto simp: is_digit_def code_def)

lemma Atoi_plain:
  assumes "Atoi s = Some n"
  shows "s \<noteq> [] \<and> CHR ''-'' \<notin> set (tl s) \<and> (\<forall>c \<in> set s. c \<noteq> CHR ''/'' \<and> c \<noteq> CHR 0x5C \<and> c \<noteq> CHR '' '')"
proof -
  obtain rest where r: "rest \<noteq> []" "\<forall>c \<in> set rest. is_digit c" "s = rest \<or> s = CHR ''-'' # rest \<or> s = CHR ''+'' # rest"
    using Atoi_cases [OF assms] .
  then have p: "\<forall>c \<in> set rest. c \<noteq> CHR ''/'' \<and> c \<noteq> CHR 0x5C \<and> c \<noteq> CHR '' '' \<and> c \<noteq> CHR ''-''"
    using is_digit_plain by blast
  then have "CHR ''-'' \<notin> set rest" by blast
  moreover have "set (tl rest) \<subseteq> set rest" by (cases rest) auto
  ultimately have m: "CHR ''-'' \<notin> set (tl rest)" "CHR ''-'' \<notin> set rest" by blast+
  have signs: "CHR ''-'' \<noteq> CHR ''/'' \<and> CHR ''-'' \<noteq> CHR 0x5C \<and> CHR ''-'' \<noteq> CHR '' ''"
    "CHR ''+'' \<noteq> CHR ''/'' \<and> CHR ''+'' \<noteq> CHR 0x5C \<and> CHR ''+'' \<noteq> CHR '' ''" by simp_all
  from r(3) show ?thesis
  proof (elim disjE)
    assume "s = rest"
    then show ?thesis using m(1) r(1) p by blast
  next
    assume s: "s = CHR ''-'' # rest"
    then have "s \<noteq> []" "tl s = rest" "set s = insert (CHR ''-'') (set rest)" by simp_all
    then show ?thesis using m(2) p signs(1) by (simp only: ball_simps) blast
  next
    assume s: "s = CHR ''+'' # rest"
    then have "s \<noteq> []" "tl s = rest" "set s = insert (CHR ''+'') (set rest)" by simp_all
    then show ?thesis using m(2) p signs(2) by (simp only: ball_simps) blast
  qed
qed

lemma parsePlatform_plain:
  assumes "parsePlatform ut v = Inr p"
  defines "val \<equiv> TrimSpace ut (ToLower ut v)"
  shows "val \<noteq> []" "CHR ''-'' \<notin> set (tl val)" "\<forall>c \<in> set val. c \<noteq> CHR ''/'' \<and> c \<noteq> CHR 0x5C \<and> c \<noteq> CHR '' ''"
proof -
  have "val = ''btcc'' \<or> val = ''binance'' \<or> Atoi val \<noteq> None"
    using assms(1) unfolding parsePlatform_def Let_def val_def [symmetric] by (cases "Atoi val") (simp_all split: if_splits)
  then have "val \<noteq> [] \<and> CHR ''-'' \<notin> set (tl val) \<and> (\<forall>c \<in> set val. c \<noteq> CHR ''/'' \<and> c \<noteq> CHR 0x5C \<and> c \<noteq> CHR '' '')"
    by (elim disjE) (simp_all add: Atoi_plain del: not_None_eq, use Atoi_plain in blast)
  then show "val \<noteq> []" "CHR ''-'' \<notin> set (tl val)" "\<forall>c \<in> set val. c \<noteq> CHR ''/'' \<and> c \<noteq> CHR 0x5C \<and> c \<noteq> CHR '' ''"
    by auto
qed

lemma ReplaceAll_absent: "\<forall>c \<in> set s. c \<noteq> old \<Longrightarrow> ReplaceAll old nw s = s"
  by (simp add: ReplaceAll_def map_idI)

lemma length_ReplaceAll [simp]: "length (ReplaceAll old nw s) = length s"
  by (simp add: ReplaceAll_def)

lemma sanitize_nonempty: "fallback \<noteq> [] \<Longrightarrow> sanitizeSegment ut v fallback \<noteq> []"
  by (auto simp: sanitizeSegment_def Let_def ReplaceAll_def)

lemma sanitize_platform:
  assumes "parsePlatform ut v = Inr p" "length (TrimSpace ut (ToLower ut v)) \<le> maxTopicName"
  shows "sanitizeSegment ut v fallback = TrimSpace ut (ToLower ut v)"
  using parsePlatform_plain [OF assms(1)] assms(2) by (simp add: sanitizeSegment_def ReplaceAll_absent)

lemma server_client_names:
  assumes "parsePlatform ut v = Inr p" "length (TrimSpace ut (ToLower ut v)) \<le> maxTopicName"
  shows "buildSocketFilename ut v \<noteq> client_buildSocketFilename ut cp ct"
proof
  assume "buildSocketFilename ut v = client_buildSocketFilename ut cp ct"
  then have eq: "TrimSpace ut (ToLower ut v)
      = sanitizeSegment ut cp ''platform'' @ ''-'' @ sanitizeSegment ut ct ''topic''"
    by (simp add: buildSocketFilename_def client_buildSocketFilename_def client_copies sanitize_platform [OF assms])
  moreover have "sanitizeSegment ut cp ''platform'' \<noteq> []" by (rule sanitize_nonempty) simp
  ultimately have "CHR ''-'' \<in> set (tl (TrimSpace ut (ToLower ut v)))" by simp
  with parsePlatform_plain(2) [OF assms(1)] show False by blast
qed

lemma parsePlatform_available: "parsePlatform ut v = Inr p \<Longrightarrow> Platform_IsAvailable p"
  by (auto simp: parsePlatform_def Let_def Platform_IsAvailable_iff split: if_splits option.splits)

subsection \<open>Platforms given as numbers\<close>

lemma digits_trimmed:
  assumes "\<forall>c \<in> set s. is_digit c"
  shows "TrimSpace ut (ToLower ut s) = s"
proof -
  have low: "map lower_ascii s = s" using assms by (auto simp: lower_ascii_def is_digit_def intro!: map_idI)
  have sp: "\<forall>c \<in> set s. \<not> trim_space_char c" using assms by (auto simp: trim_space_char_def is_digit_def)
  have keep: "dropWhile trim_space_char xs = xs" if "set xs = set s" for xs using sp that by (cases xs) auto
  have "trim_ascii s = s" by (simp add: trim_ascii_def keep)
  moreover have "seven_bit s" using assms by (auto simp: seven_bit_def is_digit_def)
  ultimately show ?thesis by (simp add: TrimSpace_def ToLower_def low)
qed

lemma parsePlatform_number:
  assumes "n < 2 ^ 63"
  shows "parsePlatform ut (dec_nat n) = (if n mod 256 = 1 then Inr PlatformBTCC else if n mod 256 = 2 then Inr PlatformBinance
    else Inl (UnknownPlatform (dec_nat n)))"
proof -
  have d: "\<forall>c \<in> set (dec_nat n). is_digit c" by (blast dest: dec_nat_digits)
  have "\<not> is_digit (CHR ''b'')" by (simp add: is_digit_def code_def)
  with d have x: "dec_nat n \<noteq> ''btcc''" "dec_nat n \<noteq> ''binance''" by auto
  have a: "Atoi (dec_nat n) = Some (int n)" using parseInt_dec_nat [OF assms] by (simp add: Atoi_def)
  have w: "(word_of_nat n :: Platform) = 1 \<longleftrightarrow> n mod 256 = 1" "(word_of_nat n :: Platform) = 2 \<longleftrightarrow> n mod 256 = 2"
    by (simp_all add: word_unat_eq_iff unat_of_nat)
  have p: "parsePlatform ut (dec_nat n) = (let p = (word_of_nat n :: Platform)
      in if \<not> Platform_IsAvailable p then Inl (UnknownPlatform (dec_nat n)) else Inr p)"
    using dec_nat_nonempty [of n] by (simp add: parsePlatform_def digits_trimmed [OF d] x a)
  show ?thesis
    unfolding p Let_def Platform_IsAvailable_iff PlatformBTCC_def PlatformBinance_def w using w by auto
qed

end
