(* ===== verification/Ws_Consumer.thy ===== *)
theory Ws_Consumer
  imports Ws_Frames
begin

section \<open>Consumers\<close>

text \<open>
  The consumer of \<open>consumer.go\<close>: a pointer to a frame queue, either of which may be nil.
\<close>

record Consumer =
  co_queue :: "frameQueue option"

definition NewConsumer :: "int \<Rightarrow> OverflowPolicy \<Rightarrow> Consumer" where
  "NewConsumer capacity policy = \<lparr>co_queue = Some (newFrameQueue capacity policy)\<rparr>"

text \<open>\<open>Next\<close> once; \<open>PopWait\<close> stands for waiting on the queue.\<close>

definition Consumer_Next :: "Consumer option \<Rightarrow> Consumer option \<times> pop_result" where
  "Consumer_Next c =
     (case c of
        None \<Rightarrow> (None, PopClosed)
      | Some co \<Rightarrow>
          (case co_queue co of
             None \<Rightarrow> (Some co, PopClosed)
           | Some q \<Rightarrow> (case frameQueue_Pop q of (q, r) \<Rightarrow> (Some (co\<lparr>co_queue := Some q\<rparr>), r))))"

definition Consumer_Close :: "frame_store \<Rightarrow> Consumer option \<Rightarrow> frame_store \<times> Consumer option" where
  "Consumer_Close st c =
     (case c of
        None \<Rightarrow> (st, None)
      | Some co \<Rightarrow>
          (case co_queue co of
             None \<Rightarrow> (st, Some co)
           | Some q \<Rightarrow> (case frameQueue_Close st q of (st, q) \<Rightarrow> (st, Some (co\<lparr>co_queue := Some q\<rparr>)))))"

definition Consumer_Len :: "Consumer option \<Rightarrow> nat" where
  "Consumer_Len c =
     (case c of None \<Rightarrow> 0 | Some co \<Rightarrow> (case co_queue co of None \<Rightarrow> 0 | Some q \<Rightarrow> frameQueue_Len q))"

definition Consumer_enqueue ::
  "frame_store \<Rightarrow> Consumer option \<Rightarrow> nat \<Rightarrow> (frame_store \<times> Consumer option \<times> push_result) go" where
  "Consumer_enqueue st c frame =
     (case c of
        None \<Rightarrow> Ret (st, None, Rejected)
      | Some co \<Rightarrow>
          (case co_queue co of
             None \<Rightarrow> Ret (st, Some co, Rejected)
           | Some q \<Rightarrow> go_bind (frameQueue_Push st q frame)
               (\<lambda>(st, q, r). Ret (st, Some (co\<lparr>co_queue := Some q\<rparr>), r))))"

end
