(* ===== verification/Uds.thy ===== *)
theory Uds
  imports Exceptions
begin

section \<open>Unix domain sockets\<close>

text \<open>
  \<open>libs/shared/uds\<close>. The file system is a map from paths to kinds of files; what the system refuses is in
  \<open>uds_env\<close>. A path that begins with \<open>@\<close> names a socket without a file. As documented for
  \<open>net.UnixListener\<close>, \<open>ListenUnix\<close> creates the socket's file and a listener that unlinks on close removes it.
\<close>

datatype file_kind = SocketFile | OtherFile

type_synonym files = "string \<rightharpoonup> file_kind"

record uds_env =
  ue_lstat :: "string \<Rightarrow> bool"
  ue_remove :: "string \<Rightarrow> bool"
  ue_listen :: "string \<Rightarrow> bool"
  ue_close :: bool
  ue_accept :: "nat option"
  ue_dial :: "string \<Rightarrow> nat option"

datatype server_error = UdsErr uds_error | ErrNilServer | ErrAlreadyListening | ErrNotListening | ErrPathNotSocket | OsErr

subsection \<open>Client\<close>

record uds_client =
  cl_addr :: string

definition NewClient :: "string \<Rightarrow> server_error + uds_client" where
  "NewClient path = (if path = [] then Inl (UdsErr ErrEmptyPathUDS) else Inr \<lparr>cl_addr = path\<rparr>)"

definition Client_Path :: "uds_client option \<Rightarrow> string" where
  "Client_Path c = (case c of None \<Rightarrow> [] | Some c \<Rightarrow> cl_addr c)"

definition Client_Dial :: "uds_env \<Rightarrow> uds_client option \<Rightarrow> server_error + nat" where
  "Client_Dial env c =
     (case c of
        None \<Rightarrow> Inl (UdsErr ErrNilClientUDS)
      | Some c \<Rightarrow>
          if cl_addr c = [] then Inl (UdsErr ErrEmptyPathUDS)
          else (case ue_dial env (cl_addr c) of None \<Rightarrow> Inl OsErr | Some conn \<Rightarrow> Inr conn))"

subsection \<open>Server\<close>

record uds_server =
  sr_addr :: string
  sr_ln :: bool

definition NewServer :: "string \<Rightarrow> server_error + uds_server" where
  "NewServer path = (if path = [] then Inl (UdsErr ErrEmptyPathUDS) else Inr \<lparr>sr_addr = path, sr_ln = False\<rparr>)"

definition Server_Path :: "uds_server option \<Rightarrow> string" where
  "Server_Path s = (case s of None \<Rightarrow> [] | Some s \<Rightarrow> sr_addr s)"

definition RemoveIfExists :: "uds_env \<Rightarrow> files \<Rightarrow> string \<Rightarrow> files \<times> server_error option" where
  "RemoveIfExists env fs path =
     (if path = [] then (fs, Some (UdsErr ErrEmptyPathUDS))
      else if \<not> ue_lstat env path then (fs, Some OsErr)
      else case fs path of
        None \<Rightarrow> (fs, None)
      | Some OtherFile \<Rightarrow> (fs, Some ErrPathNotSocket)
      | Some SocketFile \<Rightarrow> if ue_remove env path then (fs(path := None), None) else (fs, Some OsErr))"

definition has_file :: "string \<Rightarrow> bool" where
  "has_file path \<longleftrightarrow> hd path \<noteq> CHR ''@''"

definition Server_Listen :: "uds_env \<Rightarrow> files \<Rightarrow> uds_server option \<Rightarrow> files \<times> uds_server option \<times> server_error option" where
  "Server_Listen env fs s =
     (case s of
        None \<Rightarrow> (fs, None, Some ErrNilServer)
      | Some s \<Rightarrow>
          if sr_addr s = [] then (fs, Some s, Some (UdsErr ErrEmptyPathUDS))
          else if sr_ln s then (fs, Some s, Some ErrAlreadyListening)
          else (case RemoveIfExists env fs (sr_addr s) of
              (fs, Some e) \<Rightarrow> (fs, Some s, Some e)
            | (fs, None) \<Rightarrow>
                if \<not> ue_listen env (sr_addr s) then (fs, Some s, Some OsErr)
                else (if has_file (sr_addr s) then fs(sr_addr s \<mapsto> SocketFile) else fs, Some (s\<lparr>sr_ln := True\<rparr>), None)))"

definition Server_Accept :: "uds_env \<Rightarrow> uds_server option \<Rightarrow> server_error + nat" where
  "Server_Accept env s =
     (case s of
        None \<Rightarrow> Inl ErrNilServer
      | Some s \<Rightarrow>
          if \<not> sr_ln s then Inl ErrNotListening
          else (case ue_accept env of None \<Rightarrow> Inl OsErr | Some conn \<Rightarrow> Inr conn))"

definition Server_Close :: "uds_env \<Rightarrow> files \<Rightarrow> uds_server option \<Rightarrow> files \<times> uds_server option \<times> server_error option" where
  "Server_Close env fs s =
     (case s of
        None \<Rightarrow> (fs, None, Some ErrNilServer)
      | Some s \<Rightarrow>
          if \<not> sr_ln s then (fs, Some s, None)
          else (if has_file (sr_addr s) then fs(sr_addr s := None) else fs, Some (s\<lparr>sr_ln := False\<rparr>),
                if ue_close env then None else Some OsErr))"

subsection \<open>Runs of a server\<close>

text \<open>The calls a program makes on one server, with other processes changing files it does not listen on.\<close>

inductive server_run :: "files \<Rightarrow> uds_server \<Rightarrow> bool" where
  fresh: "NewServer path = Inr s \<Longrightarrow> server_run fs s"
| listen: "server_run fs s \<Longrightarrow> Server_Listen env fs (Some s) = (fs', Some s', e) \<Longrightarrow> server_run fs' s'"
| shut: "server_run fs s \<Longrightarrow> Server_Close env fs (Some s) = (fs', Some s', e) \<Longrightarrow> server_run fs' s'"
| others: "server_run fs s \<Longrightarrow> \<forall>p. sr_ln s \<longrightarrow> p = sr_addr s \<longrightarrow> fs' p = fs p \<Longrightarrow> server_run fs' s"

lemma Server_Listen_sel:
  "Server_Listen env fs (Some s) = (fs', Some s', e) \<Longrightarrow> sr_addr s' = sr_addr s
     \<and> (e = None \<longleftrightarrow> \<not> sr_ln s \<and> sr_ln s') \<and> (e \<noteq> None \<longrightarrow> sr_ln s' = sr_ln s)
     \<and> (sr_ln s' \<and> \<not> sr_ln s \<longrightarrow> has_file (sr_addr s) \<longrightarrow> fs' (sr_addr s) = Some SocketFile)
     \<and> (sr_ln s \<longrightarrow> fs' = fs)
     \<and> (\<forall>p. fs p = Some OtherFile \<longrightarrow> fs' p = Some OtherFile) \<and> (\<forall>p. p \<noteq> sr_addr s \<longrightarrow> fs' p = fs p)"
  by (auto simp: Server_Listen_def RemoveIfExists_def split: if_splits option.splits file_kind.splits)

lemma server_run_socket:
  "server_run fs s \<Longrightarrow> sr_addr s \<noteq> [] \<and> (sr_ln s \<longrightarrow> has_file (sr_addr s) \<longrightarrow> fs (sr_addr s) = Some SocketFile)"
proof (induction rule: server_run.induct)
  case (fresh path s fs)
  then show ?case by (auto simp: NewServer_def split: if_splits)
next
  case (listen fs s env fs' s' e)
  from Server_Listen_sel [OF listen(2)] listen(3) show ?case by metis
next
  case (shut fs s env fs' s' e)
  then show ?case by (auto simp: Server_Close_def split: if_splits)
next
  case (others fs s fs')
  then show ?case by auto
qed

end
