(* ===== verification/Ingest_Service.thy ===== *)
theory Ingest_Service
  imports Ingest_Socket Ingest_Laws Ws_Consumer Binance_Laws Uds
begin

section \<open>The ingest service\<close>

text \<open>
  The rest of \<open>bundle/cmd/ingest/main.go\<close>: the socket path, one connection and its consumers. The consumers of
  the process and the frames of each manager live in the state \<open>service\<close>; the frames of a manager belong to its
  group key. A connection has one reader, whose round is \<open>conn_round\<close>, and one goroutine per API key, whose
  round is \<open>consumer_round\<close>. A call that blocks for ever in the model's state is the result \<open>Blocked\<close>. Go's
  iteration order over the maps at the end of a connection is the parameter of \<open>conn_cleanup\<close>.
\<close>

subsection \<open>The socket path\<close>

definition socket_path :: "unicode_tables \<Rightarrow> string \<Rightarrow> string \<Rightarrow> string \<Rightarrow> (string \<Rightarrow> bool) \<Rightarrow> (cmd_error + Platform \<times> string) option" where
  "socket_path ut platformFlag udsDirFlag udsPathFlag mkdirAll =
     (let udsDir = TrimSpace ut udsDirFlag;
          udsDir = (if udsDir = [] then defaultUDSDir else udsDir);
          platformName = TrimSpace ut platformFlag
      in if platformName = [] then Some (Inl MissingPlatform)
         else case parsePlatform ut platformName of
           Inl e \<Rightarrow> Some (Inl e)
         | Inr platform \<Rightarrow>
             (let socketPath = TrimSpace ut udsPathFlag in
              if socketPath = [] then
                (if \<not> mkdirAll udsDir then None
                 else Some (Inr (platform, path_Join udsDir (buildSocketFilename ut platformName))))
              else
                (if \<not> mkdirAll (path_Dir socketPath) then None else Some (Inr (platform, socketPath)))))"

subsection \<open>Listening and accepting\<close>

definition service_listen :: "uds_env \<Rightarrow> files \<Rightarrow> string \<Rightarrow> files \<times> (server_error + uds_server)" where
  "service_listen env fs socketPath =
     (case NewServer socketPath of
        Inl e \<Rightarrow> (fs, Inl e)
      | Inr server \<Rightarrow>
          (case Server_Listen env fs (Some server) of
             (fs, server', Some e) \<Rightarrow> (fs, Inl e)
           | (fs, server', None) \<Rightarrow> (fs, Inr (the server'))))"

text \<open>One entry per \<open>Accept\<close>: the system, the server as that call finds it (a signal closes it meanwhile), whether
  the context is done and whether the error is \<open>net.ErrClosed\<close>. The result is the connections that are handled
  and whether the loop has ended.\<close>

fun accept_loop :: "(uds_env \<times> uds_server \<times> bool \<times> bool) list \<Rightarrow> nat list \<times> bool" where
  "accept_loop [] = ([], False)"
| "accept_loop ((env, server, ctxDone, netClosed) # calls) =
     (case Server_Accept env (Some server) of
        Inl e \<Rightarrow> if ctxDone \<or> (e = OsErr \<and> netClosed) then ([], True) else accept_loop calls
      | Inr conn \<Rightarrow> (let (conns, ended) = accept_loop calls in (conn # conns, ended)))"

lemma accept_loop_ends:
  "(env, server, True, b) \<in> set calls \<Longrightarrow> \<not> sr_ln server \<Longrightarrow> snd (accept_loop calls)"
proof (induction calls rule: accept_loop.induct)
  case (2 env' server' ctxDone netClosed calls)
  then show ?case by (cases "Server_Accept env' (Some server')") (auto simp: Server_Accept_def split: prod.split)
qed simp

subsection \<open>Connections\<close>

record connGroup =
  cg_platform :: Platform
  cg_apiKey :: Str64
  cg_consumer :: nat

record connSubscription =
  cs_platform :: Platform
  cs_apiKey :: Str64
  cs_topic :: Topic
  cs_symbol :: Symbol
  cs_symbolStr :: string

record service =
  sv_usecase :: "usecase option"
  sv_consumers :: "Consumer list"
  sv_frames :: "groupKey \<Rightarrow> frame_store"

record conn_state =
  hc_subscriptions :: "string \<rightharpoonup> connSubscription"
  hc_groups :: "Str64 \<rightharpoonup> connGroup"

definition conn_start :: conn_state where
  "conn_start = \<lparr>hc_subscriptions = Map.empty, hc_groups = Map.empty\<rparr>"

definition subscriptionKey :: "Str64 \<Rightarrow> Topic \<Rightarrow> string \<Rightarrow> string" where
  "subscriptionKey apiKey topic symbol = Str64_String apiKey @ ''|'' @ dec_nat (unat topic) @ ''|'' @ symbol"

text \<open>The connection is not read: a request is decoded from the buffer the last round returned.\<close>

definition readRequest :: "'c option \<Rightarrow> byte list \<Rightarrow> (ingest_error + IngestRequest) \<times> byte list" where
  "readRequest conn buf =
     (case conn of None \<Rightarrow> (Inl ErrIngestInvalidRequest, buf) | Some c \<Rightarrow> (Inr (IngestRequest_Decode buf), buf))"

datatype round_end = Served | Repeated | Closed | Blocked

definition conn_group ::
  "service \<Rightarrow> conn_state \<Rightarrow> Platform \<Rightarrow> Str64 \<Rightarrow> service \<times> conn_state \<times> connGroup" where
  "conn_group sv hc serverPlatform apiKey =
     (case hc_groups hc apiKey of
        Some g \<Rightarrow> (sv, hc, g)
      | None \<Rightarrow>
          (let consumer = NewConsumer 4096 OverflowDropOldest;
               g = \<lparr>cg_platform = serverPlatform, cg_apiKey = apiKey, cg_consumer = length (sv_consumers sv)\<rparr>
           in (sv\<lparr>sv_consumers := sv_consumers sv @ [consumer]\<rparr>, hc\<lparr>hc_groups := (hc_groups hc)(apiKey \<mapsto> g)\<rparr>, g)))"

definition conn_round ::
  "(string \<Rightarrow> string) \<Rightarrow> service \<Rightarrow> conn_state \<Rightarrow> Platform \<Rightarrow> IngestRequest \<Rightarrow> (nat \<Rightarrow> nat option) \<Rightarrow> bool
     \<Rightarrow> (service \<times> conn_state \<times> round_end) go" where
  "conn_round low sv hc serverPlatform req choice reuse =
     (if Ingest_Platform req \<noteq> serverPlatform then Ret (sv, hc, Closed)
      else
        let apiKey = Ingest_APIKey req;
            symbolStr = Symbol_String (Ingest_Symbol req);
            subKey = subscriptionKey apiKey (Ingest_Topic req) symbolStr
        in case hc_subscriptions hc subKey of
             Some existing \<Rightarrow> Ret (sv, hc, if cs_topic existing \<noteq> Ingest_Topic req then Closed else Repeated)
           | None \<Rightarrow>
               (let (sv, hc, g) = conn_group sv hc serverPlatform apiKey in
                go_bind (usecase_Subscribe low (sv_usecase sv) (Ingest_Platform req) apiKey (Ingest_Topic req) (Ingest_Symbol req)
                    (Some (cg_consumer g)) choice reuse) (\<lambda>(u, r).
                  let sv = sv\<lparr>sv_usecase := u\<rparr> in
                  case r of
                    UseWait \<Rightarrow> Ret (sv, hc, Blocked)
                  | UseDone (Some e) \<Rightarrow> Ret (sv, hc, Closed)
                  | UseDone None \<Rightarrow>
                      Ret (sv, hc\<lparr>hc_subscriptions := (hc_subscriptions hc)(subKey \<mapsto>
                        \<lparr>cs_platform = Ingest_Platform req, cs_apiKey = apiKey, cs_topic = Ingest_Topic req,
                         cs_symbol = Ingest_Symbol req, cs_symbolStr = symbolStr\<rparr>)\<rparr>, Served))))"

text \<open>The deferred cleanup; \<open>False\<close> means that an \<open>Unsubscribe\<close> does not return.\<close>

fun cleanup_subs ::
  "service \<Rightarrow> conn_state \<Rightarrow> string list \<Rightarrow> (string \<Rightarrow> nat \<Rightarrow> nat option) \<Rightarrow> bool \<Rightarrow> (service \<times> bool) go" where
  "cleanup_subs sv hc [] choice reuse = Ret (sv, True)"
| "cleanup_subs sv hc (k # ks) choice reuse =
     (case hc_subscriptions hc k of
        None \<Rightarrow> cleanup_subs sv hc ks choice reuse
      | Some sub \<Rightarrow>
          (case hc_groups hc (cs_apiKey sub) of
             None \<Rightarrow> cleanup_subs sv hc ks choice reuse
           | Some g \<Rightarrow>
               go_bind (usecase_Unsubscribe (sv_usecase sv) (cs_platform sub) (cs_apiKey sub) (cs_topic sub) (cs_symbol sub)
                   (Some (cg_consumer g)) (choice k) reuse) (\<lambda>(u, r).
                 let sv = sv\<lparr>sv_usecase := u\<rparr> in
                 if r = UseWait then Ret (sv, False) else cleanup_subs sv hc ks choice reuse)))"

definition group_key :: "connGroup \<Rightarrow> groupKey" where
  "group_key g = (cg_platform g, Str64_String (cg_apiKey g))"

definition close_consumer :: "service \<Rightarrow> connGroup \<Rightarrow> service" where
  "close_consumer sv g =
     (let (st, c) = Consumer_Close (sv_frames sv (group_key g)) (Some (sv_consumers sv ! cg_consumer g))
      in sv\<lparr>sv_frames := (sv_frames sv)(group_key g := st), sv_consumers := (sv_consumers sv)[cg_consumer g := the c]\<rparr>)"

fun cleanup_groups :: "service \<Rightarrow> conn_state \<Rightarrow> Str64 list \<Rightarrow> service" where
  "cleanup_groups sv hc [] = sv"
| "cleanup_groups sv hc (k # ks) =
     (case hc_groups hc k of
        None \<Rightarrow> cleanup_groups sv hc ks
      | Some g \<Rightarrow> cleanup_groups (close_consumer sv g) hc ks)"

definition conn_cleanup ::
  "service \<Rightarrow> conn_state \<Rightarrow> string list \<Rightarrow> Str64 list \<Rightarrow> (string \<Rightarrow> nat \<Rightarrow> nat option) \<Rightarrow> bool \<Rightarrow> (service \<times> bool) go" where
  "conn_cleanup sv hc subOrder groupOrder choice reuse =
     go_bind (cleanup_subs sv hc subOrder choice reuse) (\<lambda>(sv, finished).
       if finished then Ret (cleanup_groups sv hc groupOrder, True) else Ret (sv, False))"

text \<open>The loop of \<open>handleConn\<close> with fuel: nothing when the fuel is not enough. A read error ends it.\<close>

fun conn_loop ::
  "nat \<Rightarrow> (string \<Rightarrow> string) \<Rightarrow> service \<Rightarrow> conn_state \<Rightarrow> 'c option \<Rightarrow> byte list \<Rightarrow> Platform
     \<Rightarrow> (nat \<Rightarrow> nat \<Rightarrow> nat option) \<Rightarrow> bool \<Rightarrow> (service \<times> conn_state \<times> round_end) option go" where
  "conn_loop 0 low sv hc conn buf serverPlatform choice reuse = Ret None"
| "conn_loop (Suc n) low sv hc conn buf serverPlatform choice reuse =
     (case readRequest conn buf of
        (Inl e, buf) \<Rightarrow> Ret (Some (sv, hc, Closed))
      | (Inr req, buf) \<Rightarrow>
          go_bind (conn_round low sv hc serverPlatform req (choice n) reuse) (\<lambda>(sv, hc, r).
            if r = Served \<or> r = Repeated then conn_loop n low sv hc conn buf serverPlatform choice reuse
            else Ret (Some (sv, hc, r))))"

definition handleConn ::
  "nat \<Rightarrow> (string \<Rightarrow> string) \<Rightarrow> service \<Rightarrow> 'c option \<Rightarrow> Platform \<Rightarrow> (nat \<Rightarrow> nat \<Rightarrow> nat option) \<Rightarrow> bool
     \<Rightarrow> string list \<Rightarrow> Str64 list \<Rightarrow> (string \<Rightarrow> nat \<Rightarrow> nat option) \<Rightarrow> (service \<times> bool) option go" where
  "handleConn fuel low sv conn serverPlatform choice reuse subOrder groupOrder unsubChoice =
     (case conn of
        None \<Rightarrow> Ret (Some (sv, True))
      | Some c \<Rightarrow>
          go_bind (conn_loop fuel low sv conn_start conn [] serverPlatform choice reuse) (\<lambda>res.
            case res of
              None \<Rightarrow> Ret None
            | Some (sv, hc, r) \<Rightarrow>
                if r = Blocked then Ret (Some (sv, False))
                else go_bind (conn_cleanup sv hc subOrder groupOrder unsubChoice reuse) (\<lambda>res. Ret (Some res))))"

subsection \<open>The consumer's goroutine\<close>

datatype consumer_end = NextFrame | ConsumerStop | ConsumerWait | WriteBlocked

definition consumer_round ::
  "int \<Rightarrow> (nat \<Rightarrow> byte) \<Rightarrow> service \<Rightarrow> (nat \<times> bool) list option \<Rightarrow> connGroup \<Rightarrow> bool
     \<Rightarrow> (service \<times> (nat \<times> bool) list option \<times> byte list \<times> consumer_end) go" where
  "consumer_round now pad sv conn g ctxDone =
     (if conn = None \<or> sv_usecase sv = None then Ret (sv, conn, [], ConsumerStop)
      else case Consumer_Next (Some (sv_consumers sv ! cg_consumer g)) of
        (c, PopWait) \<Rightarrow> Ret (sv, conn, [], ConsumerWait)
      | (c, PopClosed) \<Rightarrow> Ret (sv, conn, [], ConsumerStop)
      | (c, Popped None) \<Rightarrow> Panic
      | (c, Popped (Some f)) \<Rightarrow>
          (let sv = sv\<lparr>sv_consumers := (sv_consumers sv)[cg_consumer g := the c]\<rparr>;
               st = sv_frames sv (group_key g);
               release = (\<lambda>sv. sv\<lparr>sv_frames := (sv_frames sv)(group_key g := Frame_Release st f)\<rparr>);
               payload = (case Frame_Buf (fs_frames st f) of None \<Rightarrow> [] | Some b \<Rightarrow> text_of (visible b))
           in case usecase_Resolve (sv_usecase sv) (cg_platform g) (cg_apiKey g) (Frame_Topic (fs_frames st f)) of
                None \<Rightarrow> Ret (release sv, conn, [], NextFrame)
              | Some (topic, symbol) \<Rightarrow>
                  if cg_platform g \<noteq> PlatformBinance then Ret (release sv, conn, [], NextFrame)
                  else case binance_DecodeMarketDataPayload now pad topic symbol payload of
                    Inl e \<Rightarrow> Ret (release sv, conn, [], NextFrame)
                  | Inr bytes \<Rightarrow>
                      go_bind (writeResponse conn (cg_platform g) topic (bytes_of symbol) bytes) (\<lambda>(conn, r).
                        case r of
                          ResponseRefused e \<Rightarrow> Ret (release sv, conn, [], ConsumerStop)
                        | ResponseSent out Written \<Rightarrow> Ret (release sv, conn, out, if ctxDone then ConsumerStop else NextFrame)
                        | ResponseSent out WriteFailed \<Rightarrow> Ret (release sv, conn, out, ConsumerStop)
                        | ResponseSent out WriteWaiting \<Rightarrow> Ret (sv, conn, out, WriteBlocked))))"

end
