(* ===== verification/Ingest_Service_Laws.thy ===== *)
theory Ingest_Service_Laws
  imports Ingest_Service Ws_Delivery
begin

section \<open>Laws of the ingest service\<close>

text \<open>
  The tables of a connection and their invariant, what its cleanup closes, and what one round of a consumer
  does with its frame.
\<close>

subsection \<open>Requests\<close>

lemma zero_request: "Ingest_Platform (IngestRequest_Decode []) = 0"
  by (simp add: IngestRequest_Decode_def codable_Decode_def copy_into_def rd_IngestRequest_def rd_defs fld_def)

lemma cleanup_subs_empty: "hc_subscriptions hc = Map.empty \<Longrightarrow> cleanup_subs sv hc ks choice reuse = Ret (sv, True)"
  by (induction ks) simp_all

lemma cleanup_groups_empty: "hc_groups hc = Map.empty \<Longrightarrow> cleanup_groups sv hc ks = sv"
  by (induction ks) simp_all

lemma conn_loop_mismatch:
  assumes "serverPlatform \<noteq> 0"
  shows "conn_loop (Suc n) low sv hc (Some c) [] serverPlatform choice reuse = Ret (Some (sv, hc, Closed))"
  using assms by (simp add: readRequest_def conn_round_def zero_request)

lemma handleConn_nothing:
  assumes "serverPlatform \<noteq> 0"
  shows "handleConn (Suc n) low sv (Some c) serverPlatform choice reuse subOrder groupOrder unsubChoice
    = Ret (Some (sv, True))"
  by (simp add: handleConn_def conn_loop_mismatch [OF assms] conn_cleanup_def conn_start_def
      cleanup_subs_empty cleanup_groups_empty del: conn_loop.simps)

subsection \<open>The tables of a connection\<close>

definition consumer_ok :: "Consumer \<Rightarrow> bool" where
  "consumer_ok c \<longleftrightarrow> (\<exists>q. co_queue c = Some q \<and> fq_ok q \<and> (fq_closed q \<longrightarrow> fq_size q = 0))"

definition groups_ok :: "service \<Rightarrow> conn_state \<Rightarrow> Platform \<Rightarrow> bool" where
  "groups_ok sv hc platform \<longleftrightarrow>
     (\<forall>a g. hc_groups hc a = Some g \<longrightarrow> cg_apiKey g = a \<and> cg_platform g = platform \<and> cg_consumer g < length (sv_consumers sv))
     \<and> (\<forall>a b g h. hc_groups hc a = Some g \<longrightarrow> hc_groups hc b = Some h \<longrightarrow> cg_consumer g = cg_consumer h \<longrightarrow> a = b)
     \<and> list_all consumer_ok (sv_consumers sv)"

definition sub_ok :: "(Str64 \<rightharpoonup> connGroup) \<Rightarrow> Platform \<Rightarrow> string \<Rightarrow> connSubscription \<Rightarrow> bool" where
  "sub_ok groups platform k s \<longleftrightarrow> k = subscriptionKey (cs_apiKey s) (cs_topic s) (Symbol_String (cs_symbol s))
     \<and> cs_symbolStr s = Symbol_String (cs_symbol s) \<and> cs_platform s = platform \<and> cs_apiKey s \<in> dom groups"

definition subs_ok :: "conn_state \<Rightarrow> Platform \<Rightarrow> bool" where
  "subs_ok hc platform \<longleftrightarrow> (\<forall>k s. hc_subscriptions hc k = Some s \<longrightarrow> sub_ok (hc_groups hc) platform k s)"

lemma sub_ok_group: "sub_ok groups platform k s \<Longrightarrow> sub_ok (groups(a \<mapsto> g)) platform k s"
  by (simp add: sub_ok_def)

definition conn_ok :: "service \<Rightarrow> conn_state \<Rightarrow> Platform \<Rightarrow> bool" where
  "conn_ok sv hc platform \<longleftrightarrow> groups_ok sv hc platform \<and> subs_ok hc platform"

lemma conn_ok_add:
  assumes "conn_ok sv hc platform" "sub_ok (hc_groups hc) platform k s"
  shows "conn_ok sv (hc\<lparr>hc_subscriptions := (hc_subscriptions hc)(k \<mapsto> s)\<rparr>) platform"
  using assms unfolding conn_ok_def groups_ok_def subs_ok_def by (simp split: if_split)

lemma conn_ok_start: "list_all consumer_ok (sv_consumers sv) \<Longrightarrow> conn_ok sv conn_start platform"
  by (simp add: conn_ok_def groups_ok_def subs_ok_def conn_start_def)

lemma conn_ok_usecase [simp]: "conn_ok (sv\<lparr>sv_usecase := u\<rparr>) hc platform = conn_ok sv hc platform"
  by (simp add: conn_ok_def groups_ok_def)

lemma consumer_ok_New: "consumer_ok (NewConsumer n policy)"
  by (simp add: consumer_ok_def NewConsumer_def fq_ok_new) (simp add: newFrameQueue_def Let_def)

lemma conn_group_ok:
  assumes "conn_ok sv hc platform" "conn_group sv hc platform apiKey = (sv', hc', g)"
  shows "conn_ok sv' hc' platform" "hc_groups hc' apiKey = Some g" "hc_subscriptions hc' = hc_subscriptions hc"
proof -
  have "conn_ok sv' hc' platform \<and> hc_groups hc' apiKey = Some g \<and> hc_subscriptions hc' = hc_subscriptions hc"
  proof (cases "hc_groups hc apiKey")
    case (Some h)
    then show ?thesis using assms by (simp add: conn_group_def)
  next
    case None
    let ?g = "\<lparr>cg_platform = platform, cg_apiKey = apiKey, cg_consumer = length (sv_consumers sv)\<rparr>"
    have sv': "sv' = sv\<lparr>sv_consumers := sv_consumers sv @ [NewConsumer 4096 OverflowDropOldest]\<rparr>"
      and hc': "hc' = hc\<lparr>hc_groups := (hc_groups hc)(apiKey \<mapsto> ?g)\<rparr>" and g: "g = ?g"
      using None assms(2) by (auto simp: conn_group_def Let_def)
    have gr: "groups_ok sv hc platform" and su: "subs_ok hc platform" using assms(1) by (simp_all add: conn_ok_def)
    have b: "cg_consumer h < length (sv_consumers sv)" if "hc_groups hc a = Some h" for a h
      using gr that unfolding groups_ok_def by blast
    have "groups_ok sv' hc' platform"
      using gr b by (auto simp: groups_ok_def sv' hc' consumer_ok_New less_Suc_eq dest!: b)
    moreover have "subs_ok hc' platform" using su sub_ok_group unfolding subs_ok_def hc' by fastforce
    ultimately show ?thesis by (simp add: conn_ok_def hc' g)
  qed
  then show "conn_ok sv' hc' platform" "hc_groups hc' apiKey = Some g" "hc_subscriptions hc' = hc_subscriptions hc" by auto
qed

lemma conn_round_ok:
  assumes "conn_ok sv hc platform" "conn_round low sv hc platform req choice reuse = Ret (sv', hc', r)"
  shows "conn_ok sv' hc' platform"
proof -
  let ?k = "subscriptionKey (Ingest_APIKey req) (Ingest_Topic req) (Symbol_String (Ingest_Symbol req))"
  show ?thesis
  proof (cases "Ingest_Platform req = platform \<and> hc_subscriptions hc ?k = None")
    case False
    then show ?thesis using assms by (auto simp: conn_round_def Let_def split: if_splits option.splits)
  next
    case True
    obtain sv1 hc1 g where g: "conn_group sv hc platform (Ingest_APIKey req) = (sv1, hc1, g)" by (metis prod_cases3)
    note ok = conn_group_ok [OF assms(1) g]
    obtain u x where "usecase_Subscribe low (sv_usecase sv1) platform (Ingest_APIKey req) (Ingest_Topic req)
        (Ingest_Symbol req) (Some (cg_consumer g)) choice reuse = Ret (u, x)"
      using assms(2) True by (auto simp: conn_round_def Let_def g go_bind_Ret_iff)
    then have "sv' = sv1\<lparr>sv_usecase := u\<rparr> \<and> (hc' = hc1 \<or> hc' = hc1\<lparr>hc_subscriptions := (hc_subscriptions hc1)(?k \<mapsto>
        \<lparr>cs_platform = platform, cs_apiKey = Ingest_APIKey req, cs_topic = Ingest_Topic req,
         cs_symbol = Ingest_Symbol req, cs_symbolStr = Symbol_String (Ingest_Symbol req)\<rparr>)\<rparr>)"
      using assms(2) True by (auto simp: conn_round_def Let_def g split: use_result.splits option.splits)
    moreover have "sub_ok (hc_groups hc1) platform ?k
        \<lparr>cs_platform = platform, cs_apiKey = Ingest_APIKey req, cs_topic = Ingest_Topic req,
         cs_symbol = Ingest_Symbol req, cs_symbolStr = Symbol_String (Ingest_Symbol req)\<rparr>"
      using ok(2) by (auto simp: sub_ok_def)
    ultimately show ?thesis using ok(1) conn_ok_add [OF ok(1)] by auto
  qed
qed

inductive conn_reach :: "Platform \<Rightarrow> service \<Rightarrow> conn_state \<Rightarrow> bool" for platform where
  opened: "list_all consumer_ok (sv_consumers sv) \<Longrightarrow> conn_reach platform sv conn_start"
| request: "conn_reach platform sv hc \<Longrightarrow> conn_round low sv hc platform req choice reuse = Ret (sv', hc', r) \<Longrightarrow>
    conn_reach platform sv' hc'"
| others: "conn_reach platform sv hc \<Longrightarrow> length (sv_consumers sv) \<le> length (sv_consumers sv') \<Longrightarrow>
    list_all consumer_ok (sv_consumers sv') \<Longrightarrow> conn_reach platform sv' hc"

lemma conn_reach_ok: "conn_reach platform sv hc \<Longrightarrow> conn_ok sv hc platform"
proof (induction rule: conn_reach.induct)
  case (opened sv)
  then show ?case by (rule conn_ok_start)
next
  case (request sv hc low req choice reuse sv' hc' r)
  then show ?case using conn_round_ok by blast
next
  case (others sv hc sv')
  then have "groups_ok sv' hc platform" unfolding conn_ok_def groups_ok_def by (meson less_le_trans)
  then show ?case using others by (simp add: conn_ok_def)
qed

subsection \<open>Keys\<close>

lemma append_bar_eq: "CHR ''|'' \<notin> set a \<Longrightarrow> CHR ''|'' \<notin> set b \<Longrightarrow> a @ CHR ''|'' # r = b @ CHR ''|'' # s \<longleftrightarrow> a = b \<and> r = s"
proof (induction a arbitrary: b)
  case (Cons x a)
  then show ?case by (cases b) auto
next
  case Nil
  then show ?case by (cases b) auto
qed

lemma dec_nat_no_bar: "CHR ''|'' \<notin> set (dec_nat n)"
proof
  assume "CHR ''|'' \<in> set (dec_nat n)"
  then have "is_digit (CHR ''|'')" by (rule dec_nat_digits)
  then show False by (simp add: is_digit_def code_def)
qed

lemma subscriptionKey_inj:
  assumes "CHR ''|'' \<notin> set a" "CHR ''|'' \<notin> set b" "subscriptionKey a t x = subscriptionKey b u y"
  shows "Str64_String a = Str64_String b \<and> t = u \<and> x = y"
proof -
  have "CHR ''|'' \<notin> set (Str64_String a)" "CHR ''|'' \<notin> set (Str64_String b)" using assms(1,2) by (simp_all add: Str64_String_eq)
  with assms(3) have e: "Str64_String a = Str64_String b \<and> dec_nat (unat t) = dec_nat (unat u) \<and> x = y"
    by (simp add: subscriptionKey_def append_bar_eq dec_nat_no_bar)
  then have "unat t = unat u" by (metis dec_val_dec_nat)
  with e show ?thesis by (simp add: word_unat_eq_iff)
qed

subsection \<open>Cleanup\<close>

definition consumer_closed :: "Consumer \<Rightarrow> bool" where
  "consumer_closed c \<longleftrightarrow> (\<exists>q. co_queue c = Some q \<and> fq_closed q \<and> fq_size q = 0)"

lemma Consumer_Close_ok:
  assumes "consumer_ok c"
  obtains st' c' where "Consumer_Close st (Some c) = (st', Some c')" "consumer_ok c'" "consumer_closed c'"
proof -
  obtain q where q: "co_queue c = Some q" "fq_ok q" "fq_closed q \<longrightarrow> fq_size q = 0" using assms by (auto simp: consumer_ok_def)
  show thesis
  proof (cases "fq_closed q")
    case True
    then have "frameQueue_Close st q = (st, q)" by (simp add: frameQueue_Close_def)
    with q True that [of st "c\<lparr>co_queue := Some q\<rparr>"] show ?thesis
      by (simp add: Consumer_Close_def consumer_ok_def consumer_closed_def)
  next
    case False
    obtain q' where c: "frameQueue_Close st q = (foldl Frame_Release st (fq_list q), q')" "fq_ok q'" "fq_closed q'"
      "fq_list q' = []"
      using Close_eq [OF q(2) False] by metis
    then have "fq_size q' = 0" using length_fq_list [of q'] by simp
    with c q that [of "foldl Frame_Release st (fq_list q)" "c\<lparr>co_queue := Some q'\<rparr>"] show ?thesis
      by (simp add: Consumer_Close_def consumer_ok_def consumer_closed_def)
  qed
qed

lemma close_consumer_ok:
  assumes "list_all consumer_ok (sv_consumers sv)" "cg_consumer g < length (sv_consumers sv)"
  shows "list_all consumer_ok (sv_consumers (close_consumer sv g))"
    "length (sv_consumers (close_consumer sv g)) = length (sv_consumers sv)"
    "consumer_closed (sv_consumers (close_consumer sv g) ! cg_consumer g)"
    "consumer_closed (sv_consumers sv ! i) \<Longrightarrow> consumer_closed (sv_consumers (close_consumer sv g) ! i)"
proof -
  have "consumer_ok (sv_consumers sv ! cg_consumer g)" using assms by (simp add: list_all_length)
  then obtain st' c' where c: "Consumer_Close (sv_frames sv (group_key g)) (Some (sv_consumers sv ! cg_consumer g)) = (st', Some c')"
    "consumer_ok c'" "consumer_closed c'" by (rule Consumer_Close_ok)
  then have e: "sv_consumers (close_consumer sv g) = (sv_consumers sv)[cg_consumer g := c']" by (simp add: close_consumer_def)
  show "list_all consumer_ok (sv_consumers (close_consumer sv g))"
    using assms(1) c(2) unfolding e by (auto simp: list_all_iff dest: subsetD [OF set_update_subset_insert])
  show "length (sv_consumers (close_consumer sv g)) = length (sv_consumers sv)" by (simp add: e)
  show "consumer_closed (sv_consumers (close_consumer sv g) ! cg_consumer g)" using assms(2) c(3) by (simp add: e)
  show "consumer_closed (sv_consumers sv ! i) \<Longrightarrow> consumer_closed (sv_consumers (close_consumer sv g) ! i)"
    using assms(2) c(3) by (cases "i = cg_consumer g") (simp_all add: e)
qed

lemma cleanup_groups_closed:
  assumes "list_all consumer_ok (sv_consumers sv)" "\<And>a g. hc_groups hc a = Some g \<Longrightarrow> cg_consumer g < length (sv_consumers sv)"
    and "(\<exists>a \<in> set ks. hc_groups hc a = Some g) \<or> consumer_closed (sv_consumers sv ! cg_consumer g)"
  shows "consumer_closed (sv_consumers (cleanup_groups sv hc ks) ! cg_consumer g)"
  using assms
proof (induction ks arbitrary: sv)
  case (Cons k ks)
  show ?case
  proof (cases "hc_groups hc k")
    case None
    then show ?thesis using Cons.prems Cons.IH [of sv] by auto
  next
    case (Some h)
    note c = close_consumer_ok [OF Cons.prems(1) Cons.prems(2) [OF Some]]
    have "consumer_closed (sv_consumers (cleanup_groups (close_consumer sv h) hc ks) ! cg_consumer g)"
      by (rule Cons.IH [OF c(1)]) (use Cons.prems c(2,3,4) Some in auto)
    then show ?thesis using Some by simp
  qed
qed simp

lemma cleanup_subs_sel:
  "cleanup_subs sv hc ks choice reuse = Ret (sv', b) \<Longrightarrow> sv_consumers sv' = sv_consumers sv \<and> sv_frames sv' = sv_frames sv"
proof (induction ks arbitrary: sv)
  case (Cons k ks)
  show ?case
  proof (cases "\<exists>sub g. hc_subscriptions hc k = Some sub \<and> hc_groups hc (cs_apiKey sub) = Some g")
    case True
    then have "\<exists>u. sv' = sv\<lparr>sv_usecase := u\<rparr> \<or> cleanup_subs (sv\<lparr>sv_usecase := u\<rparr>) hc ks choice reuse = Ret (sv', b)"
      using Cons.prems by (auto simp: go_bind_Ret_iff Let_def split: if_splits)
    then show ?thesis using Cons.IH by fastforce
  next
    case False
    then have "cleanup_subs sv hc ks choice reuse = Ret (sv', b)" using Cons.prems by (auto split: option.splits)
    then show ?thesis by (rule Cons.IH)
  qed
qed simp

subsection \<open>A round of a consumer\<close>

lemma Consumer_Next_frame:
  assumes "co_queue c = Some q" "fq_ok q" "fq_list q = f # fs"
  obtains q' where "Consumer_Next (Some c) = (Some (c\<lparr>co_queue := Some q'\<rparr>), Popped (Some f))" "fq_ok q'" "fq_list q' = fs"
proof -
  have "0 < fq_size q" using assms(3) by (auto simp: fq_list_def intro: gr0I)
  then have p: "frameQueue_Pop q = (fq_deq q, Popped (fq_buf q ! fq_head q))" by (simp add: Pop_eq)
  note d = fq_deq_ok [OF assms(2) \<open>0 < fq_size q\<close>]
  have "fq_buf q ! fq_head q = Some f" "fq_list (fq_deq q) = fs" using d(2,3) assms(3) by auto
  with p d(1) assms(1) that show thesis by (simp add: Consumer_Next_def)
qed

lemma length_codable_Encode [simp]: "length (codable_Encode n m []) = n"
  by (auto simp: codable_Encode_def copy_into_def min_def)

lemma market_payload_size:
  assumes "binance_DecodeMarketDataPayload now pad topic symbol p = Inr bytes"
  shows "payloadSize topic = Inr (length bytes)"
  using assms by (auto simp: binance_DecodeMarketDataPayload_def decodeBinancePayload_def payloadSize_def
      Depth_Encode_def Order_Encode_def split: if_splits sum.splits)

lemma consumer_round_sent:
  assumes "consumer_round now pad sv conn g ctxDone = Ret (sv', conn', out, NextFrame)" "out \<noteq> []"
    and "Consumer_Next (Some (sv_consumers sv ! cg_consumer g)) = (c, Popped (Some f))"
  obtains topic symbol payload where
    "usecase_Resolve (sv_usecase sv) (cg_platform g) (cg_apiKey g) (Frame_Topic (fs_frames (sv_frames sv (group_key g)) f)) = Some (topic, symbol)"
    "binance_DecodeMarketDataPayload now pad topic symbol
       (case Frame_Buf (fs_frames (sv_frames sv (group_key g)) f) of None \<Rightarrow> [] | Some b \<Rightarrow> text_of (visible b)) = Inr payload"
    "writeResponse conn (cg_platform g) topic (bytes_of symbol) payload = Ret (conn', ResponseSent out Written)"
    "sv_frames sv' (group_key g) = Frame_Release (sv_frames sv (group_key g)) f"
    "sv_consumers sv' = (sv_consumers sv)[cg_consumer g := the c]"
proof -
  let ?st = "sv_frames sv (group_key g)"
  let ?p = "case Frame_Buf (fs_frames ?st f) of None \<Rightarrow> [] | Some b \<Rightarrow> text_of (visible b)"
  obtain topic symbol where t: "usecase_Resolve (sv_usecase sv) (cg_platform g) (cg_apiKey g) (Frame_Topic (fs_frames ?st f))
      = Some (topic, symbol)"
    using assms by (cases "usecase_Resolve (sv_usecase sv) (cg_platform g) (cg_apiKey g) (Frame_Topic (fs_frames ?st f))")
      (auto simp: consumer_round_def Let_def split: if_splits)
  obtain payload where p: "binance_DecodeMarketDataPayload now pad topic symbol ?p = Inr payload"
    using assms t by (cases "binance_DecodeMarketDataPayload now pad topic symbol ?p")
      (auto simp: consumer_round_def Let_def split: if_splits)
  obtain conn1 res where w: "writeResponse conn (cg_platform g) topic (bytes_of symbol) payload = Ret (conn1, res)"
    using assms t p by (auto simp: consumer_round_def Let_def go_bind_Ret_iff split: if_splits)
  have res: "res = ResponseSent out Written \<and> conn1 = conn' \<and> sv_frames sv' (group_key g) = Frame_Release ?st f
      \<and> sv_consumers sv' = (sv_consumers sv)[cg_consumer g := the c]"
  proof (cases res)
    case (ResponseRefused e)
    then show ?thesis using assms t p w by (auto simp: consumer_round_def Let_def split: if_splits)
  next
    case (ResponseSent o1 r1)
    then show ?thesis using assms t p w by (cases r1) (auto simp: consumer_round_def Let_def split: if_splits)
  qed
  then show thesis using that [OF t p] w by blast
qed

lemma consumer_stops: "consumer_closed (sv_consumers sv ! cg_consumer g) \<Longrightarrow>
    consumer_round now pad sv conn g ctxDone = Ret (sv, conn, [], ConsumerStop)"
  by (auto simp: consumer_closed_def consumer_round_def Consumer_Next_def frameQueue_Pop_def)

end
