(* ===== verification/Test_Client.thy ===== *)
theory Test_Client
  imports Ingest_Socket Adapter_Records
begin

section \<open>The test client\<close>

text \<open>
  \<open>run\<close> of \<open>bundle/cmd/ingest_test_client/main.go\<close>: the socket it dials, the request it writes and its loop over
  the responses. What it prints is the list of responses with the text of the payload. The loop ends because every
  response takes at least its header from the connection, whose bytes are a list.
\<close>

definition client_target ::
  "unicode_tables \<Rightarrow> string \<Rightarrow> string \<Rightarrow> string \<Rightarrow> string \<Rightarrow> string \<Rightarrow> cmd_error + string \<times> Platform \<times> Topic" where
  "client_target ut platformFlag socketTopicFlag reqTopicFlag udsDirFlag udsPathFlag =
     (let platformName = TrimSpace ut platformFlag in
      if platformName = [] then Inl MissingPlatform
      else
        let socketTopic = TrimSpace ut socketTopicFlag in
        if socketTopic = [] then Inl MissingSocketTopic
        else case client_parsePlatform ut platformName of
          Inl e \<Rightarrow> Inl e
        | Inr platform \<Rightarrow>
            (case parseTopic ut reqTopicFlag of
               Inl e \<Rightarrow> Inl e
             | Inr topic \<Rightarrow>
                 (let socketPath = TrimSpace ut udsPathFlag;
                      socketPath =
                        (if socketPath = [] then
                           let udsDir = TrimSpace ut udsDirFlag;
                               udsDir = (if udsDir = [] then defaultUDSDir else udsDir)
                           in path_Join udsDir (client_buildSocketFilename ut platformName socketTopic)
                         else socketPath)
                  in Inr (socketPath, platform, topic))))"

definition client_request :: "(nat \<Rightarrow> byte) \<Rightarrow> Platform \<Rightarrow> Topic \<Rightarrow> string \<Rightarrow> string \<Rightarrow> string \<Rightarrow> byte list" where
  "client_request pad platform topic baseFlag quoteFlag apiKeyFlag =
     (let symbol = NewSymbol baseFlag quoteFlag [];
          apiKey = NewStr64 apiKeyFlag;
          req = \<lparr>Ingest_Platform = platform, Ingest_Topic = topic, Ingest_Symbol = symbol, Ingest_APIKey = apiKey\<rparr>
      in IngestRequest_Encode pad req [])"

lemma io_ReadFull_length: "io_ReadFull n input = (Some bs, rest) \<Longrightarrow> length input = n + length rest"
  by (auto simp: io_ReadFull_def split: if_splits)

lemma readResponse_takes:
  assumes "readResponse (Some input) = (rest, Inr resp)"
  shows "\<exists>r. rest = Some r \<and> length r + respHeaderSize \<le> length input"
  using assms
  by (auto simp: readResponse_def Let_def simp del: respHeaderSize_def dest!: io_ReadFull_length
      split: prod.splits option.splits sum.splits if_splits)

text \<open>Every payload is printed as a depth, whatever its topic.\<close>

definition client_shown :: "response \<Rightarrow> string option" where
  "client_shown resp =
     (if 0 < length (resp_Payload resp) then Some (Depth_Debug (Depth_Decode (resp_Payload resp))) else None)"

function client_loop :: "byte list \<Rightarrow> (response \<times> string option) list \<times> client_error" where
  "client_loop input =
     (case readResponse (Some input) of
        (rest, Inl e) \<Rightarrow> ([], e)
      | (None, Inr resp) \<Rightarrow> ([], NilConn)
      | (Some rest, Inr resp) \<Rightarrow>
          (let (resps, e) = client_loop rest in ((resp, client_shown resp) # resps, e)))"
  by pat_completeness auto

termination
  by (relation "measure length") (auto dest!: readResponse_takes [OF sym])

declare client_loop.simps [simp del]

text \<open>The acknowledgement, the responses after it, and the error; an interrupt closes the connection, and the error
  of the loop is then none.\<close>

definition client_run :: "bool \<Rightarrow> byte list \<Rightarrow> response option \<times> (response \<times> string option) list \<times> client_error option" where
  "client_run interrupted input =
     (case readResponse (Some input) of
        (rest, Inl e) \<Rightarrow> (None, [], Some e)
      | (None, Inr ack) \<Rightarrow> (Some ack, [], Some NilConn)
      | (Some rest, Inr ack) \<Rightarrow>
          (let (resps, e) = client_loop rest in (Some ack, resps, if interrupted then None else Some e)))"

subsection \<open>A stream of responses\<close>

definition sendable :: "response \<Rightarrow> bool" where
  "sendable r \<longleftrightarrow> length (resp_Arg r) \<le> maxUint16 \<and> payloadSize (resp_Topic r) = Inr (length (resp_Payload r))"

definition frame_of :: "response \<Rightarrow> byte list" where
  "frame_of r = response_frame (resp_Platform r) (resp_Topic r) (bytes_of (resp_Arg r)) (resp_Payload r)"

lemma readResponse_frame_of: "sendable r \<Longrightarrow> readResponse (Some (frame_of r @ rest)) = (Some rest, Inr r)"
  by (simp add: frame_of_def sendable_def readResponse_frame)

lemma readResponse_short: "length tail < respHeaderSize \<Longrightarrow> readResponse (Some tail) = (Some [], Inl ConnEOF)"
  by (simp add: readResponse_def io_ReadFull_def)

lemma client_loop_stream:
  "list_all sendable rs \<Longrightarrow> length tail < respHeaderSize \<Longrightarrow>
     client_loop (concat (map frame_of rs) @ tail) = (map (\<lambda>r. (r, client_shown r)) rs, ConnEOF)"
proof (induction rs)
  case Nil
  then show ?case by (simp add: client_loop.simps readResponse_short)
next
  case (Cons r rs)
  then show ?case by (subst client_loop.simps) (simp add: readResponse_frame_of)
qed

end
