(* ===== verification/Service_Properties.thy ===== *)
theory Service_Properties
  imports Ingest_Service_Laws Ingest_Properties Test_Client
begin

section \<open>Properties of the ingest service\<close>

text \<open>
  The theorems about \<open>bundle/cmd/ingest/main.go\<close> and its test client, which rest on the use case, the consumer
  queues, the Binance decoder and the struct encoding.
\<close>

text \<open>C5: a consumer of a Binance group that has a frame and writes it whole has released exactly that frame, and
  the test client reads from the bytes written the platform, the topic and the symbol \<open>Resolve\<close> gives for the
  frame and a payload that is the decoded frame; for a depth topic it decodes to the order book of the frame.\<close>

theorem frame_reaches_client:
  assumes "sv_consumers sv ! cg_consumer g = c" "co_queue c = Some q" "fq_ok q" "fq_list q = f # fs"
    and "st = sv_frames sv (group_key g)"
    and "Frame_Buf (fs_frames st f) = Some b" "in_int64 now"
    and "consumer_round now pad sv conn g ctxDone = Ret (sv', conn', out, NextFrame)" "out \<noteq> []"
  shows "sv_frames sv' (group_key g) = Frame_Release st f
    \<and> (\<exists>topic symbol payload. usecase_Resolve (sv_usecase sv) (cg_platform g) (cg_apiKey g) (Frame_Topic (fs_frames st f)) = Some (topic, symbol)
      \<and> binance_DecodeMarketDataPayload now pad topic symbol (text_of (visible b)) = Inr payload
      \<and> (wf_Symbol symbol \<longrightarrow> readResponse (Some (out @ rest))
          = (Some rest, Inr \<lparr>resp_Platform = cg_platform g, resp_Topic = topic, resp_Arg = symbol, resp_Payload = payload\<rparr>)
        \<and> (topic = TopicDepth \<longrightarrow> decodeBinanceDepth now (text_of (visible b)) symbol = Inr (Depth_Decode payload))))"
proof -
  obtain q' where n: "Consumer_Next (Some c) = (Some (c\<lparr>co_queue := Some q'\<rparr>), Popped (Some f))"
    using Consumer_Next_frame [OF assms(2-4)] by metis
  then have n: "Consumer_Next (Some (sv_consumers sv ! cg_consumer g)) = (Some (c\<lparr>co_queue := Some q'\<rparr>), Popped (Some f))"
    using assms(1) by simp
  obtain topic symbol payload where t:
    "usecase_Resolve (sv_usecase sv) (cg_platform g) (cg_apiKey g) (Frame_Topic (fs_frames st f)) = Some (topic, symbol)"
    "binance_DecodeMarketDataPayload now pad topic symbol (text_of (visible b)) = Inr payload"
    and w: "writeResponse conn (cg_platform g) topic (bytes_of symbol) payload = Ret (conn', ResponseSent out Written)"
    and rel: "sv_frames sv' (group_key g) = Frame_Release st f"
    by (rule consumer_round_sent [OF assms(8,9) n, folded assms(5), unfolded assms(6) option.case]) blast
  have "readResponse (Some (out @ rest))
      = (Some rest, Inr \<lparr>resp_Platform = cg_platform g, resp_Topic = topic, resp_Arg = symbol, resp_Payload = payload\<rparr>)"
    if "wf_Symbol symbol"
  proof -
    have "out = response_frame (cg_platform g) topic (bytes_of symbol) payload"
      using w writeFull_written by (fastforce simp: writeResponse_def go_bind_Ret_iff split: option.splits if_splits)
    moreover have "length (bytes_of symbol) \<le> maxUint16" using that by (simp add: wf_Symbol_def)
    ultimately show ?thesis using readResponse_frame [OF _ market_payload_size [OF t(2)], of "bytes_of symbol"] by simp
  qed
  moreover have "decodeBinanceDepth now (text_of (visible b)) symbol = Inr (Depth_Decode payload)" if "wf_Symbol symbol" "topic = TopicDepth"
    using binance_payload_depth(1) [OF _ that(1) assms(7)] t(2) that(2) by blast
  ultimately show ?thesis using t rel by blast
qed

definition demo_book :: string where
  "demo_book = ''{'' @ side_text (quoted_name ''b'') [(\<lparr>Integer = 15, Scale = 1\<rparr>, \<lparr>Integer = 2, Scale = 0\<rparr>)] @ ''}''"

definition demo_usecase :: usecase where
  "demo_usecase = \<lparr>us_groups = [(PlatformBinance, []) \<mapsto> 0],
     us_store = [(projr (newGroup PlatformBinance (NewStr64 [])))\<lparr>gr_topicsByID := [1 \<mapsto> 0],
       gr_states := [\<lparr>ts_topic = TopicDepth, ts_arg = ''BTCUSDT'', ts_symbol = NewSymbol ''BTC'' ''USDT'' [], ts_topicID = 1, ts_refCount = 1\<rparr>]\<rparr>],
     us_currTopicID = 1\<rparr>"

definition demo_frames :: frame_store where
  "demo_frames = \<lparr>fs_frames = (\<lambda>_. \<lparr>Frame_Buf = Some \<lparr>buf_data = bytes_of demo_book, buf_len = length demo_book\<rparr>,
     Frame_Topic = 1, Frame_Meta = 0, Frame_ref = 1, Frame_pooled = False\<rparr>), fs_next = 1, fs_pool = [], fs_buffers = None\<rparr>"

definition demo_service :: service where
  "demo_service = \<lparr>sv_usecase = Some demo_usecase,
     sv_consumers = [\<lparr>co_queue = Some \<lparr>fq_buf = [Some 0, None], fq_head = 0, fq_tail = 1, fq_size = 1, fq_closed = False,
       fq_policy = OverflowDropOldest\<rparr>\<rparr>],
     sv_frames = (\<lambda>_. demo_frames)\<rparr>"

theorem frame_reaches_client_witness:
  "\<exists>sv' conn' out payload. consumer_round 5 (\<lambda>_. 0) demo_service (Some [(8300, False)])
       \<lparr>cg_platform = PlatformBinance, cg_apiKey = NewStr64 [], cg_consumer = 0\<rparr> False = Ret (sv', conn', out, NextFrame)
     \<and> readResponse (Some out) = (Some [], Inr \<lparr>resp_Platform = PlatformBinance, resp_Topic = TopicDepth,
         resp_Arg = NewSymbol ''BTC'' ''USDT'' [], resp_Payload = payload\<rparr>)
     \<and> decodeBinanceDepth 5 demo_book (NewSymbol ''BTC'' ''USDT'' []) = Inr (Depth_Decode payload)"
proof -
  let ?g = "\<lparr>cg_platform = PlatformBinance, cg_apiKey = NewStr64 [], cg_consumer = 0\<rparr>"
  let ?sym = "NewSymbol ''BTC'' ''USDT'' []"
  let ?c = "sv_consumers demo_service ! 0" and ?q = "the (co_queue (sv_consumers demo_service ! 0))"
  have "\<not> isl (decodeBinanceDepth 5 demo_book ?sym)" unfolding demo_book_def by code_simp
  then obtain d where d: "decodeBinanceDepth 5 demo_book ?sym = Inr d" by (cases "decodeBinanceDepth 5 demo_book ?sym") auto
  have ne: "demo_book \<noteq> []" by (simp add: demo_book_def)
  have p: "binance_DecodeMarketDataPayload 5 (\<lambda>_. 0) TopicDepth ?sym demo_book = Inr (Depth_Encode (\<lambda>_. 0) d [])"
    using d ne by (simp add: binance_DecodeMarketDataPayload_def decodeBinancePayload_def Topic_IsAvailable_def)
  have k: "Str64_String (NewStr64 []) = []" by code_simp
  have r: "usecase_Resolve (Some demo_usecase) PlatformBinance (NewStr64 []) 1 = Some (TopicDepth, ?sym)"
    by (simp add: usecase_Resolve_def getGroup_def k demo_usecase_def Platform_IsAvailable_def)
  let ?pl = "Depth_Encode (\<lambda>_. 0) d []"
  let ?out = "response_frame PlatformBinance TopicDepth (bytes_of ?sym) ?pl"
  have sy: "length ?sym = 32" using wf_NewSymbol [of "''BTC''" "''USDT''" "[]"] by (simp add: wf_Symbol_def)
  have "length ?out = 8300" by (simp add: response_frame_eq Depth_Encode_def sy)
  then have w: "writeResponse (Some [(8300, False)]) PlatformBinance TopicDepth (bytes_of ?sym) ?pl = Ret (Some [], ResponseSent ?out Written)"
    using writeFull_returns [of "[(8300, False)]" ?out "[]"] by (simp add: writeResponse_def sy response_frame_eq)
  have vis: "text_of (visible \<lparr>buf_data = bytes_of demo_book, buf_len = length demo_book\<rparr>) = demo_book"
    by (simp add: visible_def)
  obtain sv' where e: "consumer_round 5 (\<lambda>_. 0) demo_service (Some [(8300, False)]) ?g False = Ret (sv', Some [], ?out, NextFrame)"
    using p r w by (simp add: consumer_round_def demo_service_def demo_frames_def Consumer_Next_def frameQueue_Pop_def vis Let_def)
  have q: "co_queue ?c = Some ?q" "fq_ok ?q" "fq_list ?q = [0]"
    by (simp_all add: demo_service_def fq_ok_def fq_list_def fq_slot_def)
  have o: "?out \<noteq> []" by (simp add: response_frame_eq)
  have b: "Frame_Buf (fs_frames (sv_frames demo_service (group_key ?g)) 0)
      = Some \<lparr>buf_data = bytes_of demo_book, buf_len = length demo_book\<rparr>" by (simp add: demo_service_def demo_frames_def)
  have t: "Frame_Topic (fs_frames (sv_frames demo_service (group_key ?g)) 0) = 1" by (simp add: demo_service_def demo_frames_def)
  have u: "sv_usecase demo_service = Some demo_usecase" by (simp add: demo_service_def)
  have i: "in_int64 5" by (simp add: in_int64_def)
  have r': "usecase_Resolve (sv_usecase demo_service) (cg_platform ?g) (cg_apiKey ?g)
      (Frame_Topic (fs_frames (sv_frames demo_service (group_key ?g)) 0)) = Some (TopicDepth, ?sym)"
    unfolding t u using r by simp
  have c: "sv_consumers demo_service ! cg_consumer ?g = ?c" by simp
  from frame_reaches_client [OF c q refl b i e o, of "[]", unfolded r' vis] e show ?thesis by auto
qed

text \<open>C31: whatever platform the service is started for, a connection is closed in its first round with nothing
  subscribed: \<open>readRequest\<close> never reads the connection and decodes an empty buffer, whose platform is 0.\<close>

theorem service_serves_nothing:
  assumes "parsePlatform ut name = Inr serverPlatform"
  shows "handleConn (Suc n) low sv (Some c) serverPlatform choice reuse subOrder groupOrder unsubChoice = Ret (Some (sv, True))"
  using parsePlatform_available [OF assms] by (intro handleConn_nothing) (auto simp: Platform_IsAvailable_def)

theorem service_serves_nothing_witness:
  "handleConn 1 (\<lambda>s. s) demo_service (Some ()) PlatformBinance (\<lambda>_ _. None) False [] [] (\<lambda>_ _. None) = Ret (Some (demo_service, True))"
proof -
  have "parsePlatform \<lparr>ut_lower = (\<lambda>s. s), ut_trim = (\<lambda>s. s), ut_fields = (\<lambda>s. [s])\<rparr> '' Binance'' = Inr PlatformBinance" by code_simp
  from service_serves_nothing [OF this, of 0] show ?thesis by simp
qed

text \<open>C6: in every state a connection can reach, whatever requests it is given, its subscriptions are filed under
  the key of their API key, topic and symbol, belong to the server's platform and have a group whose consumer
  exists and is shared with no other API key of the connection; without a bar in the API keys two of them with
  the same key are for the same topic and symbol text.\<close>

theorem connection_tables:
  assumes "conn_reach platform sv hc" "hc_subscriptions hc k = Some s"
  shows "k = subscriptionKey (cs_apiKey s) (cs_topic s) (Symbol_String (cs_symbol s)) \<and> cs_platform s = platform
    \<and> (\<exists>g. hc_groups hc (cs_apiKey s) = Some g \<and> cg_platform g = platform \<and> cg_consumer g < length (sv_consumers sv)
        \<and> (\<forall>a h. hc_groups hc a = Some h \<longrightarrow> cg_consumer h = cg_consumer g \<longrightarrow> a = cs_apiKey s))
    \<and> (\<forall>a t x. CHR ''|'' \<notin> set a \<longrightarrow> CHR ''|'' \<notin> set (cs_apiKey s) \<longrightarrow> subscriptionKey a t x = k \<longrightarrow>
        Str64_String a = Str64_String (cs_apiKey s) \<and> t = cs_topic s \<and> x = Symbol_String (cs_symbol s))"
proof -
  have ok: "groups_ok sv hc platform" "sub_ok (hc_groups hc) platform k s"
    using conn_reach_ok [OF assms(1)] assms(2) by (auto simp: conn_ok_def subs_ok_def)
  then obtain g where g: "hc_groups hc (cs_apiKey s) = Some g" by (auto simp: sub_ok_def)
  have "cg_platform g = platform \<and> cg_consumer g < length (sv_consumers sv)
      \<and> (\<forall>a h. hc_groups hc a = Some h \<longrightarrow> cg_consumer h = cg_consumer g \<longrightarrow> a = cs_apiKey s)"
    using ok(1) g unfolding groups_ok_def by blast
  then show ?thesis using ok(2) g subscriptionKey_inj unfolding sub_ok_def by blast
qed

text \<open>A connection of a BTCC service that has served one request, for the witnesses.\<close>

lemma first_request:
  obtains sv hc g where "conn_reach PlatformBTCC sv hc" "hc_groups hc (NewStr64 []) = Some g"
    "hc_subscriptions hc (subscriptionKey (NewStr64 []) TopicDepth ''BTCUSDT'') \<noteq> None"
proof -
  let ?sv = "\<lparr>sv_usecase = Some NewUsecase, sv_consumers = [], sv_frames = (\<lambda>_. undefined)\<rparr>"
  let ?req = "\<lparr>Ingest_Platform = PlatformBTCC, Ingest_Topic = TopicDepth, Ingest_Symbol = NewSymbol ''BTC'' ''USDT'' [],
    Ingest_APIKey = NewStr64 []\<rparr>"
  obtain u where u: "first_subscription = Ret (Some u, UseDone None)" by (rule first_subscription_eval)
  have k: "Symbol_String (NewSymbol ''BTC'' ''USDT'' []) = ''BTCUSDT''" by code_simp
  have "conn_reach PlatformBTCC ?sv conn_start" by (rule conn_reach.opened) simp
  moreover obtain sv' hc' where r: "conn_round (\<lambda>s. s) ?sv conn_start PlatformBTCC ?req (\<lambda>_. None) False = Ret (sv', hc', Served)"
    and "hc_groups hc' (NewStr64 []) \<noteq> None"
    "hc_subscriptions hc' (subscriptionKey (NewStr64 []) TopicDepth ''BTCUSDT'') \<noteq> None"
    using u [unfolded first_subscription_def] by (simp add: conn_round_def conn_start_def conn_group_def k Let_def)
  ultimately show thesis using that conn_reach.request by blast
qed

theorem connection_tables_witness:
  "\<exists>sv hc s. conn_reach PlatformBTCC sv hc \<and> cs_platform s = PlatformBTCC
    \<and> hc_subscriptions hc (subscriptionKey (NewStr64 []) TopicDepth ''BTCUSDT'') = Some s"
proof -
  obtain sv hc g where c: "conn_reach PlatformBTCC sv hc"
    "hc_subscriptions hc (subscriptionKey (NewStr64 []) TopicDepth ''BTCUSDT'') \<noteq> None" by (rule first_request)
  then obtain s where s: "hc_subscriptions hc (subscriptionKey (NewStr64 []) TopicDepth ''BTCUSDT'') = Some s" by blast
  from connection_tables [OF c(1) s] c(1) s show ?thesis by blast
qed

text \<open>C30: when the cleanup of a connection returns, the goroutine of every consumer of the connection
  ends in its next round, without writing and without leaving a frame in the queue.\<close>

theorem cleanup_closes_consumers:
  assumes "conn_reach platform sv hc" "conn_cleanup sv hc subOrder groupOrder choice reuse = Ret (sv', True)"
    and "hc_groups hc a = Some g" "a \<in> set groupOrder"
  shows "consumer_round now pad sv' conn g ctxDone = Ret (sv', conn, [], ConsumerStop)"
proof -
  have ok: "groups_ok sv hc platform" using conn_reach_ok [OF assms(1)] by (simp add: conn_ok_def)
  obtain sv1 where s: "sv_consumers sv1 = sv_consumers sv" "sv' = cleanup_groups sv1 hc groupOrder"
    using assms(2) cleanup_subs_sel by (fastforce simp: conn_cleanup_def go_bind_Ret_iff split: if_splits)
  have "consumer_closed (sv_consumers (cleanup_groups sv1 hc groupOrder) ! cg_consumer g)"
    by (rule cleanup_groups_closed) (use ok assms(3,4) s(1) in \<open>auto simp: groups_ok_def\<close>)
  then show ?thesis by (simp add: s(2) consumer_stops)
qed

theorem cleanup_closes_consumers_witness:
  "\<exists>sv hc g sv'. conn_reach PlatformBTCC sv hc \<and> hc_groups hc (NewStr64 []) = Some g
    \<and> conn_cleanup sv hc [] [NewStr64 []] (\<lambda>_ _. None) False = Ret (sv', True)
    \<and> consumer_round 5 (\<lambda>_. 0) sv' (Some []) g False = Ret (sv', Some [], [], ConsumerStop)"
proof -
  obtain sv hc g where c: "conn_reach PlatformBTCC sv hc" "hc_groups hc (NewStr64 []) = Some g" by (rule first_request)
  have "conn_cleanup sv hc [] [NewStr64 []] (\<lambda>_ _. None) False = Ret (cleanup_groups sv hc [NewStr64 []], True)"
    by (simp add: conn_cleanup_def)
  from cleanup_closes_consumers [OF c(1) this c(2), of 5 "\<lambda>_. 0" "Some []" False] c this show ?thesis by fastforce
qed

text \<open>For every platform text of at most 64 characters the service accepts, its socket has another file name than
  the one the test client dials, whatever platform and topic texts the client is given.\<close>

lemma socket_names_differ:
  assumes "parsePlatform ut serverName = Inr p" "length (TrimSpace ut (ToLower ut serverName)) \<le> maxTopicName"
  shows "buildSocketFilename ut serverName \<noteq> client_buildSocketFilename ut clientName topicName"
  using assms by (rule server_client_names)

lemma socket_names_differ_witness:
  "buildSocketFilename \<lparr>ut_lower = (\<lambda>s. s), ut_trim = (\<lambda>s. s), ut_fields = (\<lambda>s. [s])\<rparr> ''binance''
     \<noteq> client_buildSocketFilename \<lparr>ut_lower = (\<lambda>s. s), ut_trim = (\<lambda>s. s), ut_fields = (\<lambda>s. [s])\<rparr> ''binance'' ''depth''"
proof -
  have "parsePlatform \<lparr>ut_lower = (\<lambda>s. s), ut_trim = (\<lambda>s. s), ut_fields = (\<lambda>s. [s])\<rparr> ''binance'' = Inr PlatformBinance" by code_simp
  moreover have "length (TrimSpace \<lparr>ut_lower = (\<lambda>s. s), ut_trim = (\<lambda>s. s), ut_fields = (\<lambda>s. [s])\<rparr> (ToLower \<lparr>ut_lower = (\<lambda>s. s), ut_trim = (\<lambda>s. s), ut_fields = (\<lambda>s. [s])\<rparr> ''binance''))
      \<le> maxTopicName" by code_simp
  ultimately show ?thesis by (rule socket_names_differ)
qed

text \<open>A platform given as a number is taken modulo 256: the text of \<open>n\<close> is accepted exactly when the
  remainder is 1 or 2, and then stands for that platform.\<close>

lemma platform_number_wraps:
  assumes "n < 2 ^ 63"
  shows "parsePlatform ut (dec_nat n) = (if n mod 256 = 1 then Inr PlatformBTCC else if n mod 256 = 2 then Inr PlatformBinance
    else Inl (UnknownPlatform (dec_nat n)))"
  using assms by (rule parsePlatform_number)

lemma platform_number_wraps_witness:
  "parsePlatform \<lparr>ut_lower = (\<lambda>s. s), ut_trim = (\<lambda>s. s), ut_fields = (\<lambda>s. [s])\<rparr> (dec_nat 257) = Inr PlatformBTCC"
  using platform_number_wraps [of 257] by simp




end
