(* ===== verification/Codable_Tool.thy ===== *)
theory Codable_Tool
  imports Go_Strings
begin

section \<open>The generator of the struct encodings\<close>

text \<open>
  \<open>libs/tool/codable/main.go\<close>: which structs of a file it selects, whether their memory may be copied, and the
  text it writes. The Go type checker's types are a store: a type is a position in the list of shapes, any other
  number is the nil type. Loading packages, formatting the result and writing the file are outside.
\<close>

subsection \<open>Types that may be copied byte by byte\<close>

datatype type_shape =
  Basic bool bool | Reference | Array nat | Struct "nat list" | Named nat | OtherType

lemma visit_less: "(t :: nat) < n \<Longrightarrow> t \<notin> set vs \<Longrightarrow> card ({..<n} - insert t (set vs)) < card ({..<n} - set vs)"
proof (rule psubset_card_mono)
  assume "t < n" "t \<notin> set vs"
  then show "{..<n} - insert t (set vs) \<subset> {..<n} - set vs" by blast
  show "finite ({..<n} - set vs)" by simp
qed

text \<open>\<open>Basic isString isUnsafePointer\<close>; \<open>Reference\<close> is a pointer, slice, map, channel, interface or
  function. The map \<open>visiting\<close> holds the types whose call has not returned: each call removes what it added,
  so it is passed down only. The cache is passed on from call to call.\<close>

function isCopyable :: "type_shape list \<Rightarrow> nat \<Rightarrow> (nat \<rightharpoonup> bool) \<Rightarrow> nat list \<Rightarrow> bool \<times> (nat \<rightharpoonup> bool)"
  and copyable_fields :: "type_shape list \<Rightarrow> nat list \<Rightarrow> (nat \<rightharpoonup> bool) \<Rightarrow> nat list \<Rightarrow> bool \<times> (nat \<rightharpoonup> bool)" where
  "isCopyable ts t cache visiting =
     (if length ts \<le> t then (False, cache)
      else case cache t of
        Some val \<Rightarrow> (val, cache)
      | None \<Rightarrow>
          if t \<in> set visiting then (False, cache)
          else
            let (result, cache) =
              (case ts ! t of
                 Basic isString isUnsafePointer \<Rightarrow> (\<not> (isString \<or> isUnsafePointer), cache)
               | Reference \<Rightarrow> (False, cache)
               | Array elem \<Rightarrow> isCopyable ts elem cache (t # visiting)
               | Struct comps \<Rightarrow> copyable_fields ts comps cache (t # visiting)
               | Named underlying \<Rightarrow> isCopyable ts underlying cache (t # visiting)
               | OtherType \<Rightarrow> (False, cache))
            in (result, cache(t \<mapsto> result)))"
| "copyable_fields ts [] cache visiting = (True, cache)"
| "copyable_fields ts (f # fs) cache visiting =
     (case isCopyable ts f cache visiting of
        (False, cache) \<Rightarrow> (False, cache)
      | (True, cache) \<Rightarrow> copyable_fields ts fs cache visiting)"
  by pat_completeness auto

termination
  by (relation "inv_image (less_than <*lex*> less_than) (\<lambda>x. case x of
      Inl (ts, t, cache, visiting) \<Rightarrow> (card ({..<length ts} - set visiting), 0)
    | Inr (ts, fs, cache, visiting) \<Rightarrow> (card ({..<length ts} - set visiting), Suc (length fs)))")
    (auto intro!: visit_less simp del: card_Diff_insert)

declare isCopyable.simps [simp del]

text \<open>The reference: a type is copyable when it is a basic type other than a string or unsafe pointer, or an array, a
  struct or a named type all of whose parts are, with no type inside itself.\<close>

inductive Copyable :: "type_shape list \<Rightarrow> nat \<Rightarrow> bool" for ts where
  basic: "t < length ts \<Longrightarrow> ts ! t = Basic False False \<Longrightarrow> Copyable ts t"
| array: "t < length ts \<Longrightarrow> ts ! t = Array e \<Longrightarrow> Copyable ts e \<Longrightarrow> Copyable ts t"
| struct: "t < length ts \<Longrightarrow> ts ! t = Struct fs \<Longrightarrow> \<forall>f \<in> set fs. Copyable ts f \<Longrightarrow> Copyable ts t"
| named: "t < length ts \<Longrightarrow> ts ! t = Named u \<Longrightarrow> Copyable ts u \<Longrightarrow> Copyable ts t"

inductive_cases CopyableE: "Copyable ts t"

fun parts :: "type_shape \<Rightarrow> nat list" where
  "parts (Array e) = [e]"
| "parts (Struct fs) = fs"
| "parts (Named u) = [u]"
| "parts _ = []"

definition part_of :: "type_shape list \<Rightarrow> (nat \<times> nat) set" where
  "part_of ts = {(p, t). t < length ts \<and> p \<in> set (parts (ts ! t))}"

lemma Copyable_part: "Copyable ts t \<Longrightarrow> (p, t) \<in> part_of ts \<Longrightarrow> Copyable ts p"
  by (erule CopyableE) (auto simp: part_of_def)

lemma Copyable_irrefl_step:
  assumes "(t, t) \<in> (part_of ts)\<^sup>+"
  shows "\<exists>p. (p, t) \<in> part_of ts \<and> (p, p) \<in> (part_of ts)\<^sup>+"
proof -
  obtain p where p: "(t, p) \<in> (part_of ts)\<^sup>*" "(p, t) \<in> part_of ts" using assms by (meson tranclD2)
  then have "(p, p) \<in> (part_of ts)\<^sup>+" by simp
  with p(2) show ?thesis by blast
qed

lemma Copyable_acyclic: "Copyable ts t \<Longrightarrow> (t, t) \<notin> (part_of ts)\<^sup>+"
proof (induction rule: Copyable.induct)
  case (basic t)
  then show ?case using Copyable_irrefl_step [of t ts] by (auto simp: part_of_def)
next
  case (array t e)
  then show ?case using Copyable_irrefl_step [of t ts] by (auto simp: part_of_def)
next
  case (struct t fs)
  then show ?case using Copyable_irrefl_step [of t ts] by (auto simp: part_of_def)
next
  case (named t u)
  then show ?case using Copyable_irrefl_step [of t ts] by (auto simp: part_of_def)
qed

definition cache_ok :: "type_shape list \<Rightarrow> (nat \<rightharpoonup> bool) \<Rightarrow> bool" where
  "cache_ok ts cache \<longleftrightarrow> (\<forall>t b. cache t = Some b \<longrightarrow> b = Copyable ts t)"

lemma cache_ok_upd: "cache_ok ts cache \<Longrightarrow> b = Copyable ts t \<Longrightarrow> cache_ok ts (cache(t \<mapsto> b))"
  by (simp add: cache_ok_def)

lemma Copyable_shape:
  "t < length ts \<Longrightarrow> Copyable ts t = (case ts ! t of
      Basic s u \<Rightarrow> \<not> (s \<or> u) | Array e \<Rightarrow> Copyable ts e | Struct fs \<Rightarrow> \<forall>f \<in> set fs. Copyable ts f
    | Named u \<Rightarrow> Copyable ts u | _ \<Rightarrow> False)"
proof
  assume "Copyable ts t"
  then show "case ts ! t of Basic s u \<Rightarrow> \<not> (s \<or> u) | Array e \<Rightarrow> Copyable ts e | Struct fs \<Rightarrow> \<forall>f \<in> set fs. Copyable ts f
    | Named u \<Rightarrow> Copyable ts u | _ \<Rightarrow> False" by (rule CopyableE) simp_all
next
  assume "t < length ts" "case ts ! t of Basic s u \<Rightarrow> \<not> (s \<or> u) | Array e \<Rightarrow> Copyable ts e
    | Struct fs \<Rightarrow> \<forall>f \<in> set fs. Copyable ts f | Named u \<Rightarrow> Copyable ts u | _ \<Rightarrow> False"
  then show "Copyable ts t" by (cases "ts ! t") (simp_all add: Copyable.intros)
qed

lemma isCopyable_correct:
  "cache_ok ts cache \<Longrightarrow> \<forall>v \<in> set visiting. (t, v) \<in> (part_of ts)\<^sup>+ \<Longrightarrow>
     fst (isCopyable ts t cache visiting) = Copyable ts t \<and> cache_ok ts (snd (isCopyable ts t cache visiting))"
  "cache_ok ts cache \<Longrightarrow> \<forall>f \<in> set fs. \<forall>v \<in> set visiting. (f, v) \<in> (part_of ts)\<^sup>+ \<Longrightarrow>
     fst (copyable_fields ts fs cache visiting) = (\<forall>f \<in> set fs. Copyable ts f)
       \<and> cache_ok ts (snd (copyable_fields ts fs cache visiting))"
proof (induction ts t cache visiting and ts fs cache visiting rule: isCopyable_copyable_fields.induct)
  case (1 ts t cache visiting)
  show ?case
  proof (cases "t < length ts \<and> cache t = None")
    case False
    moreover have "\<not> Copyable ts t" if "length ts \<le> t" using that by (auto elim: CopyableE)
    ultimately show ?thesis using 1(4) by (auto simp: isCopyable.simps [of ts t] cache_ok_def split: option.split)
  next
    case t: True
    show ?thesis
    proof (cases "t \<in> set visiting")
      case True
      then have "\<not> Copyable ts t" using 1(5) Copyable_acyclic by blast
      then show ?thesis using t True 1(4) by (simp add: isCopyable.simps [of ts t])
    next
      case False
      have vis: "\<forall>v \<in> set (t # visiting). (p, v) \<in> (part_of ts)\<^sup>+" if "p \<in> set (parts (ts ! t))" for p
      proof -
        have p: "(p, t) \<in> part_of ts" using that t by (simp add: part_of_def)
        then have "(p, v) \<in> (part_of ts)\<^sup>+" if "v \<in> set visiting" for v using that 1(5) by (meson trancl_into_trancl2)
        with p show ?thesis by auto
      qed
      let ?r = "case ts ! t of Basic s u \<Rightarrow> (\<not> (s \<or> u), cache) | Reference \<Rightarrow> (False, cache)
        | Array elem \<Rightarrow> isCopyable ts elem cache (t # visiting) | Struct comps \<Rightarrow> copyable_fields ts comps cache (t # visiting)
        | Named underlying \<Rightarrow> isCopyable ts underlying cache (t # visiting) | OtherType \<Rightarrow> (False, cache)"
      have e: "isCopyable ts t cache visiting = (fst ?r, (snd ?r)(t \<mapsto> fst ?r))"
        using t False by (simp add: isCopyable.simps [of ts t] case_prod_beta)
      have "fst ?r = Copyable ts t \<and> cache_ok ts (snd ?r)"
        using t False 1 vis by (cases "ts ! t") (auto simp: Copyable_shape)
      then show ?thesis unfolding e fst_conv snd_conv using cache_ok_upd [of ts "snd ?r" "fst ?r" t] by blast
    qed
  qed
next
  case (3 ts f fs cache visiting)
  obtain b cache' where r: "isCopyable ts f cache visiting = (b, cache')" by fastforce
  then show ?case using 3 by (cases b) auto
qed simp

subsection \<open>Finding the structs\<close>

type_synonym comment_group = "string list"

definition isCodableDirective :: "unicode_tables \<Rightarrow> string \<Rightarrow> bool" where
  "isCodableDirective ut line =
     (let line = TrimSpace ut line in
      if \<not> HasPrefix line ''go:generate'' then False
      else let fs = Fields ut line in 2 \<le> length fs \<and> fs ! 1 = ''codable'')"

definition splitCommentLines :: "unicode_tables \<Rightarrow> string \<Rightarrow> string list" where
  "splitCommentLines ut text =
     (let text = TrimSpace ut text in
      if HasPrefix text ''//'' then [TrimSpace ut (TrimPrefix text ''//'')]
      else if HasPrefix text ''/*'' then
        (let body = TrimSuffix (TrimPrefix text ''/*'') ''*/'' in
         map (\<lambda>line.
           let line = TrimSpace ut line
           in if HasPrefix line ''*'' then TrimSpace ut (TrimPrefix line ''*'') else line) (split_on (CHR 0x0A) body))
      else [text])"

definition commentGroupHasCodable :: "unicode_tables \<Rightarrow> comment_group option \<Rightarrow> bool" where
  "commentGroupHasCodable ut grp =
     (case grp of
        None \<Rightarrow> False
      | Some comments \<Rightarrow> list_ex (\<lambda>comment. list_ex (isCodableDirective ut) (splitCommentLines ut comment)) comments)"

text \<open>A declaration of a file: its doc comment, whether it declares types, and its specs. What the type checker
  knows of a name is nothing, something that is not a type name, or a type.\<close>

datatype name_info = NoInfo | NotTypeName | TypeName nat

record type_spec =
  sp_Name :: string
  sp_Doc :: "comment_group option"
  sp_isTypeSpec :: bool
  sp_isStruct :: bool
  sp_info :: name_info

record gen_decl =
  gd_isType :: bool
  gd_Doc :: "comment_group option"
  gd_Specs :: "type_spec list"

datatype codable_error = NeedsStruct string | MissingTypeInfo string | ExpectedTypeName string

record codableType =
  ct_Name :: string
  ct_Copyable :: bool

fun collect_specs ::
  "unicode_tables \<Rightarrow> type_shape list \<Rightarrow> comment_group option \<Rightarrow> type_spec list \<Rightarrow> codableType list
     \<Rightarrow> codable_error + codableType list" where
  "collect_specs ut ts doc [] results = Inr results"
| "collect_specs ut ts doc (spec # specs) results =
     (if \<not> sp_isTypeSpec spec then collect_specs ut ts doc specs results
      else if \<not> commentGroupHasCodable ut (sp_Doc spec) \<and> \<not> commentGroupHasCodable ut doc
      then collect_specs ut ts doc specs results
      else if \<not> sp_isStruct spec then Inl (NeedsStruct (sp_Name spec))
      else case sp_info spec of
        NoInfo \<Rightarrow> Inl (MissingTypeInfo (sp_Name spec))
      | NotTypeName \<Rightarrow> Inl (ExpectedTypeName (sp_Name spec))
      | TypeName t \<Rightarrow>
          collect_specs ut ts doc specs
            (results @ [\<lparr>ct_Name = sp_Name spec, ct_Copyable = fst (isCopyable ts t Map.empty [])\<rparr>]))"

fun collect_decls ::
  "unicode_tables \<Rightarrow> type_shape list \<Rightarrow> gen_decl list \<Rightarrow> codableType list \<Rightarrow> codable_error + codableType list" where
  "collect_decls ut ts [] results = Inr results"
| "collect_decls ut ts (d # ds) results =
     (if \<not> gd_isType d then collect_decls ut ts ds results
      else case collect_specs ut ts (gd_Doc d) (gd_Specs d) results of
        Inl e \<Rightarrow> Inl e
      | Inr results \<Rightarrow> collect_decls ut ts ds results)"

definition collectCodableTypes ::
  "unicode_tables \<Rightarrow> type_shape list \<Rightarrow> gen_decl list \<Rightarrow> codable_error + codableType list" where
  "collectCodableTypes ut ts decls = collect_decls ut ts decls []"

subsection \<open>The generated text\<close>

text \<open>\<open>ToLower\<close> of the first byte; a name that begins with a byte outside ASCII gives a replacement
  character, whose first byte is not a small letter either.\<close>

definition receiverName :: "string \<Rightarrow> string" where
  "receiverName typeName =
     (if typeName = [] then ''v''
      else
        let r = lower_ascii (hd typeName)
        in if code r < 97 \<or> 122 < code r then ''v'' else [r])"

definition nl :: string where "nl = [CHR 0x0A]"
definition codable_tab :: string where "codable_tab = [CHR 0x09]"

definition writeCopyable :: "string \<Rightarrow> string" where
  "writeCopyable typeName =
     (let recv = receiverName typeName in
      ''func ('' @ recv @ '' '' @ typeName @ '') SizeInByte() int {'' @ nl
      @ codable_tab @ ''return int(unsafe.Sizeof('' @ recv @ ''))'' @ nl
      @ ''}'' @ nl @ nl
      @ ''func ('' @ recv @ '' '' @ typeName @ '') Encode(dst []byte) []byte {'' @ nl
      @ codable_tab @ ''size := '' @ recv @ ''.SizeInByte()'' @ nl
      @ codable_tab @ ''if cap(dst) < size {'' @ nl
      @ codable_tab @ codable_tab @ ''dst = make([]byte, size)'' @ nl
      @ codable_tab @ ''} else {'' @ nl
      @ codable_tab @ codable_tab @ ''dst = dst[:size]'' @ nl
      @ codable_tab @ ''}'' @ nl @ nl
      @ codable_tab @ ''src := unsafe.Slice((*byte)(unsafe.Pointer(&'' @ recv @ '')), size)'' @ nl
      @ codable_tab @ ''copy(dst, src)'' @ nl
      @ codable_tab @ ''return dst'' @ nl
      @ ''}'' @ nl @ nl
      @ ''func ('' @ typeName @ '') Decode(src []byte) '' @ typeName @ '' {'' @ nl
      @ codable_tab @ ''var result '' @ typeName @ nl
      @ codable_tab @ ''size := int(unsafe.Sizeof(result))'' @ nl
      @ codable_tab @ ''dst := unsafe.Slice((*byte)(unsafe.Pointer(&result)), size)'' @ nl
      @ codable_tab @ ''copy(dst, src)'' @ nl
      @ codable_tab @ ''return result'' @ nl
      @ ''}'' @ nl)"

definition writeStub :: "string \<Rightarrow> string" where
  "writeStub typeName =
     (let recv = receiverName typeName in
      ''func ('' @ recv @ '' '' @ typeName @ '') SizeInByte() int {'' @ nl
      @ codable_tab @ ''return 0'' @ nl
      @ ''}'' @ nl @ nl
      @ ''func ('' @ recv @ '' '' @ typeName @ '') Encode(dst []byte) []byte {'' @ nl
      @ codable_tab @ ''return nil'' @ nl
      @ ''}'' @ nl @ nl
      @ ''func ('' @ recv @ '' '' @ typeName @ '') Decode(src []byte) '' @ typeName @ '' {'' @ nl
      @ codable_tab @ ''var result '' @ typeName @ nl
      @ codable_tab @ ''return result'' @ nl
      @ ''}'' @ nl)"

fun codable_render_types :: "codableType list \<Rightarrow> bool \<Rightarrow> string" where
  "codable_render_types [] later = []"
| "codable_render_types (t # ts) later =
     (if later then nl else []) @ (if ct_Copyable t then writeCopyable (ct_Name t) else writeStub (ct_Name t))
       @ codable_render_types ts True"

text \<open>\<open>format.Source\<close> is the parameter; it fails on text that is not Go.\<close>

definition codable_render :: "(string \<Rightarrow> string option) \<Rightarrow> string \<Rightarrow> codableType list \<Rightarrow> string option" where
  "codable_render format_Source pkgName types =
     format_Source
       (''// Code generated by codable; DO NOT EDIT.'' @ nl @ nl @ ''package '' @ pkgName @ nl @ nl
        @ (if list_ex ct_Copyable types then ''import '' @ [CHR 0x22] @ ''unsafe'' @ [CHR 0x22] @ nl @ nl else [])
        @ codable_render_types types False)"

end
