(* ===== verification/Codable_Generator.thy ===== *)
theory Codable_Generator
  imports Codable_Tool
begin

section \<open>A run of the generator\<close>

text \<open>
  \<open>run\<close> of \<open>libs/tool/codable/main.go\<close>: the file it looks for, the package that holds it, and the file it writes.
  The working directory, the package loader, the formatter and the write are parameters; a loaded package is what
  the loader reports of it.
\<close>

record go_package =
  pk_Name :: string
  pk_Errors :: nat
  pk_Fset :: bool
  pk_Syntax :: "gen_decl list list"
  pk_CompiledGoFiles :: "string list"
  pk_GoFiles :: "string list"
  pk_types :: "type_shape list"

datatype tool_error =
  MissingSource | NotGoFile string | WorkDirFailed | LoadFailed | NoPackages | TypeCheckFailed | MissingFileset
| NoGoFiles | FileNotFound string | CollectFailed codable_error | NoStructs string | FormatFailed | WriteFileFailed

record tool_env =
  te_Getwd :: "string option"
  te_Load :: "string \<Rightarrow> go_package list option"
  te_Source :: "string \<Rightarrow> string option"
  te_WriteFile :: "string \<Rightarrow> string \<Rightarrow> bool"

definition source_name :: "unicode_tables \<Rightarrow> string \<Rightarrow> string list \<Rightarrow> string \<Rightarrow> tool_error + string" where
  "source_name ut fileFlag args GOFILE =
     (let fileName = TrimSpace ut fileFlag;
          fileName = (if fileName = [] \<and> args \<noteq> [] then TrimSpace ut (hd args) else fileName);
          fileName = (if fileName = [] then TrimSpace ut GOFILE else fileName)
      in if fileName = [] then Inl MissingSource
         else
           let fileName = path_Base fileName
           in if path_Ext fileName \<noteq> ''.go'' then Inl (NotGoFile fileName) else Inr fileName)"

fun target_file :: "go_package \<Rightarrow> string \<Rightarrow> nat \<Rightarrow> gen_decl list list \<Rightarrow> gen_decl list option" where
  "target_file pkg fileName i [] = None"
| "target_file pkg fileName i (file # files) =
     (let name =
        (if i < length (pk_CompiledGoFiles pkg) then pk_CompiledGoFiles pkg ! i
         else if i < length (pk_GoFiles pkg) then pk_GoFiles pkg ! i
         else [])
      in if path_Base name = fileName then Some file else target_file pkg fileName (Suc i) files)"

definition codable_file :: "unicode_tables \<Rightarrow> tool_env \<Rightarrow> string \<Rightarrow> string \<Rightarrow> go_package \<Rightarrow> tool_error + string \<times> string" where
  "codable_file ut env dir fileName pkg =
     (case target_file pkg fileName 0 (pk_Syntax pkg) of
        None \<Rightarrow> Inl (FileNotFound fileName)
      | Some decls \<Rightarrow>
          (case collectCodableTypes ut (pk_types pkg) decls of
             Inl e \<Rightarrow> Inl (CollectFailed e)
           | Inr typesToGenerate \<Rightarrow>
               if typesToGenerate = [] then Inl (NoStructs fileName)
               else case codable_render (te_Source env) (pk_Name pkg) typesToGenerate of
                 None \<Rightarrow> Inl FormatFailed
               | Some out \<Rightarrow>
                   (let base = TrimSuffix fileName ''.go'';
                        outPath = path_Join dir (base @ ''_codable.go'')
                    in if te_WriteFile env outPath out then Inr (outPath, out) else Inl WriteFileFailed)))"

definition codable_run :: "unicode_tables \<Rightarrow> tool_env \<Rightarrow> string \<Rightarrow> string list \<Rightarrow> string \<Rightarrow> tool_error + string \<times> string" where
  "codable_run ut env fileFlag args GOFILE =
     (case source_name ut fileFlag args GOFILE of
        Inl e \<Rightarrow> Inl e
      | Inr fileName \<Rightarrow>
          (case te_Getwd env of
             None \<Rightarrow> Inl WorkDirFailed
           | Some dir \<Rightarrow>
               (case te_Load env dir of
                  None \<Rightarrow> Inl LoadFailed
                | Some [] \<Rightarrow> Inl NoPackages
                | Some (pkg # pkgs) \<Rightarrow>
                    if 0 < pk_Errors pkg then Inl TypeCheckFailed
                    else if \<not> pk_Fset pkg then Inl MissingFileset
                    else if pk_Syntax pkg = [] then Inl NoGoFiles
                    else codable_file ut env dir fileName pkg)))"

subsection \<open>What a run writes\<close>

text \<open>The structs a file marks, in its order.\<close>

definition marked :: "unicode_tables \<Rightarrow> comment_group option \<Rightarrow> type_spec \<Rightarrow> bool" where
  "marked ut doc spec \<longleftrightarrow> sp_isTypeSpec spec \<and> (commentGroupHasCodable ut (sp_Doc spec) \<or> commentGroupHasCodable ut doc)"

definition codable_of :: "type_shape list \<Rightarrow> type_spec \<Rightarrow> codableType" where
  "codable_of ts spec = \<lparr>ct_Name = sp_Name spec,
     ct_Copyable = (case sp_info spec of TypeName t \<Rightarrow> Copyable ts t | _ \<Rightarrow> False)\<rparr>"

definition marked_in :: "unicode_tables \<Rightarrow> gen_decl \<Rightarrow> type_spec list" where
  "marked_in ut d = (if gd_isType d then filter (marked ut (gd_Doc d)) (gd_Specs d) else [])"

definition is_type_struct :: "type_spec \<Rightarrow> bool" where
  "is_type_struct spec \<longleftrightarrow> sp_isStruct spec \<and> (\<exists>t. sp_info spec = TypeName t)"

lemma collect_specs_marked:
  "collect_specs ut ts doc specs results = Inr out \<longleftrightarrow>
     list_all is_type_struct (filter (marked ut doc) specs) \<and> out = results @ map (codable_of ts) (filter (marked ut doc) specs)"
proof (induction specs arbitrary: results)
  case (Cons spec specs)
  have c: "fst (isCopyable ts t Map.empty []) = Copyable ts t" for t
    using isCopyable_correct(1) [of ts Map.empty "[]" t] by (simp add: cache_ok_def)
  show ?case
  proof (cases "marked ut doc spec")
    case False
    then have "collect_specs ut ts doc (spec # specs) results = collect_specs ut ts doc specs results"
      by (auto simp: marked_def)
    then show ?thesis using False Cons.IH by (simp del: collect_specs.simps)
  next
    case True
    then have m: "sp_isTypeSpec spec" "commentGroupHasCodable ut (sp_Doc spec) \<or> commentGroupHasCodable ut doc"
      by (auto simp: marked_def)
    show ?thesis
    proof (cases "is_type_struct spec")
      case False
      then show ?thesis using True m by (cases "sp_info spec") (auto simp: is_type_struct_def)
    next
      case struct: True
      then obtain t where t: "sp_isStruct spec" "sp_info spec = TypeName t" by (auto simp: is_type_struct_def)
      have "collect_specs ut ts doc (spec # specs) results = collect_specs ut ts doc specs (results @ [codable_of ts spec])"
        using m t by (auto simp: c codable_of_def)
      then show ?thesis using Cons.IH True struct by (simp del: collect_specs.simps)
    qed
  qed
qed auto

lemma collect_decls_marked:
  "collect_decls ut ts decls results = Inr out \<longleftrightarrow>
     list_all is_type_struct (concat (map (marked_in ut) decls))
     \<and> out = results @ map (codable_of ts) (concat (map (marked_in ut) decls))"
proof (induction decls arbitrary: results)
  case (Cons d ds)
  show ?case
  proof (cases "gd_isType d")
    case False
    then show ?thesis using Cons by (simp add: marked_in_def)
  next
    case True
    let ?l = "filter (marked ut (gd_Doc d)) (gd_Specs d)"
    note s = collect_specs_marked [of ut ts "gd_Doc d" "gd_Specs d" results]
    show ?thesis
    proof (cases "collect_specs ut ts (gd_Doc d) (gd_Specs d) results")
      case (Inl e)
      then have "\<not> list_all is_type_struct ?l" using s by auto
      then show ?thesis using True Inl by (simp add: marked_in_def)
    next
      case (Inr mid)
      then have "list_all is_type_struct ?l" "mid = results @ map (codable_of ts) ?l" using s by auto
      then show ?thesis using True Inr Cons.IH by (simp add: marked_in_def)
    qed
  qed
qed auto

lemma target_file_Some:
  "target_file pkg fileName i files = Some file \<Longrightarrow> \<exists>k < length files. files ! k = file
     \<and> path_Base (if i + k < length (pk_CompiledGoFiles pkg) then pk_CompiledGoFiles pkg ! (i + k)
         else if i + k < length (pk_GoFiles pkg) then pk_GoFiles pkg ! (i + k) else []) = fileName"
proof (induction files arbitrary: i)
  case (Cons f fs)
  show ?case
  proof (cases "target_file pkg fileName (Suc i) fs = Some file")
    case True
    from Cons.IH [OF this] obtain k where "k < length fs" "fs ! k = file"
      "path_Base (if Suc i + k < length (pk_CompiledGoFiles pkg) then pk_CompiledGoFiles pkg ! (Suc i + k)
         else if Suc i + k < length (pk_GoFiles pkg) then pk_GoFiles pkg ! (Suc i + k) else []) = fileName" by blast
    then show ?thesis by (intro exI [of _ "Suc k"]) auto
  next
    case False
    then show ?thesis using Cons.prems by (intro exI [of _ 0]) (auto simp: Let_def split: if_splits)
  qed
qed simp

end
