(* ===== verification/Ws_Dialer.thy ===== *)
theory Ws_Dialer
  imports Ws_Handshake
begin

section \<open>Dialling\<close>

text \<open>
  The rest of \<open>dialer.go\<close>: the dialer, the upgrade request, the connection deadlines. TCP, TLS and \<open>net/http\<close>
  answer through \<open>dial_env\<close>; what \<open>Dial\<close> does to the connections it opens is the list of its events, the latest
  last. Closing the TLS connection closes the TCP connection under it.
\<close>

record dialer =
  dr_Addr :: string
  dr_Host :: string
  dr_Path :: string
  dr_ServerName :: string
  dr_DialTimeout :: int
  dr_KeepAlive :: int

definition second :: int where [simp]: "second = 1000000000"

definition NewDialer :: "string \<Rightarrow> string \<Rightarrow> string \<Rightarrow> dialer" where
  "NewDialer host port path = \<lparr>dr_Addr = host @ '':'' @ port, dr_Host = host, dr_Path = path, dr_ServerName = host,
     dr_DialTimeout = 10 * second, dr_KeepAlive = 0\<rparr>"

record upgrade_request =
  ur_URL :: string
  ur_Host :: string
  ur_Header :: "(string \<times> string) list"

record upgrade_response =
  us_StatusCode :: nat
  us_Upgrade :: string
  us_Connection :: string
  us_Accept :: string
  us_rest :: "byte list"

record dial_env =
  de_random :: "byte list option"
  de_url_ok :: "string \<Rightarrow> bool"
  de_connect :: "string \<Rightarrow> int \<Rightarrow> bool"
  de_tls :: "string \<Rightarrow> bool"
  de_write :: "upgrade_request \<Rightarrow> bool"
  de_response :: "upgrade_request \<Rightarrow> upgrade_response option"
  de_now :: int

datatype dial_error = KeyError | URLError | ConnectError | TLSError | RequestWriteError | NoResponse | HandshakeError conn_error

definition upgrade_for :: "string \<Rightarrow> string \<Rightarrow> string \<Rightarrow> upgrade_request" where
  "upgrade_for key host path = \<lparr>ur_URL = ''https://'' @ host @ path, ur_Host = host,
     ur_Header = [(''Upgrade'', ''websocket''), (''Connection'', ''Upgrade''), (''Sec-WebSocket-Key'', key),
       (''Sec-WebSocket-Version'', ''13'')]\<rparr>"

definition dialWebSocketOn :: "dial_env \<Rightarrow> string \<Rightarrow> string \<Rightarrow> dial_error + wsConn" where
  "dialWebSocketOn env host path =
     (case de_random env of
        None \<Rightarrow> Inl KeyError
      | Some random \<Rightarrow>
          let key = newWebSocketKey random; req = upgrade_for key host path in
          if \<not> de_url_ok env (ur_URL req) then Inl URLError
          else if \<not> de_write env req then Inl RequestWriteError
          else case de_response env req of
            None \<Rightarrow> Inl NoResponse
          | Some resp \<Rightarrow>
              (case dialWebSocket key (us_StatusCode resp) (us_Upgrade resp) (us_Connection resp) (us_Accept resp)
                  (de_now env) (us_rest resp) of
                 Inl e \<Rightarrow> Inl (HandshakeError e)
               | Inr c \<Rightarrow> Inr c))"

datatype dial_event = Connected | NoDelay | KeepAlivePeriod int | TLSUp | TCPClosed | TLSClosed

definition Dial :: "dial_env \<Rightarrow> dialer \<Rightarrow> dialer \<times> dial_event list \<times> (dial_error + wsConn)" where
  "Dial env d =
     (let d = (if dr_KeepAlive d = 0 then d\<lparr>dr_KeepAlive := 30 * second\<rparr> else d) in
      if \<not> de_connect env (dr_Addr d) (dr_DialTimeout d) then (d, [], Inl ConnectError)
      else
        let log = [Connected, NoDelay, KeepAlivePeriod (dr_KeepAlive d)] in
        if \<not> de_tls env (dr_ServerName d) then (d, log @ [TCPClosed], Inl TLSError)
        else
          let log = log @ [TLSUp] in
          case dialWebSocketOn env (dr_Host d) (dr_Path d) of
            Inl e \<Rightarrow> (d, log @ [TLSClosed], Inl e)
          | Inr c \<Rightarrow> (d, log, Inr c))"

text \<open>A context's deadline and whether it is done, and the time a deadline call sets; no time clears it.\<close>

record ctx =
  ctx_deadline :: "int option"
  ctx_done :: bool

definition setDeadline :: "int \<Rightarrow> ctx option \<Rightarrow> int option" where
  "setDeadline timeNow c =
     (case c of
        None \<Rightarrow> None
      | Some c \<Rightarrow>
          (case ctx_deadline c of
             Some deadline \<Rightarrow> Some deadline
           | None \<Rightarrow> if ctx_done c then Some timeNow else None))"

definition open_connections :: "dial_event list \<Rightarrow> int" where
  "open_connections log =
     int (length (filter (\<lambda>e. e = Connected) log)) - int (length (filter (\<lambda>e. e = TCPClosed \<or> e = TLSClosed) log))"

lemma Dial_balance:
  assumes "Dial env d = (d', log, r)"
  shows "open_connections log = (if isl r then 0 else 1)"
proof (cases "dialWebSocketOn env (dr_Host d) (dr_Path d)")
  case (Inl e)
  then show ?thesis using assms by (auto simp: Dial_def Let_def open_connections_def Inl split: if_splits)
next
  case (Inr c)
  then show ?thesis using assms by (auto simp: Dial_def Let_def open_connections_def Inr split: if_splits)
qed

lemma dialWebSocketOn_accepts:
  assumes "dialWebSocketOn env host path = Inr c"
  shows "\<exists>random resp. de_random env = Some random
    \<and> de_response env (upgrade_for (newWebSocketKey random) host path) = Some resp \<and> us_StatusCode resp = 101
    \<and> validateAcceptKey (newWebSocketKey random) (us_Accept resp) \<and> wc_input c = us_rest resp \<and> wc_pending c = None"
  using assms
  by (auto simp: dialWebSocketOn_def dialWebSocket_def Let_def split: option.splits if_splits sum.splits)

end
