(* ===== verification/Support_Properties.thy ===== *)
theory Support_Properties
  imports Uds Codable_Generator Ws_Dialer
begin

section \<open>Properties of the sockets, the generator and the dialer\<close>

text \<open>
  The theorems about \<open>libs/shared/uds\<close>, \<open>libs/tool/codable\<close> and the dialling half of
  \<open>libs/shared/websocket/dialer.go\<close>.
\<close>

lemma Server_Close_listening:
  assumes "server_run fs s" "sr_ln s"
  shows "Server_Close env fs (Some s)
      = (if has_file (sr_addr s) then fs(sr_addr s := None) else fs, Some (s\<lparr>sr_ln := False\<rparr>), if ue_close env then None else Some OsErr)"
    and "has_file (sr_addr s) \<Longrightarrow> fs (sr_addr s) = Some SocketFile"
  using assms server_run_socket [OF assms(1)] by (simp_all add: Server_Close_def)

text \<open>C34: a server touches no file but a socket at its own path: whatever \<open>Listen\<close> answers, a file at another path
  and a file that is not a socket are what they were. When it answers without an error the socket's file is there,
  and \<open>Close\<close>, error or not, removes it, leaves everything else as it was, and lets the server listen again.\<close>

theorem socket_files_safe:
  assumes "server_run fs s" "Server_Listen env fs (Some s) = (fs', Some s', e)"
  shows "(\<forall>p. p \<noteq> sr_addr s \<or> fs p = Some OtherFile \<longrightarrow> fs' p = fs p)
    \<and> (e = None \<longrightarrow> (has_file (sr_addr s) \<longrightarrow> fs' (sr_addr s) = Some SocketFile)
        \<and> (\<exists>fs'' s'' e'. Server_Close env' fs' (Some s') = (fs'', Some s'', e')
            \<and> \<not> sr_ln s'' \<and> sr_addr s'' = sr_addr s \<and> (has_file (sr_addr s) \<longrightarrow> fs'' (sr_addr s) = None)
            \<and> (\<forall>p. p \<noteq> sr_addr s \<or> fs p = Some OtherFile \<longrightarrow> fs'' p = fs p)))"
proof -
  note sel = Server_Listen_sel [OF assms(2)]
  have run: "server_run fs' s'" using assms by (rule server_run.listen)
  have keep: "\<forall>p. p \<noteq> sr_addr s \<or> fs p = Some OtherFile \<longrightarrow> fs' p = fs p" using sel by metis
  have "\<exists>fs'' s'' e'. Server_Close env' fs' (Some s') = (fs'', Some s'', e')
            \<and> \<not> sr_ln s'' \<and> sr_addr s'' = sr_addr s \<and> (has_file (sr_addr s) \<longrightarrow> fs'' (sr_addr s) = None)
            \<and> (\<forall>p. p \<noteq> sr_addr s \<or> fs p = Some OtherFile \<longrightarrow> fs'' p = fs p)"
    if "e = None"
    using Server_Close_listening [OF run] that sel keep by (cases "has_file (sr_addr s)") auto
  moreover have "e = None \<longrightarrow> has_file (sr_addr s) \<longrightarrow> fs' (sr_addr s) = Some SocketFile" using sel by metis
  ultimately show ?thesis using keep by blast
qed

definition demo_uds :: uds_env where
  "demo_uds = \<lparr>ue_lstat = (\<lambda>_. True), ue_remove = (\<lambda>_. True), ue_listen = (\<lambda>_. True), ue_close = True, ue_accept = Some 0,
     ue_dial = (\<lambda>_. Some 0)\<rparr>"

theorem socket_files_safe_witness:
  "\<exists>fs' s'. Server_Listen demo_uds [''/tmp/a.sock'' \<mapsto> SocketFile, ''/tmp/b'' \<mapsto> OtherFile]
       (Some \<lparr>sr_addr = ''/tmp/a.sock'', sr_ln = False\<rparr>) = (fs', Some s', None)
     \<and> fs' ''/tmp/a.sock'' = Some SocketFile \<and> fs' ''/tmp/b'' = Some OtherFile
     \<and> (\<exists>fs'' s'' e'. Server_Close demo_uds fs' (Some s') = (fs'', Some s'', e')
         \<and> fs'' ''/tmp/a.sock'' = None \<and> fs'' ''/tmp/b'' = Some OtherFile)"
proof -
  let ?fs = "[''/tmp/a.sock'' \<mapsto> SocketFile, ''/tmp/b'' \<mapsto> OtherFile]"
  let ?s = "\<lparr>sr_addr = ''/tmp/a.sock'', sr_ln = False\<rparr>"
  have run: "server_run ?fs ?s" by (rule server_run.fresh [of "''/tmp/a.sock''"]) (simp add: NewServer_def)
  obtain fs' where l: "Server_Listen demo_uds ?fs (Some ?s) = (fs', Some (?s\<lparr>sr_ln := True\<rparr>), None)"
    by (simp add: Server_Listen_def RemoveIfExists_def demo_uds_def has_file_def)
  have keep: "fs' ''/tmp/b'' = Some OtherFile" "fs' ''/tmp/a.sock'' = Some SocketFile"
    using socket_files_safe [OF run l] by (auto simp: has_file_def)
  obtain fs'' s'' e' where "Server_Close demo_uds fs' (Some (?s\<lparr>sr_ln := True\<rparr>)) = (fs'', Some s'', e')"
    "fs'' ''/tmp/a.sock'' = None" "fs'' ''/tmp/b'' = ?fs ''/tmp/b''"
    using socket_files_safe [OF run l, of demo_uds] by (auto simp: has_file_def)
  with l keep show ?thesis by (metis (no_types, lifting) fun_upd_same)
qed

text \<open>C33: the walk over a type's parts, with its cache and the set of types being visited, ends and answers what the
  reference says: a type is copyable when it is built of numbers and booleans by arrays, structs and names alone and
  does not contain itself; and every answer the cache keeps is the reference's.\<close>

theorem copyable_iff:
  "fst (isCopyable ts t Map.empty []) = Copyable ts t
   \<and> (\<forall>u b. snd (isCopyable ts t Map.empty []) u = Some b \<longrightarrow> b = Copyable ts u)"
  using isCopyable_correct(1) [of ts Map.empty "[]" t] by (simp add: cache_ok_def)

text \<open>A struct of a number and an array of numbers, and a struct with a slice.\<close>

definition demo_types :: "type_shape list" where
  "demo_types = [Basic False False, Array 0, Named 3, Struct [0, 1], Struct [1, 5], Reference]"

lemma demo_Copyable: "Copyable demo_types 2" "\<not> Copyable demo_types 4"
  by (simp_all add: demo_types_def Copyable_shape)

theorem copyable_iff_witness:
  "fst (isCopyable demo_types 2 Map.empty []) \<and> \<not> fst (isCopyable demo_types 4 Map.empty [])
   \<and> snd (isCopyable demo_types 2 Map.empty []) 2 \<noteq> Some False"
  using copyable_iff [of demo_types 2] copyable_iff [of demo_types 4] demo_Copyable by blast






text \<open>C35: \<open>Dial\<close> leaves no connection open when it fails, whichever of its steps does, and exactly one when it
  succeeds; then the peer answered the request that carries the dialer's own key with 101 and the key's hash, the
  keep-alive period was set before, and what followed the answer is the connection's first input.\<close>

theorem dial_leaves_nothing_open:
  assumes "Dial env d = (d', log, r)"
  shows "open_connections log = (if isl r then 0 else 1)
    \<and> (\<forall>c. r = Inr c \<longrightarrow> (\<exists>random resp. de_random env = Some random
        \<and> de_response env (upgrade_for (newWebSocketKey random) (dr_Host d) (dr_Path d)) = Some resp
        \<and> us_StatusCode resp = 101 \<and> validateAcceptKey (newWebSocketKey random) (us_Accept resp)
        \<and> wc_input c = us_rest resp \<and> KeepAlivePeriod (dr_KeepAlive d') \<in> set log \<and> dr_KeepAlive d' \<noteq> 0))"
proof -
  have "dialWebSocketOn env (dr_Host d) (dr_Path d) = Inr c \<and> KeepAlivePeriod (dr_KeepAlive d') \<in> set log \<and> dr_KeepAlive d' \<noteq> 0"
    if "r = Inr c" for c
    using assms that by (auto simp: Dial_def Let_def split: if_splits sum.splits)
  then show ?thesis using Dial_balance [OF assms] dialWebSocketOn_accepts [of env "dr_Host d" "dr_Path d"] by metis
qed

definition demo_response :: "upgrade_response" where
  "demo_response = \<lparr>us_StatusCode = 403, us_Upgrade = [], us_Connection = [], us_Accept = [], us_rest = []\<rparr>"

definition demo_dial :: dial_env where
  "demo_dial = \<lparr>de_random = Some (replicate 16 0), de_url_ok = (\<lambda>_. True), de_connect = (\<lambda>_ _. True), de_tls = (\<lambda>_. True),
     de_write = (\<lambda>_. True), de_response = (\<lambda>_. Some demo_response), de_now = 0\<rparr>"

theorem dial_leaves_nothing_open_witness:
  "\<exists>d' log e. Dial demo_dial (NewDialer ''h'' ''443'' ''/ws'') = (d', log, Inl e) \<and> open_connections log = 0"
proof -
  obtain d' log r where d: "Dial demo_dial (NewDialer ''h'' ''443'' ''/ws'') = (d', log, r)" by (metis prod_cases3)
  have "isl r"
  proof (rule ccontr)
    assume "\<not> isl r"
    then obtain c where "r = Inr c" by (metis sum.collapse(2))
    then show False using dial_leaves_nothing_open [OF d] by (auto simp: demo_dial_def demo_response_def)
  qed
  then show ?thesis using dial_leaves_nothing_open [OF d] d by (cases r) auto
qed

end
