(* ===== verification/Memory_Metric.thy ===== *)
theory Memory_Metric
  imports Go_Float
begin

section \<open>The memory metric\<close>

text \<open>
  \<open>libs/shared/metric/memery.go\<close>. A memory snapshot holds the counters of \<open>runtime.MemStats\<close> the report reads;
  times are nanoseconds since 1970 and the zero time, which \<open>time.Time\<close> starts with, is nothing. The text of a
  float with a number of decimals, and its division by 1024, are \<open>strconv\<close>'s and the processor's: \<open>fixed_text\<close>
  gives the text and \<open>f64_div1024\<close> rounds. The 2048 bytes of the buffer only save allocations.
\<close>

record mem_stats =
  ms_TotalAlloc :: u64
  ms_HeapAlloc :: u64
  ms_HeapInuse :: u64
  ms_HeapObjects :: u64
  ms_NumGC :: u32
  ms_PauseTotalNs :: u64
  ms_LastGC :: u64
  ms_NextGC :: u64
  ms_GCCPUFraction :: f64
  ms_Mallocs :: u64
  ms_Frees :: u64

definition zero_stats :: mem_stats where
  "zero_stats = \<lparr>ms_TotalAlloc = 0, ms_HeapAlloc = 0, ms_HeapInuse = 0, ms_HeapObjects = 0, ms_NumGC = 0, ms_PauseTotalNs = 0,
     ms_LastGC = 0, ms_NextGC = 0, ms_GCCPUFraction = Fin 0, ms_Mallocs = 0, ms_Frees = 0\<rparr>"

record memory_metric =
  mm_prev :: mem_stats
  mm_curr :: mem_stats
  mm_prevAt :: "int option"
  mm_currAt :: "int option"

definition Snapshot :: "mem_stats \<Rightarrow> int \<Rightarrow> memory_metric \<Rightarrow> memory_metric" where
  "Snapshot stats timeNow m =
     (let m = m\<lparr>mm_prev := mm_curr m, mm_curr := mm_prev m\<rparr>;
          m = m\<lparr>mm_prevAt := mm_currAt m\<rparr>;
          m = m\<lparr>mm_currAt := Some timeNow\<rparr>;
          m = m\<lparr>mm_curr := stats\<rparr>
      in if mm_prevAt m = None then m\<lparr>mm_prevAt := mm_currAt m\<rparr> else m)"

definition metric_Get :: "memory_metric \<Rightarrow> mem_stats \<times> mem_stats" where
  "metric_Get m = (mm_prev m, mm_curr m)"

definition carryThreshold :: nat where [simp]: "carryThreshold = 2 ^ 15"

definition bytesCarry :: "u64 \<Rightarrow> u64 \<times> string" where
  "bytesCarry value =
     (if unat value < carryThreshold then (value, '' B'')
      else
        let value = drop_bit 10 value in
        if unat value < carryThreshold then (value, '' KB'')
        else
          let value = drop_bit 10 value in
          if unat value < carryThreshold then (value, '' MB'')
          else (drop_bit 10 value, '' GB''))"

definition f64_div1024 :: "f64 \<Rightarrow> f64" where
  "f64_div1024 x = (case x of Fin r \<Rightarrow> rnd64 (r / 1024) | _ \<Rightarrow> x)"

definition below_threshold :: "f64 \<Rightarrow> bool" where
  "below_threshold x = (case x of Fin r \<Rightarrow> r < 32768 | Infty negative \<Rightarrow> negative | NaN \<Rightarrow> False)"

definition bytesCarryFloat :: "f64 \<Rightarrow> f64 \<times> string" where
  "bytesCarryFloat value =
     (if below_threshold value then (value, '' B'')
      else
        let value = f64_div1024 value in
        if below_threshold value then (value, '' KB'')
        else
          let value = f64_div1024 value in
          if below_threshold value then (value, '' MB'')
          else (f64_div1024 value, '' GB''))"

subsection \<open>The report\<close>

text \<open>Quotients are of finite floats with a positive second one; \<open>Seconds\<close> of a duration is the sum of its whole
  seconds and the rounded rest.\<close>

definition f64_div :: "f64 \<Rightarrow> rat \<Rightarrow> f64" where
  "f64_div x y = (case x of Fin a \<Rightarrow> rnd64 (a / y) | _ \<Rightarrow> x)"

definition float_of :: "u64 \<Rightarrow> f64" where
  "float_of n = rnd64 (of_int (uint n))"

definition duration_seconds :: "int \<Rightarrow> f64" where
  "duration_seconds d =
     (let whole = go_div d 1000000000; rest = d - whole * 1000000000 in
      case (rnd64 (of_int whole), rnd64 (of_int rest / 1000000000)) of
        (Fin a, Fin b) \<Rightarrow> rnd64 (a + b) | _ \<Rightarrow> NaN)"

definition elapsed :: "memory_metric \<Rightarrow> rat" where
  "elapsed m =
     (case (mm_prevAt m, mm_currAt m) of
        (Some p, Some c) \<Rightarrow> (case duration_seconds (c - p) of Fin dt \<Rightarrow> if dt \<le> 0 then 1 else dt | _ \<Rightarrow> 1)
      | _ \<Rightarrow> 1)"

definition utext :: "u64 \<Rightarrow> string" where
  "utext n = dec_nat (unat n)"

definition tab :: string where "tab = [CHR 0x09]"

definition carry_text :: "u64 \<Rightarrow> string" where
  "carry_text value = (let (b, unit) = bytesCarry value in utext b @ unit)"

text \<open>The line \<open>Print\<close> writes; \<open>unixTime\<close> is the Unix time of \<open>currAt\<close>.\<close>

definition heap_text :: "(nat \<Rightarrow> f64 \<Rightarrow> string) \<Rightarrow> memory_metric \<Rightarrow> string" where
  "heap_text fixed_text m =
     (let grown = ms_TotalAlloc (mm_curr m) - ms_TotalAlloc (mm_prev m);
          rate = f64_div (float_of grown) (elapsed m);
          (rb, runit) = bytesCarryFloat rate
      in ''[HEAP] '' @ ''alc_grow='' @ carry_text grown
         @ tab @ ''alc='' @ carry_text (ms_HeapAlloc (mm_curr m))
         @ tab @ ''inuse='' @ carry_text (ms_HeapInuse (mm_curr m))
         @ tab @ ''object='' @ utext (ms_HeapObjects (mm_curr m))
         @ tab @ ''alc_rate='' @ fixed_text 2 rb @ runit @ ''/s'')"

definition gc_text :: "(nat \<Rightarrow> f64 \<Rightarrow> string) \<Rightarrow> memory_metric \<Rightarrow> string" where
  "gc_text fixed_text m =
     (let curr = mm_curr m; prev = mm_prev m;
          gcTimes = ucast (ms_NumGC curr - ms_NumGC prev) :: u64;
          stwMs = f64_div (float_of (ms_PauseTotalNs curr - ms_PauseTotalNs prev)) 1000000;
          lastUnix = (if ms_LastGC curr \<noteq> 0 then ms_LastGC curr div 1000000000 else 0);
          live = wrap64 (wrap64 (uint (ms_Mallocs curr)) - wrap64 (uint (ms_Frees curr)))
      in tab @ ''[GC] '' @ ''times='' @ utext gcTimes
         @ tab @ ''stw='' @ fixed_text 4 stwMs @ ''ms''
         @ tab @ ''last_gc_unix='' @ utext lastUnix
         @ tab @ ''next_gc='' @ carry_text (ms_NextGC curr)
         @ tab @ ''gc_cpu='' @ fixed_text 6 (ms_GCCPUFraction curr)
         @ tab @ ''mallocs='' @ utext (ms_Mallocs curr - ms_Mallocs prev)
         @ tab @ ''frees='' @ utext (ms_Frees curr - ms_Frees prev)
         @ tab @ ''live='' @ appendInt [] live)"

definition metric_Print :: "(nat \<Rightarrow> f64 \<Rightarrow> string) \<Rightarrow> int \<Rightarrow> memory_metric \<Rightarrow> string" where
  "metric_Print fixed_text unixTime m =
     ''[TIME] '' @ appendInt [] unixTime @ ''  '' @ heap_text fixed_text m @ gc_text fixed_text m @ [CHR 0x0A]"

text \<open>One tick of the schedule.\<close>

definition RunReportSchedule_tick :: "(nat \<Rightarrow> f64 \<Rightarrow> string) \<Rightarrow> mem_stats \<Rightarrow> int \<Rightarrow> int \<Rightarrow> memory_metric \<Rightarrow> memory_metric \<times> string" where
  "RunReportSchedule_tick fixed_text stats timeNow unixTime m =
     (let m = Snapshot stats timeNow m in (m, metric_Print fixed_text unixTime m))"

lemma bytesCarry_bounds:
  assumes "bytesCarry value = (b, unit)"
  shows "\<exists>k. unit = (if k = 0 then '' B'' else if k = 1 then '' KB'' else if k = 2 then '' MB'' else '' GB'') \<and> k \<le> 3
    \<and> unat b = unat value div 1024 ^ k \<and> (k < 3 \<longrightarrow> unat b < carryThreshold) \<and> (0 < k \<longrightarrow> 32 \<le> unat b)"
proof -
  have d: "unat (drop_bit n value) = unat value div 2 ^ n" for n
  proof -
    have "take_bit 64 (unat value) = unat value" by (rule take_bit_nat_eq_self) (use unsigned_less [of "value"] in simp)
    then show ?thesis unfolding unsigned_drop_bit_eq by (simp add: drop_bit_eq_div)
  qed
  have e: "drop_bit 10 (drop_bit 10 value) = drop_bit 20 value" "drop_bit 10 (drop_bit 20 value) = drop_bit 30 value" by simp_all
  let ?v = "unat value"
  consider "?v < 2 ^ 15" | "2 ^ 15 \<le> ?v" "?v div 2 ^ 10 < 2 ^ 15" | "2 ^ 15 \<le> ?v div 2 ^ 10" "?v div 2 ^ 20 < 2 ^ 15"
    | "2 ^ 15 \<le> ?v div 2 ^ 20" by linarith
  then show ?thesis
  proof cases
    case 1
    then show ?thesis using assms by (intro exI [of _ 0]) (auto simp: bytesCarry_def)
  next
    case 2
    then show ?thesis using assms by (intro exI [of _ 1]) (auto simp: bytesCarry_def Let_def d)
  next
    case 3
    then have "2 ^ 15 \<le> ?v" using div_le_dividend le_trans by blast
    then show ?thesis using assms 3 by (intro exI [of _ 2]) (auto simp: bytesCarry_def Let_def d e)
  next
    case 4
    have m: "?v div 2 ^ 20 \<le> ?v div 2 ^ 10" by (rule div_le_mono2) simp_all
    then have "2 ^ 15 \<le> ?v div 2 ^ 10" "2 ^ 15 \<le> ?v" using 4 div_le_dividend le_trans by blast+
    then show ?thesis using assms 4 by (intro exI [of _ 3]) (auto simp: bytesCarry_def Let_def d e)
  qed
qed

end
