(* ===== verification/Pg_Conn.thy ===== *)
theory Pg_Conn
  imports Go_Prelude
    "HOL-Library.Multiset"
begin

section \<open>The PostgreSQL connection string\<close>

text \<open>
  \<open>libs/shared/conn/pg.go\<close>: the options, the connection string and the client. The escaping is that of
  \<open>net/url\<close> for the parts of the URL the code sets. \<open>gorm\<close> opens, hands out and closes the pool through
  \<open>pg_env\<close>. The map of parameters is a list of its entries, in the order the code visits them.
\<close>

definition defaultPostgresHost :: string where "defaultPostgresHost = ''localhost''"
definition defaultPostgresPort :: int where "defaultPostgresPort = 5432"
definition defaultPostgresSSLMode :: string where "defaultPostgresSSLMode = ''disable''"

record pg_option =
  po_Host :: string
  po_Port :: int
  po_User :: string
  po_Password :: string
  po_Database :: string
  po_SSLMode :: string
  po_Params :: "(string \<times> string) list"
  po_ConnString :: string

subsection \<open>Escaping\<close>

datatype escape_mode = EncodeHost | EncodePath | EncodeUserPassword | EncodeQueryComponent

definition alphanumeric :: "char \<Rightarrow> bool" where
  [go_eval]: "alphanumeric c \<longleftrightarrow> is_digit c \<or> 65 \<le> code c \<and> code c \<le> 90 \<or> 97 \<le> code c \<and> code c \<le> 122"

definition shouldEscape :: "escape_mode \<Rightarrow> char \<Rightarrow> bool" where
  "shouldEscape mode c =
     (if alphanumeric c then False
      else if mode = EncodeHost \<and> (c \<in> set ''!$&()*+,;=:[]<>'' \<or> code c = 39 \<or> code c = 34) then False
      else if c \<in> set ''-_.~'' then False
      else if c \<in> set ''$&+,/:;=?@'' then
        (case mode of
           EncodePath \<Rightarrow> c = CHR ''?''
         | EncodeUserPassword \<Rightarrow> c \<in> set ''@/?:''
         | _ \<Rightarrow> True)
      else True)"

definition upper_hex :: "nat \<Rightarrow> char" where
  [go_eval]: "upper_hex d = (if d < 10 then char_of (48 + d) else char_of (55 + d))"

definition escape_char :: "escape_mode \<Rightarrow> char \<Rightarrow> string" where
  "escape_char mode c =
     (if \<not> shouldEscape mode c then [c]
      else if c = CHR '' '' \<and> mode = EncodeQueryComponent then ''+''
      else [CHR ''%'', upper_hex (code c div 16), upper_hex (code c mod 16)])"

definition url_escape :: "escape_mode \<Rightarrow> string \<Rightarrow> string" where
  "url_escape mode s = concat (map (escape_char mode) s)"

subsection \<open>The connection string\<close>

text \<open>\<open>url.Values\<close> as it is used: every key has one value.\<close>

fun values_Set :: "string \<Rightarrow> string \<Rightarrow> (string \<times> string) list \<Rightarrow> (string \<times> string) list" where
  "values_Set k v [] = [(k, v)]"
| "values_Set k v ((k', v') # r) = (if k' = k then (k, v) # r else (k', v') # values_Set k v r)"

fun join_and :: "string list \<Rightarrow> string" where
  "join_and [] = []"
| "join_and [x] = x"
| "join_and (x # y # r) = x @ ''&'' @ join_and (y # r)"

definition values_Encode :: "(string \<times> string) list \<Rightarrow> string" where
  "values_Encode q =
     join_and (map (\<lambda>k. url_escape EncodeQueryComponent k @ ''='' @ url_escape EncodeQueryComponent (the (map_of q k)))
       (sort (map fst q)))"

definition dsn_step :: "(string \<times> string) list \<Rightarrow> string \<times> string \<Rightarrow> (string \<times> string) list" where
  "dsn_step query kv = (if fst kv = [] then query else values_Set (fst kv) (snd kv) query)"

definition dsn_query :: "string \<Rightarrow> (string \<times> string) list \<Rightarrow> (string \<times> string) list" where
  "dsn_query sslMode params =
     foldl dsn_step (values_Set ''sslmode'' sslMode []) params"

definition dsn :: "pg_option \<Rightarrow> string" where
  "dsn opt =
     (if po_ConnString opt \<noteq> [] then po_ConnString opt
      else
        let host = (if po_Host opt = [] then defaultPostgresHost else po_Host opt);
            port = (if po_Port opt = 0 then defaultPostgresPort else po_Port opt);
            sslMode = (if po_SSLMode opt = [] then defaultPostgresSSLMode else po_SSLMode opt);
            hostPort = host @ '':'' @ appendInt [] port;
            user = (if po_User opt = [] then []
                    else url_escape EncodeUserPassword (po_User opt)
                      @ (if po_Password opt \<noteq> [] then '':'' @ url_escape EncodeUserPassword (po_Password opt) else []) @ ''@'');
            path = (if po_Database opt = [] then [] else url_escape EncodePath (''/'' @ po_Database opt));
            query = dsn_query sslMode (po_Params opt)
        in ''postgres://'' @ user @ url_escape EncodeHost hostPort @ path
           @ (if query \<noteq> [] then ''?'' @ values_Encode query else []))"

subsection \<open>The client\<close>

record pg_env =
  pe_open :: "string \<Rightarrow> nat option"
  pe_db :: "nat \<Rightarrow> bool"
  pe_close :: "nat \<Rightarrow> bool"

record pg_client =
  pc_opt :: pg_option
  pc_db :: "nat option"

definition pg_New :: "pg_env \<Rightarrow> pg_option \<Rightarrow> pg_client option" where
  "pg_New env opt =
     (case pe_open env (dsn opt) of None \<Rightarrow> None | Some db \<Rightarrow> Some \<lparr>pc_opt = opt, pc_db = Some db\<rparr>)"

definition pg_DB :: "pg_client option \<Rightarrow> nat option" where
  "pg_DB c = (case c of None \<Rightarrow> None | Some c \<Rightarrow> pc_db c)"

text \<open>Whether \<open>Close\<close> returns nil.\<close>

definition pg_Close :: "pg_env \<Rightarrow> pg_client option \<Rightarrow> bool" where
  "pg_Close env c =
     (case c of
        None \<Rightarrow> True
      | Some c \<Rightarrow> (case pc_db c of None \<Rightarrow> True | Some db \<Rightarrow> pe_db env db \<and> pe_close env db))"

subsection \<open>The order of the parameters does not matter\<close>

lemma map_of_Set: "map_of (values_Set k v q) = (map_of q)(k \<mapsto> v)"
  by (induction k v q rule: values_Set.induct) (auto simp: fun_eq_iff)

lemma keys_Set: "set (map fst (values_Set k v q)) = insert k (set (map fst q))"
  by (induction k v q rule: values_Set.induct) auto

lemma distinct_Set: "distinct (map fst q) \<Longrightarrow> distinct (map fst (values_Set k v q))"
  by (induction k v q rule: values_Set.induct) (auto simp: keys_Set [simplified])

lemma query_fold:
  "distinct (map fst q) \<Longrightarrow> distinct (map fst (foldl dsn_step q ps))
     \<and> map_of (foldl dsn_step q ps)
       = map_of q ++ map_of (rev (filter (\<lambda>p. fst p \<noteq> []) ps))"
proof (induction ps arbitrary: q)
  case (Cons p ps)
  obtain k v where p: "p = (k, v)" by fastforce
  show ?case
  proof (cases "k = []")
    case True
    then show ?thesis using Cons p by (simp add: dsn_step_def)
  next
    case False
    then show ?thesis
      using Cons.IH [of "values_Set k v q"] Cons.prems p
      by (simp add: dsn_step_def False distinct_Set map_of_Set del: fun_upd_apply)
  qed
qed simp

lemma values_Encode_cong:
  assumes "distinct (map fst q)" "distinct (map fst r)" "map_of q = map_of r"
  shows "values_Encode q = values_Encode r"
proof -
  have "set (map fst q) = set (map fst r)" using assms(3) by (simp add: dom_map_of_conv_image_fst [symmetric])
  then have "mset (map fst q) = mset (map fst r)" using assms(1,2) set_eq_iff_mset_eq_distinct by blast
  then have "sort (map fst q) = sort (map fst r)" by (metis mset_sort properties_for_sort sorted_sort)
  then show ?thesis by (simp add: values_Encode_def assms(3))
qed

lemma values_Set_nonempty: "values_Set k v q \<noteq> []"
  by (induction k v q rule: values_Set.induct) auto

lemma query_nonempty: "dsn_query sslMode ps \<noteq> []"
proof -
  have "q \<noteq> [] \<Longrightarrow> foldl dsn_step q ps \<noteq> []" for q
    by (induction ps arbitrary: q) (auto simp: dsn_step_def values_Set_nonempty)
  then show ?thesis by (simp add: dsn_query_def)
qed

lemma dsn_order:
  assumes "distinct (map fst ps)" "mset ps = mset ps'"
  shows "dsn (opt\<lparr>po_Params := ps\<rparr>) = dsn (opt\<lparr>po_Params := ps'\<rparr>)"
proof -
  have d: "distinct (map fst ps')" using assms by (metis mset_eq_imp_distinct_iff mset_map)
  have sp: "set ps = set ps'" using assms(2) by (rule mset_eq_setD)
  have "map_of (rev (filter (\<lambda>p. fst p \<noteq> []) ps)) = map_of (rev (filter (\<lambda>p. fst p \<noteq> []) ps'))"
  proof (rule map_of_eqI)
    have f: "distinct (map fst (rev (filter P ps)))" "distinct (map fst (rev (filter P ps')))" for P
      using assms(1) d by (simp_all only: rev_map [symmetric] distinct_rev distinct_map_filter)
    show "set (map fst (rev (filter (\<lambda>p. fst p \<noteq> []) ps))) = set (map fst (rev (filter (\<lambda>p. fst p \<noteq> []) ps')))"
      by (simp only: set_map set_rev set_filter sp)
    show "\<forall>k \<in> set (map fst (rev (filter (\<lambda>p. fst p \<noteq> []) ps))).
        map_of (rev (filter (\<lambda>p. fst p \<noteq> []) ps)) k = map_of (rev (filter (\<lambda>p. fst p \<noteq> []) ps')) k"
    proof
      fix k assume "k \<in> set (map fst (rev (filter (\<lambda>p. fst p \<noteq> []) ps)))"
      then obtain v where "(k, v) \<in> set (rev (filter (\<lambda>p. fst p \<noteq> []) ps))" by auto
      moreover from this have "(k, v) \<in> set (rev (filter (\<lambda>p. fst p \<noteq> []) ps'))" using sp by simp
      ultimately show "map_of (rev (filter (\<lambda>p. fst p \<noteq> []) ps)) k = map_of (rev (filter (\<lambda>p. fst p \<noteq> []) ps')) k"
        using f by (metis map_of_is_SomeI)
    qed
  qed
  then have "values_Encode (dsn_query s ps) = values_Encode (dsn_query s ps')" for s
    unfolding dsn_query_def by (intro values_Encode_cong) (simp_all add: query_fold)
  then show ?thesis by (simp add: dsn_def query_nonempty)
qed

end
