(* ===== verification/Ws_Example.thy ===== *)
theory Ws_Example
  imports Binance_Laws Ws_Consumer Ws_Router
begin

section \<open>The example client\<close>

text \<open>
  The decoder, the encoder and the consumer of \<open>libs/shared/websocket/example/websocket/main.go\<close>, which repeat part
  of the Binance codec over a fixed list of topics. Its wiring, profiling and statistics are outside. The lemmas show
  which functions are copies, that only listed topics are decoded, and that every frame of a listed topic is counted.
\<close>

record topicSpec =
  ex_ID :: TopicID
  ex_SymbolUpper :: string
  ex_StreamName :: string

definition maxTopicID :: "topicSpec list \<Rightarrow> int" where
  "maxTopicID topics = foldl (\<lambda>m t. let i = int (unat (ex_ID t)) in if m < i then i else m) 0 topics"

subsection \<open>Scanning and hashing\<close>

definition example_hashBytes :: "string \<Rightarrow> u64" where
  "example_hashBytes data = foldl (\<lambda>hash c. (hash XOR of_nat (code c)) * 1099511628211) 14695981039346656037 data"

definition example_isSpace :: "char \<Rightarrow> bool" where
  "example_isSpace b \<longleftrightarrow> b = CHR '' '' \<or> b = CHR 0x09 \<or> b = CHR 0x0A \<or> b = CHR 0x0D"

definition example_indexOf :: "string \<Rightarrow> string \<Rightarrow> int" where
  "example_indexOf payload key =
     (if length key = 0 \<or> length payload < length key then - 1 else index_loop payload key 0)"

definition example_scanStringField :: "string \<Rightarrow> string \<Rightarrow> string option" where
  "example_scanStringField payload key =
     (let idx = example_indexOf payload key in
      if idx < 0 then None
      else
        let i = skip_while (\<lambda>c. c \<noteq> CHR '':'') payload (nat idx + length key) in
        if length payload \<le> i then None
        else
          let i = skip_while example_isSpace payload (Suc i) in
          if length payload \<le> i \<or> payload ! i \<noteq> CHR 0x22 then None else quoted_at payload i)"

definition example_appendUint :: "string \<Rightarrow> u64 \<Rightarrow> string" where
  "example_appendUint dst v = (if v = 0 then dst @ ''0'' else dst @ appendUint_loop v [])"

lemma example_copies:
  "example_hashBytes = binance_hashBytes" "example_indexOf = IndexOf" "example_scanStringField = ScanStringField"
  "example_appendUint = binance_appendUint"
proof -
  have s: "example_isSpace = is_space" by (simp add: fun_eq_iff example_isSpace_def is_space_def)
  show i: "example_indexOf = IndexOf" by (simp add: fun_eq_iff example_indexOf_def IndexOf_def)
  show "example_hashBytes = binance_hashBytes" "example_appendUint = binance_appendUint"
    by (simp_all add: fun_eq_iff example_hashBytes_def binance_hashBytes_def example_appendUint_def binance_appendUint_def)
  show "example_scanStringField = ScanStringField"
    by (simp add: fun_eq_iff example_scanStringField_def ScanStringField_def after_colon_def i s Let_def)
qed

subsection \<open>The decoder and the encoder\<close>

record binanceTopicDecoder =
  td_streamLookup :: "u64 \<rightharpoonup> TopicID"
  td_symbolLookup :: "u64 \<rightharpoonup> TopicID"

definition newBinanceTopicDecoder :: "topicSpec list \<Rightarrow> binanceTopicDecoder" where
  "newBinanceTopicDecoder topics =
     foldl (\<lambda>d t. d\<lparr>td_streamLookup := (td_streamLookup d)(example_hashBytes (ex_StreamName t) \<mapsto> ex_ID t),
         td_symbolLookup := (td_symbolLookup d)(example_hashBytes (ex_SymbolUpper t) \<mapsto> ex_ID t)\<rparr>)
       \<lparr>td_streamLookup = Map.empty, td_symbolLookup = Map.empty\<rparr> topics"

definition example_DecodeTopic :: "binanceTopicDecoder \<Rightarrow> string \<Rightarrow> TopicID option" where
  "example_DecodeTopic p payload =
     (case Option.bind (example_scanStringField payload (quoted_name ''stream''))
         (\<lambda>stream. td_streamLookup p (example_hashBytes stream)) of
        Some id' \<Rightarrow> Some id'
      | None \<Rightarrow> Option.bind (example_scanStringField payload (quoted_name ''s''))
          (\<lambda>symbol. td_symbolLookup p (example_hashBytes symbol)))"

definition newBinanceControlEncoder :: "topicSpec list \<Rightarrow> TopicID \<rightharpoonup> string" where
  "newBinanceControlEncoder topics = foldl (\<lambda>m t. m(ex_ID t \<mapsto> ex_StreamName t)) Map.empty topics"

definition example_control :: "string \<Rightarrow> string \<Rightarrow> TopicID \<Rightarrow> string \<Rightarrow> string" where
  "example_control method dst topic stream =
     (let dst = dst @ ''{'' @ quoted_name ''method'' @ '':'' @ quoted_name method @ '',''
                  @ quoted_name ''params'' @ '':['' @ [CHR 0x22];
          dst = dst @ stream;
          dst = dst @ [CHR 0x22] @ ''],'' @ quoted_name ''id'' @ '':'';
          dst = example_appendUint dst (ucast topic)
      in dst @ ''}'')"

definition example_EncodeSubscribe :: "(TopicID \<rightharpoonup> string) \<Rightarrow> string \<Rightarrow> TopicID \<Rightarrow> (MessageType \<times> string) option" where
  "example_EncodeSubscribe streamByID dst topic =
     (case streamByID topic of None \<Rightarrow> None
      | Some stream \<Rightarrow> Some (MessageText, example_control ''SUBSCRIBE'' dst topic stream))"

definition example_EncodeUnsubscribe :: "(TopicID \<rightharpoonup> string) \<Rightarrow> string \<Rightarrow> TopicID \<Rightarrow> (MessageType \<times> string) option" where
  "example_EncodeUnsubscribe streamByID dst topic =
     (case streamByID topic of None \<Rightarrow> None
      | Some stream \<Rightarrow> Some (MessageText, example_control ''UNSUBSCRIBE'' dst topic stream))"

subsection \<open>The consumer\<close>

text \<open>One round of \<open>consumeFrames\<close>: the counters, the bytes for the socket, whose errors are only logged, and
  whether the goroutine goes on; nothing while the queue is empty.\<close>

definition consumeFrames_round ::
  "frame_store \<Rightarrow> Consumer option \<Rightarrow> u64 list \<Rightarrow> bool
     \<Rightarrow> (frame_store \<times> Consumer option \<times> u64 list \<times> byte list \<times> bool) option go" where
  "consumeFrames_round st consumer counts ctxDone =
     (case Consumer_Next consumer of
        (consumer, PopWait) \<Rightarrow> Ret None
      | (consumer, PopClosed) \<Rightarrow> Ret (Some (st, consumer, counts, [], False))
      | (consumer, Popped None) \<Rightarrow> Panic
      | (consumer, Popped (Some f)) \<Rightarrow>
          (let t = unat (Frame_Topic (fs_frames st f));
               counts = (if t < length counts then counts[t := counts ! t + 1] else counts);
               b = (case Frame_Buf (fs_frames st f) of None \<Rightarrow> [] | Some buf \<Rightarrow> visible buf)
           in Ret (Some (Frame_Release st f, consumer, counts, b, \<not> ctxDone))))"

subsection \<open>Only listed topics\<close>

lemma decoder_lookups:
  "td_streamLookup (newBinanceTopicDecoder topics) h = Some i \<Longrightarrow>
     \<exists>t \<in> set topics. ex_ID t = i \<and> example_hashBytes (ex_StreamName t) = h"
  "td_symbolLookup (newBinanceTopicDecoder topics) h = Some i \<Longrightarrow>
     \<exists>t \<in> set topics. ex_ID t = i \<and> example_hashBytes (ex_SymbolUpper t) = h"
  unfolding newBinanceTopicDecoder_def
  by (induction topics arbitrary: i rule: rev_induct) (auto split: if_splits)

lemma example_DecodeTopic_listed:
  "example_DecodeTopic (newBinanceTopicDecoder topics) payload = Some i \<Longrightarrow> i \<in> ex_ID ` set topics"
  using decoder_lookups by (fastforce simp: example_DecodeTopic_def bind_eq_Some_conv split: option.splits)

lemma maxTopicID_ge: "t \<in> set topics \<Longrightarrow> int (unat (ex_ID t)) \<le> maxTopicID topics" "0 \<le> maxTopicID topics"
  unfolding maxTopicID_def by (induction topics arbitrary: t rule: rev_induct) (fastforce simp: Let_def)+

text \<open>A frame whose topic the decoder gave is counted: the counters reach up to the largest listed topic.\<close>

lemma consumeFrames_counted:
  assumes "example_DecodeTopic (newBinanceTopicDecoder topics) payload = Some (Frame_Topic (fs_frames st f))"
    and "length counts = nat (maxTopicID topics + 1)" "Consumer_Next consumer = (consumer', Popped (Some f))"
  shows "consumeFrames_round st consumer counts ctxDone
    = Ret (Some (Frame_Release st f, consumer',
        counts[unat (Frame_Topic (fs_frames st f)) := counts ! unat (Frame_Topic (fs_frames st f)) + 1],
        (case Frame_Buf (fs_frames st f) of None \<Rightarrow> [] | Some buf \<Rightarrow> visible buf), \<not> ctxDone))"
proof -
  obtain t where "t \<in> set topics" "ex_ID t = Frame_Topic (fs_frames st f)"
    using example_DecodeTopic_listed [OF assms(1)] by force
  then have "unat (Frame_Topic (fs_frames st f)) < length counts" using maxTopicID_ge(1) [of t topics] assms(2)
    by (simp add: nat_less_iff zless_nat_eq_int_zless)
  then show ?thesis by (simp add: consumeFrames_round_def assms(3) Let_def)
qed

text \<open>On the streams it lists the encoder writes what the Binance codec writes.\<close>

lemma example_encoder_listed:
  assumes "distinct (map ex_ID topics)" "t \<in> set topics" "nc_streamByID c (ex_ID t) = Some (ex_StreamName t)"
    and "\<not> binance_isAuthTopic c (ex_ID t)"
  shows "map_option Inr (example_EncodeSubscribe (newBinanceControlEncoder topics) dst (ex_ID t))
    = (case binance_EncodeSubscribe (Some c) dst (ex_ID t) of Ret r \<Rightarrow> Some r | Panic \<Rightarrow> None)"
proof -
  have "newBinanceControlEncoder topics (ex_ID t) = Some (ex_StreamName t)"
    using assms(1,2) unfolding newBinanceControlEncoder_def
    by (induction topics rule: rev_induct) (auto simp: image_iff)
  then show ?thesis using assms(3,4)
    by (simp add: example_EncodeSubscribe_def binance_EncodeSubscribe_def example_control_def binance_control_def
        example_copies(4))
qed

end
