(* ===== verification/Example_Programs.thy ===== *)
theory Example_Programs
  imports Ws_Example Ws_Manager_Reach Ws_Dialer Uds
begin

section \<open>The main functions of the examples\<close>

text \<open>
  The two programs under \<open>libs/shared/websocket/example\<close>. The client's \<open>main\<close> wires the library for its list of topics;
  the lemmas show that the wiring never fails and that every frame of a listed topic is routed to the one consumer
  and counted. The socket server takes over its path, accepts connections and prints what they send.
\<close>

subsection \<open>The client: start\<close>

text \<open>How the start ends: a panic, \<open>log.Fatalf\<close>, a wait for room in a queue, or the state \<open>main\<close> runs with.\<close>

datatype 'a started = StartPanic | StartFatal | StartWait | Started 'a

record example_state =
  xs_dialer :: dialer
  xs_decoder :: binanceTopicDecoder
  xs_manager :: "unit manager"
  xs_consumer :: Consumer
  xs_counts :: "u64 list"

definition example_topics :: "topicSpec list" where
  "example_topics = [\<lparr>ex_ID = 1, ex_SymbolUpper = ''BTCUSDT'', ex_StreamName = ''btcusdt@depth@100ms''\<rparr>]"

definition example_encode :: "(MessageType \<times> string) option \<Rightarrow> unit encode" where
  "example_encode r = (\<lambda>_. case r of None \<Rightarrow> Inl () | Some (ty, s) \<Rightarrow> Inr (ty, bytes_of s))"

definition example_encoder :: "topicSpec list \<Rightarrow> unit encoder" where
  "example_encoder topics =
     (let streamByID = newBinanceControlEncoder topics in
      \<lparr>en_subscribe = (\<lambda>t. example_encode (example_EncodeSubscribe streamByID [] t)),
       en_unsubscribe = (\<lambda>t. example_encode (example_EncodeUnsubscribe streamByID [] t))\<rparr>)"

text \<open>The loop that subscribes the topics; the one consumer has the index 0.\<close>

fun example_register ::
  "topicSpec list \<Rightarrow> unit manager option \<Rightarrow> (nat \<Rightarrow> nat option) \<Rightarrow> bool \<Rightarrow> unit manager option started go" where
  "example_register [] m choice reuse = Ret (Started m)"
| "example_register (t # ts) m choice reuse =
     go_bind (manager_Subscribe m (ex_ID t) choice reuse) (\<lambda>(m, r).
       case r of
         SendErr e \<Rightarrow> Ret StartFatal
       | SendWait \<Rightarrow> Ret StartWait
       | Sent \<Rightarrow>
           (case manager_AddConsumer m (ex_ID t) (Some 0) of
              (m, Some e) \<Rightarrow> Ret StartFatal
            | (m, None) \<Rightarrow> example_register ts m choice reuse))"

definition example_start ::
  "bool \<Rightarrow> topicSpec list \<Rightarrow> (nat \<Rightarrow> nat option) \<Rightarrow> bool \<Rightarrow> example_state started go" where
  "example_start dialed topics choice reuse =
     (if \<not> dialed then Ret StartPanic
      else case manager_New True True (Some (example_encoder topics)) [zero_option] of
        Inl e \<Rightarrow> Ret StartFatal
      | Inr m \<Rightarrow>
          go_bind (example_register topics (Some m) choice reuse) (\<lambda>r.
            Ret (case r of
                StartPanic \<Rightarrow> StartPanic | StartFatal \<Rightarrow> StartFatal | StartWait \<Rightarrow> StartWait
              | Started m \<Rightarrow> Started \<lparr>xs_dialer = NewDialer ''stream.binance.com'' ''9443'' ''/ws'',
                  xs_decoder = newBinanceTopicDecoder topics, xs_manager = the m,
                  xs_consumer = NewConsumer 4096 OverflowDropOldest,
                  xs_counts = replicate (nat (maxTopicID topics + 1)) 0\<rparr>)))"

text \<open>\<open>Run\<close>, whose error is only logged, until the context is done, and the consumer closed at the end.\<close>

definition example_finish ::
  "frame_store \<Rightarrow> example_state \<Rightarrow> unit manager option \<times> frame_store \<times> Consumer option" where
  "example_finish st s =
     (let (m, e) = manager_RunStart (Some (xs_manager s));
          m = (if e = None then map_option manager_RunStop m else m)
      in (m, Consumer_Close st (Some (xs_consumer s))))"

subsection \<open>The start never fails\<close>

text \<open>A manager before \<open>Run\<close>: no context and no connected session.\<close>

definition idle :: "'e manager \<Rightarrow> bool" where
  "idle m \<longleftrightarrow> mg_encoder m \<noteq> None \<and> mg_ctx m = None \<and> (\<forall>i. \<not> ss_connected (mg_store m i))"

lemma idle_New: "manager_New True True (Some enc) opts = Inr m \<Longrightarrow> idle m \<and> mg_subscriptions m = Map.empty
    \<and> rt_topics (mg_router m) = Map.empty"
  by (auto simp: manager_New_def idle_def newSession_def newRouter_def Let_def)

lemma idle_Subscribe:
  assumes "idle m" "mg_subscriptions m t = None"
  obtains m' i where "manager_Subscribe (Some m) t choice reuse = Ret (Some m', Sent)" "idle m'"
    "mg_subscriptions m' = (mg_subscriptions m)(t \<mapsto> i)" "mg_router m' = mg_router m"
proof -
  obtain m1 i where pick: "pickSessionLocked m = (m1, i)" by (cases "pickSessionLocked m")
  then have "idle m1 \<and> mg_subscriptions m1 = mg_subscriptions m \<and> mg_router m1 = mg_router m" using assms(1)
    by (auto simp: pickSessionLocked_def idle_def newSession_def Let_def split: option.splits if_splits)
  then show thesis using assms pick that
    by (auto simp: manager_Subscribe_def idle_def mg_upd_def mg_apply_def session_subscribe_def Let_def)
qed

lemma example_register_ok:
  assumes "idle m" "distinct (map ex_ID topics)" "\<forall>t \<in> ex_ID ` set topics. mg_subscriptions m t = None \<and> rt_list (mg_router m) t = []"
  shows "\<exists>m'. example_register topics (Some m) choice reuse = Ret (Started (Some m')) \<and> idle m'
    \<and> dom (mg_subscriptions m') = dom (mg_subscriptions m) \<union> ex_ID ` set topics
    \<and> (\<forall>t. rt_list (mg_router m') t = (if t \<in> ex_ID ` set topics then [0] else rt_list (mg_router m) t))"
  using assms
proof (induction topics arbitrary: m)
  case (Cons t ts)
  obtain m1 i where s: "manager_Subscribe (Some m) (ex_ID t) choice reuse = Ret (Some m1, Sent)" "idle m1"
    "mg_subscriptions m1 = (mg_subscriptions m)(ex_ID t \<mapsto> i)" "mg_router m1 = mg_router m"
    using idle_Subscribe [OF Cons.prems(1), of "ex_ID t" choice reuse] Cons.prems(3) by auto
  let ?rt = "the (router_AddConsumer (Some (mg_router m1)) (ex_ID t) (Some 0))"
  have rt: "rt_list ?rt u = (if u = ex_ID t then [0] else rt_list (mg_router m) u)" for u
    using Cons.prems(3) s(4) by (auto simp: router_AddConsumer_def rt_list_def Let_def)
  have ne: "u \<noteq> ex_ID t" if "u \<in> ex_ID ` set ts" for u using Cons.prems(2) that by (metis distinct.simps(2) list.simps(9) set_map)
  have fresh: "mg_subscriptions (m1\<lparr>mg_router := ?rt\<rparr>) u = None \<and> rt_list (mg_router (m1\<lparr>mg_router := ?rt\<rparr>)) u = []"
    if u: "u \<in> ex_ID ` set ts" for u
    using bspec [OF Cons.prems(3), of u] s(3) ne [OF u] u rt [of u] by simp
  have "\<exists>m'. example_register ts (Some (m1\<lparr>mg_router := ?rt\<rparr>)) choice reuse = Ret (Started (Some m')) \<and> idle m'
    \<and> dom (mg_subscriptions m') = dom (mg_subscriptions (m1\<lparr>mg_router := ?rt\<rparr>)) \<union> ex_ID ` set ts
    \<and> (\<forall>u. rt_list (mg_router m') u
        = (if u \<in> ex_ID ` set ts then [0] else rt_list (mg_router (m1\<lparr>mg_router := ?rt\<rparr>)) u))"
    by (rule Cons.IH) (use s(2) Cons.prems(2) fresh in \<open>simp_all add: idle_def\<close>)
  then show ?case using s(1,3) by (auto simp: manager_AddConsumer_def rt)
qed simp

lemma example_started:
  assumes "distinct (map ex_ID topics)"
  obtains s where "example_start True topics choice reuse = Ret (Started s)" "idle (xs_manager s)"
    "dom (mg_subscriptions (xs_manager s)) = ex_ID ` set topics"
    "\<And>t. rt_list (mg_router (xs_manager s)) t = (if t \<in> ex_ID ` set topics then [0] else [])"
    "xs_decoder s = newBinanceTopicDecoder topics" "length (xs_counts s) = nat (maxTopicID topics + 1)"
proof -
  obtain m where m: "manager_New True True (Some (example_encoder topics)) [zero_option] = Inr m"
    by (simp add: manager_New_def Let_def)
  note new = idle_New [OF m]
  have "\<forall>t \<in> ex_ID ` set topics. mg_subscriptions m t = None \<and> rt_list (mg_router m) t = []"
    using new by (simp add: rt_list_def)
  from example_register_ok [OF _ assms this, of choice reuse] new obtain m' where
    "example_register topics (Some m) choice reuse = Ret (Started (Some m'))" "idle m'"
    "dom (mg_subscriptions m') = ex_ID ` set topics"
    "\<forall>t. rt_list (mg_router m') t = (if t \<in> ex_ID ` set topics then [0] else [])" by (auto simp: rt_list_def)
  then show thesis using that by (simp add: example_start_def m)
qed

text \<open>So a message that the decoder knows is routed to the consumer, which counts it.\<close>

lemma example_message_counted:
  assumes "distinct (map ex_ID topics)" "example_start True topics choice reuse = Ret (Started s)"
    and "example_DecodeTopic (xs_decoder s) payload = Some (Frame_Topic (fs_frames st f))"
    and "Consumer_Next consumer = (consumer', Popped (Some f))"
  shows "rt_list (mg_router (xs_manager s)) (Frame_Topic (fs_frames st f)) = [0]"
    and "\<exists>b. consumeFrames_round st consumer (xs_counts s) ctxDone = Ret (Some (Frame_Release st f, consumer',
      (xs_counts s)[unat (Frame_Topic (fs_frames st f)) := xs_counts s ! unat (Frame_Topic (fs_frames st f)) + 1], b, \<not> ctxDone))"
proof -
  have s: "xs_decoder s = newBinanceTopicDecoder topics" "length (xs_counts s) = nat (maxTopicID topics + 1)"
    "rt_list (mg_router (xs_manager s)) t = (if t \<in> ex_ID ` set topics then [0] else [])" for t
    using example_started [OF assms(1), of choice reuse] assms(2) by force+
  show "rt_list (mg_router (xs_manager s)) (Frame_Topic (fs_frames st f)) = [0]"
    using example_DecodeTopic_listed assms(3) s by metis
  show "\<exists>b. consumeFrames_round st consumer (xs_counts s) ctxDone = Ret (Some (Frame_Release st f, consumer',
      (xs_counts s)[unat (Frame_Topic (fs_frames st f)) := xs_counts s ! unat (Frame_Topic (fs_frames st f)) + 1], b, \<not> ctxDone))"
    using consumeFrames_counted [OF assms(3) [unfolded s(1)] s(2) assms(4)] by blast
qed

subsection \<open>The socket server\<close>

definition example_sockPath :: string where
  "example_sockPath = ''/tmp/unix.sock''"

text \<open>What a read gives: bytes in the buffer of 1024, an error, or the end of the stream.\<close>

datatype example_read = ReadBytes string | ReadFails | ReadEnds

text \<open>The goroutine of a connection: the texts printed, and how often the connection was closed when it ended. The
  whole buffer is printed, whatever was read.\<close>

fun example_serve :: "example_read list \<Rightarrow> string list \<times> nat option" where
  "example_serve [] = ([], None)"
| "example_serve (ReadFails # rs) = ([], Some 2)"
| "example_serve (ReadEnds # rs) = ([], Some 1)"
| "example_serve (ReadBytes d # rs) =
     (let buf = copy_into (replicate 1024 NUL) d; (out, closes) = example_serve rs in (buf # out, closes))"

text \<open>\<open>main\<close>: the path is removed, whatever is there, and listened on; \<open>accepts\<close> are the results of \<open>Accept\<close>. A failed
  one has no connection whose address could be printed, so the program panics before it looks at the error; the
  deferred \<open>Close\<close> then unlinks the socket.\<close>

datatype example_end = ListenFatal | Accepting "nat list" | AcceptPanic "nat list"

definition example_server :: "uds_env \<Rightarrow> files \<Rightarrow> nat option list \<Rightarrow> files \<times> example_end" where
  "example_server env fs accepts =
     (let fs = (if ue_remove env example_sockPath then fs(example_sockPath := None) else fs) in
      if \<not> ue_listen env example_sockPath then (fs, ListenFatal)
      else
        let fs = fs(example_sockPath \<mapsto> SocketFile);
            conns = map the (takeWhile (\<lambda>c. c \<noteq> None) accepts)
        in if None \<in> set accepts then (fs(example_sockPath := None), AcceptPanic conns) else (fs, Accepting conns))"

lemma example_serve_texts: "x \<in> set (fst (example_serve rs)) \<Longrightarrow> length x = 1024"
  by (induction rs rule: example_serve.induct) (auto simp: Let_def split: prod.splits)

lemma example_serve_closes:
  "(\<exists>n. snd (example_serve rs) = Some n \<and> 0 < n) \<longleftrightarrow> ReadFails \<in> set rs \<or> ReadEnds \<in> set rs"
  by (induction rs rule: example_serve.induct) (auto simp: Let_def split: prod.splits)

lemma example_server_files:
  "example_server env fs accepts = (fs', e) \<Longrightarrow> p \<noteq> example_sockPath \<Longrightarrow> fs' p = fs p"
  by (auto simp: example_server_def Let_def split: if_splits)

text \<open>Unlike \<open>Server_Listen\<close>, it removes a file that is not a socket.\<close>

lemma example_server_replaces_file:
  assumes "ue_lstat env example_sockPath" "ue_remove env example_sockPath" "ue_listen env example_sockPath"
  shows "fst (example_server env (fs(example_sockPath \<mapsto> OtherFile)) []) example_sockPath = Some SocketFile"
    and "RemoveIfExists env (fs(example_sockPath \<mapsto> OtherFile)) example_sockPath
      = (fs(example_sockPath \<mapsto> OtherFile), Some ErrPathNotSocket)"
  using assms by (simp_all add: example_server_def RemoveIfExists_def example_sockPath_def)

end
