(* ===== verification/Ingest_FanOut.thy ===== *)
theory Ingest_FanOut
  imports Ingest_Laws
begin

section \<open>The fan-out mode of a group\<close>

text \<open>
  A group's manager is made with the shared fan-out mode, and nothing the manager or the use case does changes it,
  so the frames of every reachable use case are shared between their consumers by reference.
\<close>

abbreviation mg_fanOut :: "'e manager \<Rightarrow> FanOutMode" where
  "mg_fanOut m \<equiv> rt_fanOut (mg_router m)"

lemma router_fanOut [simp]:
  "rt_fanOut (the (router_AddConsumer (Some r) t c)) = rt_fanOut r"
  "rt_fanOut (the (router_RemoveConsumer (Some r) t c)) = rt_fanOut r"
  "rt_fanOut (the (router_RemoveTopic (Some r) t)) = rt_fanOut r"
  by (simp_all add: router_AddConsumer_def router_RemoveConsumer_def router_RemoveTopic_def Let_def split: option.split)

lemma router_fold [simp]: "mg_router (foldl (\<lambda>m i. mg_upd i f m) m is) = mg_router m"
  by (induction "is" arbitrary: m) simp_all

lemma router_sessions [simp]:
  "mg_router (fst (pickSessionLocked m)) = mg_router m" "mg_router (removeSessionLocked m i) = mg_router m"
  by (simp_all add: pickSessionLocked_def removeSessionLocked_def Let_def split: option.split)

lemma mg_apply_router: "mg_apply i r m = Ret (m', res) \<Longrightarrow> mg_router m' = mg_router m"
  by (auto simp: mg_apply_def go_bind_Ret_iff)

lemma Subscribe_fanOut: "manager_Subscribe (Some m) t choice reuse = Ret (Some m', r) \<Longrightarrow> mg_fanOut m' = mg_fanOut m"
  using router_sessions(1) [of m]
  by (cases "pickSessionLocked m") (auto simp: manager_Subscribe_def Let_def go_bind_Ret_iff dest!: mg_apply_router split: if_splits)

lemma Unsubscribe_fanOut: "manager_Unsubscribe (Some m) t choice reuse = Ret (Some m', r) \<Longrightarrow> mg_fanOut m' = mg_fanOut m"
  by (auto simp: manager_Unsubscribe_def Let_def go_bind_Ret_iff dest!: mg_apply_router split: if_splits option.splits)

lemma Consumer_fanOut:
  "manager_AddConsumer (Some m) t c = (Some m', e) \<Longrightarrow> mg_fanOut m' = mg_fanOut m"
  "manager_RemoveConsumer (Some m) t c = (Some m', e) \<Longrightarrow> mg_fanOut m' = mg_fanOut m"
  by (auto simp: manager_AddConsumer_def manager_RemoveConsumer_def split: option.splits)

lemma send_loop_fanOut: "send_loop m msgType payload choices reuse is e = Ret (m', e', rest) \<Longrightarrow> mg_fanOut m' = mg_fanOut m"
proof (induction "is" arbitrary: m e)
  case (Cons i "is")
  show ?case
  proof (cases "ss_connected (mg_store m i)")
    case False
    then show ?thesis using Cons by simp
  next
    case True
    then obtain w p res where "writer_Send (ss_writer (mg_store m i)) (mg_outbound m) msgType payload (choices i) reuse = Ret (w, p, res)"
      using Cons.prems by (auto simp: go_bind_Ret_iff)
    then show ?thesis using True Cons.prems by (cases res) (auto dest!: Cons.IH)
  qed
qed simp

lemma EnqueueOutbound_fanOut:
  "manager_EnqueueOutbound (Some m) t frame = (Some m', r) \<Longrightarrow> mg_fanOut m' = mg_fanOut m"
  by (auto simp: manager_EnqueueOutbound_def Let_def split: option.splits if_splits prod.splits enqueue_result.splits)

lemma Run_fanOut:
  "manager_RunStart (Some m) = (Some m', e) \<Longrightarrow> mg_fanOut m' = mg_fanOut m" "mg_fanOut (manager_RunStop m) = mg_fanOut m"
  by (auto simp: manager_RunStart_def manager_RunStop_def manager_stopAll_def Let_def split: if_splits)

lemma mg_step_fanOut: "mg_step m m' \<Longrightarrow> mg_fanOut m' = mg_fanOut m"
  by (induction rule: mg_step.induct)
    (auto simp: manager_Send_def mg_put_def go_bind_Ret_iff Subscribe_fanOut Unsubscribe_fanOut Consumer_fanOut
      EnqueueOutbound_fanOut Run_fanOut send_loop_fanOut)

subsection \<open>Groups\<close>

definition shared_groups :: "usecase \<Rightarrow> bool" where
  "shared_groups u \<longleftrightarrow> list_all (\<lambda>g. mg_fanOut (gr_manager g) = FanOutShared) (us_store u)"

lemma shared_groups_put:
  "shared_groups u \<Longrightarrow> (i < length (us_store u) \<Longrightarrow> mg_fanOut (gr_manager g) = FanOutShared) \<Longrightarrow> shared_groups (us_put i g u)"
  unfolding shared_groups_def us_put_def list_all_length
  by (cases "i < length (us_store u)") (auto simp: nth_list_update)

lemma shared_groups_nth: "shared_groups u \<Longrightarrow> i < length (us_store u) \<Longrightarrow> mg_fanOut (gr_manager (us_store u ! i)) = FanOutShared"
  by (simp add: shared_groups_def list_all_length)

lemma shared_groups_ids [simp]: "shared_groups (u\<lparr>us_currTopicID := n\<rparr>) = shared_groups u"
  by (simp add: shared_groups_def)

lemma newGroup_fanOut: "newGroup platform apiKey = Inr g \<Longrightarrow> mg_fanOut (gr_manager g) = FanOutShared"
proof -
  have "FanOut (Option_init (zero_option\<lparr>FanOut := FanOutShared\<rparr>)) = FanOutShared" by (simp add: Option_init_def zero_option_def)
  then show "newGroup platform apiKey = Inr g \<Longrightarrow> mg_fanOut (gr_manager g) = FanOutShared"
    by (auto simp: newGroup_def manager_New_def newRouter_def Let_def split: if_splits sum.splits)
qed

lemma group_manager_router [simp]: "mg_router (group_manager g) = mg_router (gr_manager g)"
  by (simp add: group_manager_def)

lemma manager_some:
  "manager_Subscribe (Some m) t choice reuse = Ret (x, r) \<Longrightarrow> x \<noteq> None"
  "manager_Unsubscribe (Some m) t choice reuse = Ret (x, r) \<Longrightarrow> x \<noteq> None"
  "manager_RunStart (Some m) = (x, e) \<Longrightarrow> x \<noteq> None"
  by (auto simp: manager_Subscribe_def manager_Unsubscribe_def manager_RunStart_def Let_def go_bind_Ret_iff
      split: if_splits option.splits prod.splits)

lemma ensureTopic_fanOut:
  assumes "ensureTopic low g n topic symbol choice reuse = Ret (g', n', r)"
  shows "mg_fanOut (gr_manager g') = mg_fanOut (gr_manager g)"
proof (cases "gr_topics g (topic, Symbol_String symbol)")
  case (Some p)
  then show ?thesis using assms by (simp add: ensureTopic_def)
next
  case None
  let ?req = "\<lparr>Ingest_Platform = gr_platform g, Ingest_Topic = topic, Ingest_Symbol = symbol, Ingest_APIKey = gr_apiKey g\<rparr>"
  obtain c e where c: "codec_Register low (gr_codec g) (n + 1) ?req = (c, e)" by fastforce
  show ?thesis
  proof (cases e)
    case (Some e')
    then show ?thesis using assms None c by (auto simp: ensureTopic_def nextTopicID_def Let_def)
  next
    case ok: None
    obtain x s where x: "manager_Subscribe (Some (group_manager (g\<lparr>gr_codec := c\<rparr>))) (n + 1) choice reuse = Ret (x, s)"
      using assms None c ok by (auto simp: ensureTopic_def nextTopicID_def Let_def go_bind_Ret_iff)
    have g': "gr_manager g' = the x"
      using assms None c ok x by (cases s) (auto simp: ensureTopic_def nextTopicID_def Let_def)
    obtain m where "x = Some m" using manager_some(1) [OF x] by blast
    then show ?thesis using Subscribe_fanOut x g' by fastforce
  qed
qed

lemma getOrCreateGroup_fanOut:
  assumes "shared_groups u" "getOrCreateGroup u platform apiKey = (u', r)"
  shows "shared_groups u'"
proof -
  have s: "mg_fanOut (gr_manager (fst (group_start g))) = mg_fanOut (gr_manager g)" for g by (simp add: group_start_def)
  have p: "shared_groups v \<Longrightarrow> shared_groups (us_put i (fst (group_start (us_store v ! i))) v)" for i v
    by (rule shared_groups_put) (use shared_groups_nth s in auto)
  have p': "shared_groups (us_put i (fst (group_start (us_store u ! i))) (u\<lparr>us_currTopicID := n\<rparr>))" for i n
    using p [of "u\<lparr>us_currTopicID := n\<rparr>" i] assms(1) by simp
  have new: "shared_groups (v\<lparr>us_store := us_store u @ [g]\<rparr>) = (mg_fanOut (gr_manager g) = FanOutShared)" for v g
    using assms(1) by (simp add: shared_groups_def)
  show ?thesis using assms
    by (auto simp: getOrCreateGroup_def Let_def s split: if_splits option.splits sum.splits prod.splits
        simp: new intro!: p p' dest!: newGroup_fanOut)
qed

lemma Subscribe_shared:
  assumes "shared_groups u" "usecase_Subscribe low (Some u) platform apiKey topic symbol c choice reuse = Ret (Some u', r)"
  shows "shared_groups u'"
proof -
  obtain u1 res where g: "getOrCreateGroup u platform apiKey = (u1, res)" by fastforce
  have u1: "shared_groups u1" by (rule getOrCreateGroup_fanOut [OF assms(1) g])
  show ?thesis
  proof (cases "\<exists>i. res = Inr i \<and> Platform_IsAvailable platform \<and> Topic_IsAvailable topic \<and> c \<noteq> None")
    case False
    then show ?thesis using assms g u1 by (cases res) (auto simp: usecase_Subscribe_def split: if_splits)
  next
    case True
    then obtain i k where i: "res = Inr i" "Platform_IsAvailable platform" "Topic_IsAvailable topic" "c = Some k" by auto
    obtain g1 n e where e: "ensureTopic low (us_store u1 ! i) (us_currTopicID u1) topic symbol choice reuse = Ret (g1, n, e)"
      using assms(2) g i by (auto simp: usecase_Subscribe_def go_bind_Ret_iff)
    have g1: "i < length (us_store u1) \<Longrightarrow> mg_fanOut (gr_manager g1) = FanOutShared"
      using ensureTopic_fanOut [OF e] shared_groups_nth [OF u1] by simp
    have p1: "shared_groups (us_put i g1 u1)" by (rule shared_groups_put [OF u1 g1])
    show ?thesis
    proof (cases e)
      case (Ensured p)
      obtain x err where x: "manager_AddConsumer (Some (gr_manager g1)) (ts_topicID (gr_states g1 ! p)) (Some k) = (x, err)" by fastforce
      obtain m where m: "x = Some m" using x by (auto simp: manager_AddConsumer_def split: option.splits)
      have f: "i < length (us_store u1) \<Longrightarrow> mg_fanOut m = FanOutShared" using Consumer_fanOut(1) x m g1 by fastforce
      have p2: "shared_groups (us_put i g2 ((us_put i g1 u1)\<lparr>us_currTopicID := n\<rparr>))" if "gr_manager g2 = m" for g2
        by (rule shared_groups_put) (use p1 f that in \<open>simp_all add: us_put_def\<close>)
      show ?thesis using assms(2) g i e x m Ensured p2 [of "g1\<lparr>gr_manager := m\<rparr>"] p2 [of "bump p 1 (g1\<lparr>gr_manager := m\<rparr>)"]
        by (auto simp: usecase_Subscribe_def Let_def bump_def split: option.splits)
    qed (use assms(2) g i e p1 in \<open>auto simp: usecase_Subscribe_def Let_def\<close>)
  qed
qed

lemma Unsubscribe_shared:
  assumes "shared_groups u" "usecase_Unsubscribe (Some u) platform apiKey topic symbol c choice reuse = Ret (Some u', r)"
  shows "shared_groups u'"
proof -
  have put: "shared_groups (us_put i g u)" if "i < length (us_store u) \<Longrightarrow> mg_fanOut (gr_manager g) = mg_fanOut (gr_manager (us_store u ! i))" for i g
    by (rule shared_groups_put [OF assms(1)]) (use that shared_groups_nth [OF assms(1)] in simp)
  have rc: "\<exists>m. x = Some m \<and> mg_fanOut m = mg_fanOut m0" if "manager_RemoveConsumer (Some m0) t k = (x, e)" for m0 t k x e
    using that Consumer_fanOut(2) [of m0 t k] by (cases x) (auto simp: manager_RemoveConsumer_def split: option.splits)
  have un: "\<exists>m. x = Some m \<and> mg_fanOut m = mg_fanOut m0" if "manager_Unsubscribe (Some m0) t choice reuse = Ret (x, e)" for m0 t x e
    using that Unsubscribe_fanOut [of m0 t] manager_some(2) [OF that] by auto
  have b: "gr_manager (bump p k g) = gr_manager g" for p k g by (simp add: bump_def)
  show ?thesis
    using assms by (auto simp: usecase_Unsubscribe_def Let_def go_bind_Ret_iff b intro!: put dest!: rc un
        split: if_splits option.splits prod.splits)
qed

lemma use_reach_shared: "use_reach u \<Longrightarrow> shared_groups u"
proof (induction rule: use_reach.induct)
  case new
  show ?case by (simp add: shared_groups_def NewUsecase_def)
next
  case (subscribe u low platform apiKey topic symbol c choice reuse u' r)
  then show ?case using Subscribe_shared by blast
next
  case (unsubscribe u platform apiKey topic symbol c choice reuse u' r)
  then show ?case using Unsubscribe_shared by blast
next
  case (run u i)
  obtain x e where x: "manager_RunStart (Some (group_manager (us_store u ! i))) = (x, e)" by fastforce
  obtain m where m: "x = Some m" using manager_some(3) [OF x] by blast
  then have "mg_fanOut (gr_manager (group_run (us_store u ! i))) = mg_fanOut (gr_manager (us_store u ! i))"
    using Run_fanOut(1) x by (fastforce simp: group_run_def split: option.split)
  then show ?case using shared_groups_put [OF run(3)] shared_groups_nth [OF run(3)] by simp
next
  case (run_end u i)
  then show ?case using shared_groups_put [OF run_end(3)] shared_groups_nth [OF run_end(3)]
    by (simp add: group_run_end_def Run_fanOut)
next
  case (session u i m)
  then show ?case using shared_groups_put [OF session(5)] shared_groups_nth [OF session(5)] mg_step_fanOut [OF session(3)]
    by simp
qed

end
