(* ===== verification/Pipeline.thy ===== *)
theory Pipeline
  imports Ingest_Service_Laws Ingest_FanOut
begin

section \<open>From the exchange to the client\<close>

text \<open>
  The read loop of a session and the goroutine of a consumer share the manager's frames and the consumer's queue.
  Here the two are joined: \<open>reading\<close> is what the session sees of the service, \<open>after_reading\<close> puts back what it
  has changed. The main lemma follows a book of orders through both, from the bytes the exchange sends on the
  websocket to the bytes the client reads from its socket.
\<close>

definition reading :: "service \<Rightarrow> connGroup \<Rightarrow> wsConn \<Rightarrow> int \<Rightarrow> read_state" where
  "reading sv g conn frameSize = \<lparr>rs_conn = conn, rs_store = sv_frames sv (group_key g),
     rs_queues = map (\<lambda>c. the (co_queue c)) (sv_consumers sv), rs_frameSize = frameSize\<rparr>"

definition after_reading :: "service \<Rightarrow> connGroup \<Rightarrow> read_state \<Rightarrow> service" where
  "after_reading sv g s = sv\<lparr>sv_frames := (sv_frames sv)(group_key g := rs_store s),
     sv_consumers := map2 (\<lambda>c q. c\<lparr>co_queue := Some q\<rparr>) (sv_consumers sv) (rs_queues s)\<rparr>"

lemma after_reading_sel [simp]:
  "sv_usecase (after_reading sv g s) = sv_usecase sv"
  "sv_frames (after_reading sv g s) (group_key g) = rs_store s"
  "k < length (sv_consumers sv) \<Longrightarrow> length (rs_queues s) = length (sv_consumers sv) \<Longrightarrow>
     co_queue (sv_consumers (after_reading sv g s) ! k) = Some (rs_queues s ! k)"
  by (simp_all add: after_reading_def)

text \<open>The book the exchange's rows stand for.\<close>

definition book :: "int \<Rightarrow> Symbol \<Rightarrow> u64 \<Rightarrow> (Decimal \<times> Decimal) list \<Rightarrow> (Decimal \<times> Decimal) list \<Rightarrow> Depth" where
  "book now symbol ms bids asks = zero_Depth\<lparr>Depth_Symbol := symbol, Depth_Platform := PlatformBinance,
     Depth_RecvTsNano := now, Depth_EventTsNano := millis_to_nano ms,
     Depth_Bids := store_rows (replicate 128 zero_DepthRow) 0 bids, Depth_BidsLength := int (min (length bids) 128),
     Depth_Asks := store_rows (replicate 128 zero_DepthRow) 0 asks, Depth_AsksLength := int (min (length asks) 128)\<rparr>"

definition book_text :: "string \<Rightarrow> u64 \<Rightarrow> (Decimal \<times> Decimal) list \<Rightarrow> (Decimal \<times> Decimal) list \<Rightarrow> bool" where
  "book_text p ms bids asks \<longleftrightarrow> has_side p (quoted_name ''b'') bids \<and> has_side p (quoted_name ''a'') asks
     \<and> list_all row_ok bids \<and> list_all row_ok asks \<and> (bids \<noteq> [] \<or> asks \<noteq> [])
     \<and> binance_scanUintField p (quoted_name ''E'') = Some ms"

lemma book_text_nonempty: "book_text p ms bids asks \<Longrightarrow> p \<noteq> []"
  by (auto simp: book_text_def has_side_def side_text_def)

lemma book_payload:
  assumes "book_text p ms bids asks" "wf_Symbol symbol" "in_int64 now"
  obtains bytes where "binance_DecodeMarketDataPayload now pad TopicDepth symbol p = Inr bytes"
    "length bytes = Depth_SizeInByte" "Depth_Decode bytes = book now symbol ms bids asks"
proof -
  have d: "decodeBinanceDepth now p symbol = Inr (book now symbol ms bids asks)"
    using assms(1) decodeBinanceDepth_rows unfolding book_text_def book_def by blast
  have b: "binance_DecodeMarketDataPayload now pad TopicDepth symbol p = Inr (Depth_Encode pad (book now symbol ms bids asks) [])"
    using d book_text_nonempty [OF assms(1)]
    by (simp add: binance_DecodeMarketDataPayload_def decodeBinancePayload_def Topic_IsAvailable_def)
  from that [OF b] binance_payload_depth [OF b assms(2,3)] d show thesis by simp
qed

text \<open>One round of a consumer whose queue begins with a frame that decodes, on a connection that takes it whole.\<close>

lemma consumer_round_serves:
  assumes "co_queue (sv_consumers sv ! cg_consumer g) = Some q" "fq_ok q" "fq_list q = f # fs"
    and "Frame_Buf (fs_frames (sv_frames sv (group_key g)) f) = Some b" "cg_platform g = PlatformBinance"
    and "usecase_Resolve (sv_usecase sv) PlatformBinance (cg_apiKey g)
      (Frame_Topic (fs_frames (sv_frames sv (group_key g)) f)) = Some (topic, symbol)"
    and "binance_DecodeMarketDataPayload now pad topic symbol (text_of (visible b)) = Inr payload" "wf_Symbol symbol"
    and "n = respHeaderSize + length symbol + length payload"
  obtains sv' where "consumer_round now pad sv (Some ((n, False) # ws)) g False
      = Ret (sv', Some ws, response_frame PlatformBinance topic (bytes_of symbol) payload, NextFrame)"
    "sv_frames sv' (group_key g) = Frame_Release (sv_frames sv (group_key g)) f"
proof -
  let ?frame = "response_frame PlatformBinance topic (bytes_of symbol) payload"
  obtain q' where nx: "Consumer_Next (Some (sv_consumers sv ! cg_consumer g))
      = (Some ((sv_consumers sv ! cg_consumer g)\<lparr>co_queue := Some q'\<rparr>), Popped (Some f))"
    by (rule Consumer_Next_frame [OF assms(1-3)])
  have l: "length ?frame = n" "?frame \<noteq> []" by (simp_all add: response_frame_eq assms(9))
  have s: "length symbol \<le> maxUint16" using assms(8) by (simp add: wf_Symbol_def)
  have f: "writeFull ((n, False) # ws) [] ?frame = Ret (?frame, ws, Written)"
    using l by (cases ?frame) simp_all
  have w: "writeResponse (Some ((n, False) # ws)) PlatformBinance topic (bytes_of symbol) payload = Ret (Some ws, ResponseSent ?frame Written)"
    using s f by (simp add: writeResponse_def del: writeFull.simps)
  have u: "sv_usecase sv \<noteq> None" using assms(6) by (cases "sv_usecase sv") (simp_all add: usecase_Resolve_def)
  show thesis
    using that w u assms(4-7) by (simp add: consumer_round_def nx Let_def)
qed

lemma frame_recycled:
  "Frame_ref (fs_frames st f) = 1 \<Longrightarrow> Frame_pooled (fs_frames st f) \<Longrightarrow> f \<in> set (fs_pool (Frame_Release st f))"
  by (simp add: Frame_Release_def framePool_recycle_def fs_upd_def Let_def)

text \<open>A message in any number of fragments, with control frames between them, whose book reaches the client.\<close>

lemma book_delivered:
  assumes "sv_usecase sv = Some u" "cg_platform g = PlatformBinance"
    and "us_groups u (group_key g) = Some i" "gr = us_store u ! i"
    and "usecase_Resolve (Some u) PlatformBinance (cg_apiKey g) t = Some (TopicDepth, symbol)" "wf_Symbol symbol"
    and "rt_fanOut (mg_router (gr_manager gr)) = FanOutShared" "rt_list (mg_router (gr_manager gr)) t = [cg_consumer g]"
    and "cg_consumer g < length (sv_consumers sv)" "co_queue (sv_consumers sv ! cg_consumer g) = Some q"
    and "fq_ok q" "\<not> fq_closed q" "fq_list q = []"
    and "fs_buffers (sv_frames sv (group_key g)) = Some p" "pool_ok p" "frameSize \<in> set (bp_sizes p)" "frameSize \<le> x"
    and "x \<in> set (bp_sizes p)" "x \<le> max_alloc" "int (length (message_data ps)) \<le> x"
    and "wc_input conn = message_bytes opText ps @ later" "wc_pending conn = None" "ps \<noteq> []" "list_all piece_ok ps"
    and "book_text (text_of (message_data ps)) ms bids asks"
    and "\<forall>spare. codec_DecodeTopic (gr_codec gr) (text_of (message_data ps)) spare = Ret (Some t)"
    and "in_int64 now"
  shows "\<exists>n s sv' out payload. n \<le> card {y \<in> set (bp_sizes p). frameSize < y \<and> y \<le> x} + 1
    \<and> readLoop (mg_router (gr_manager gr)) (codec_DecodeTopic (gr_codec gr)) ch n (reading sv g conn frameSize) = Ret (s, ReadOn)
    \<and> wc_input (rs_conn s) = later
    \<and> consumer_round now pad (after_reading sv g s)
        (Some ((respHeaderSize + length symbol + Depth_SizeInByte, False) # ws)) g False = Ret (sv', Some ws, out, NextFrame)
    \<and> readResponse (Some (out @ rest)) = (Some rest, Inr \<lparr>resp_Platform = PlatformBinance, resp_Topic = TopicDepth,
        resp_Arg = symbol, resp_Payload = payload\<rparr>)
    \<and> Depth_Decode payload = book now symbol ms bids asks"
proof -
  let ?k = "cg_consumer g" and ?bs = "message_data ps" and ?r = "reading sv g conn frameSize"
  have o: "opText \<in> {opText, opBinary} \<or> opText = opContinuation \<and> (0 :: MessageType) \<noteq> 0" "opText \<noteq> opContinuation"
    "opcodeToMessageType opText = MessageText" by (simp_all add: opcodeToMessageType_def)
  have fit: "length ?bs \<le> nat x" using assms(20) by linarith
  obtain c' where c': "wc_input c' = later" "read_loop conn (nat x) [] 0 = (c', Inr ([] @ ?bs, MessageText))"
    by (rule read_loop_message [OF assms(21,23,24) o(1), of "[]" "nat x"]) (use fit o in simp_all)
  have rd: "wsConn_Read conn (nat x) = (c', Inr (?bs, MessageText))" using c'(2) assms(22) by (simp add: wsConn_Read_def)
  obtain payload where pl: "binance_DecodeMarketDataPayload now pad TopicDepth symbol (text_of ?bs) = Inr payload"
    "length payload = Depth_SizeInByte" "Depth_Decode payload = book now symbol ms bids asks"
    by (rule book_payload [OF assms(25,6,27)])
  have ne: "?bs \<noteq> []" using book_text_nonempty [OF assms(25)] by (auto simp: text_of_def)
  have qk: "rs_queues ?r ! ?k = q" "?k < length (rs_queues ?r)" using assms(9,10) by (simp_all add: reading_def)
  have sz: "fq_size q < length (fq_buf q)" using assms(11,13) by (simp add: fq_ok_def fq_list_def)
  have r: "rs_conn ?r = conn" "rs_store ?r = sv_frames sv (group_key g)" "rs_frameSize ?r = frameSize"
    by (simp_all add: reading_def)
  have "\<exists>n s' f. n \<le> card {y \<in> set (bp_sizes p). rs_frameSize ?r < y \<and> y \<le> x} + 1
    \<and> readLoop (mg_router (gr_manager gr)) (codec_DecodeTopic (gr_codec gr)) ch n ?r = Ret (s', ReadOn) \<and> rs_conn s' = c'
    \<and> fq_list (rs_queues s' ! ?k) = fq_list (rs_queues ?r ! ?k) @ [f] \<and> rs_queues s' = (rs_queues ?r)[?k := fq_enq (rs_queues ?r ! ?k) f]
    \<and> payload_of (Frame_Buf (fs_frames (rs_store s') f)) = ?bs \<and> Frame_Topic (fs_frames (rs_store s') f) = t
    \<and> Frame_ref (fs_frames (rs_store s') f) = 1"
    by (rule readLoop_enqueues [where bs = ?bs and mt = MessageText])
      (use assms(7,8,11,12,14-19,22,26) rd ne qk sz r in simp_all)
  then obtain n s f where n: "n \<le> card {y \<in> set (bp_sizes p). frameSize < y \<and> y \<le> x} + 1"
    "readLoop (mg_router (gr_manager gr)) (codec_DecodeTopic (gr_codec gr)) ch n ?r = Ret (s, ReadOn)" "rs_conn s = c'"
    and s: "rs_queues s = (rs_queues ?r)[?k := fq_enq q f]"
      "payload_of (Frame_Buf (fs_frames (rs_store s) f)) = ?bs" "Frame_Topic (fs_frames (rs_store s) f) = t"
    unfolding qk(1) r(3) by blast
  obtain b where b: "Frame_Buf (fs_frames (rs_store s) f) = Some b" "visible b = ?bs"
    using s(2) ne by (cases "Frame_Buf (fs_frames (rs_store s) f)") (auto simp: payload_of_def)
  have len: "length (rs_queues s) = length (sv_consumers sv)" by (simp add: s(1) reading_def)
  have q': "co_queue (sv_consumers (after_reading sv g s) ! ?k) = Some (fq_enq q f)"
    using after_reading_sel(3) [OF assms(9) len] s(1) qk(2) by simp
  note e = fq_enq_ok [OF assms(11) sz, of f]
  have l: "fq_list (fq_enq q f) = f # []" using e(2) assms(13) by simp
  let ?out = "response_frame PlatformBinance TopicDepth (bytes_of symbol) payload"
  obtain sv' where v: "consumer_round now pad (after_reading sv g s)
      (Some ((respHeaderSize + length symbol + Depth_SizeInByte, False) # ws)) g False = Ret (sv', Some ws, ?out, NextFrame)"
    by (rule consumer_round_serves [OF q' e(1) l, where b = b and topic = TopicDepth and symbol = symbol and payload = payload])
      (use b s(3) assms(1,2,5,6) pl in simp_all)
  have "length (bytes_of symbol) \<le> maxUint16" using assms(6) by (simp add: wf_Symbol_def)
  moreover have "payloadSize TopicDepth = Inr (length payload)" using pl(2) by (simp add: payloadSize_def)
  ultimately have "readResponse (Some (?out @ rest)) = (Some rest, Inr \<lparr>resp_Platform = PlatformBinance, resp_Topic = TopicDepth,
      resp_Arg = symbol, resp_Payload = payload\<rparr>)" by (simp add: readResponse_frame)
  then show ?thesis using n c'(1) v pl(3) by (intro exI [of _ n] exI [of _ s] exI [of _ sv'] exI [of _ ?out] exI [of _ payload]) simp
qed

end
