(* ===== verification/Pipeline_Properties.thy ===== *)
theory Pipeline_Properties
  imports Pipeline Ingest_Properties
begin

section \<open>Properties of the whole path of a message\<close>

text \<open>
  The theorems that span the websocket session, the codec, the use case, the consumer and the client.
\<close>

text \<open>C1: an order book the exchange sends reaches the client. In every reachable use case, when the consumer of a
  Binance group is the only one of a depth topic and waits with an empty queue, a websocket message with the rows of
  a book, in any fragments with control frames between them, that a bucket of the pool can hold is read in at most
  one round per bucket and one more; the next round of the consumer writes one response to the client's socket, which
  the client reads as the platform, the topic, the symbol and a payload whose decoding has the rows in order.\<close>

theorem book_reaches_client:
  assumes "use_reach u" "sv_usecase sv = Some u" "cg_platform g = PlatformBinance"
    and "us_groups u (group_key g) = Some i" "gr = us_store u ! i"
    and "usecase_Resolve (Some u) PlatformBinance (cg_apiKey g) t = Some (TopicDepth, symbol)" "wf_Symbol symbol"
    and "rt_list (mg_router (gr_manager gr)) t = [cg_consumer g]"
    and "cg_consumer g < length (sv_consumers sv)" "co_queue (sv_consumers sv ! cg_consumer g) = Some q"
    and "fq_ok q" "\<not> fq_closed q" "fq_list q = []"
    and "fs_buffers (sv_frames sv (group_key g)) = Some p" "pool_ok p" "frameSize \<in> set (bp_sizes p)" "frameSize \<le> x"
    and "x \<in> set (bp_sizes p)" "x \<le> max_alloc" "int (length (message_data ps)) \<le> x"
    and "wc_input conn = message_bytes opText ps @ later" "wc_pending conn = None" "ps \<noteq> []" "list_all piece_ok ps"
    and "book_text (text_of (message_data ps)) ms bids asks"
    and "\<forall>spare. codec_DecodeTopic (gr_codec gr) (text_of (message_data ps)) spare = Ret (Some t)"
    and "in_int64 now"
  shows "\<exists>n s sv' out payload. n \<le> card {y \<in> set (bp_sizes p). frameSize < y \<and> y \<le> x} + 1
    \<and> readLoop (mg_router (gr_manager gr)) (codec_DecodeTopic (gr_codec gr)) ch n (reading sv g conn frameSize) = Ret (s, ReadOn)
    \<and> wc_input (rs_conn s) = later
    \<and> consumer_round now pad (after_reading sv g s)
        (Some ((respHeaderSize + length symbol + Depth_SizeInByte, False) # ws)) g False = Ret (sv', Some ws, out, NextFrame)
    \<and> readResponse (Some (out @ rest)) = (Some rest, Inr \<lparr>resp_Platform = PlatformBinance, resp_Topic = TopicDepth,
        resp_Arg = symbol, resp_Payload = payload\<rparr>)
    \<and> Depth_Decode payload = book now symbol ms bids asks"
proof -
  have "i < length (us_store u)" using use_reach_ok [OF assms(1)] assms(4) unfolding us_ok_def by blast
  then have "rt_fanOut (mg_router (gr_manager gr)) = FanOutShared"
    using shared_groups_nth [OF use_reach_shared [OF assms(1)]] assms(5) by simp
  from book_delivered [OF assms(2-7) this assms(8-27)] show ?thesis .
qed

text \<open>A first subscription to a depth topic of Binance, and a message about it.\<close>

definition binance_subscription :: "(usecase option \<times> use_result) go" where
  "binance_subscription = usecase_Subscribe (\<lambda>s. s) (Some NewUsecase) PlatformBinance (NewStr64 []) TopicDepth
     (NewSymbol ''BTC'' ''USDT'' []) (Some 0) (\<lambda>_. None) False"

definition demo_row :: "Decimal \<times> Decimal" where
  "demo_row = (\<lparr>Integer = 15, Scale = 1\<rparr>, \<lparr>Integer = 2, Scale = 0\<rparr>)"

definition demo_message :: string where
  "demo_message = ''{'' @ quoted_name ''E'' @ '':7,'' @ quoted_name ''s'' @ '':'' @ quoted_name ''BTCUSDT'' @ '',''
     @ side_text (quoted_name ''b'') [demo_row] @ '','' @ side_text (quoted_name ''a'') [] @ ''}''"

lemma demo_message_text: "book_text demo_message 7 [demo_row] []"
proof -
  let ?pre = "''{'' @ quoted_name ''E'' @ '':7,'' @ quoted_name ''s'' @ '':'' @ quoted_name ''BTCUSDT'' @ '',''"
  let ?pre2 = "?pre @ side_text (quoted_name ''b'') [demo_row] @ '',''"
  have f: "first_at demo_message (quoted_name ''b'') ?pre" "first_at demo_message (quoted_name ''a'') ?pre2" by code_simp+
  have "has_side demo_message (quoted_name ''b'') [demo_row]"
    unfolding has_side_def using f(1)
    by (intro exI [of _ ?pre] exI [of _ "'','' @ side_text (quoted_name ''a'') [] @ ''}''"]) (simp add: demo_message_def)
  moreover have "has_side demo_message (quoted_name ''a'') []"
    unfolding has_side_def using f(2) by (intro exI [of _ ?pre2] exI [of _ "''}''"]) (simp add: demo_message_def)
  moreover have "binance_scanUintField demo_message (quoted_name ''E'') = Some 7" by code_simp
  moreover have "list_all row_ok [demo_row]" by code_simp
  ultimately show ?thesis by (simp add: book_text_def)
qed

lemma binance_subscription_eval:
  obtains u gr where "binance_subscription = Ret (Some u, UseDone None)" "use_reach u"
    "us_groups u (PlatformBinance, []) = Some 0" "us_store u = [gr]" "rt_list (mg_router (gr_manager gr)) 1 = [0]"
    "usecase_Resolve (Some u) PlatformBinance (NewStr64 []) 1 = Some (TopicDepth, NewSymbol ''BTC'' ''USDT'' [])"
    "\<forall>spare. codec_DecodeTopic (gr_codec gr) demo_message spare = Ret (Some 1)"
proof -
  let ?sym = "NewSymbol ''BTC'' ''USDT'' []"
  let ?req = "\<lparr>Ingest_Platform = PlatformBinance, Ingest_Topic = TopicDepth, Ingest_Symbol = ?sym, Ingest_APIKey = NewStr64 []\<rparr>"
  let ?reg = "codec_Register (\<lambda>s. s) (BinanceCodec binance_NewCodec) 1 ?req"
  have c: "snd ?reg = None" by code_simp
  have d: "codec_DecodeTopic (fst ?reg) demo_message [] = Ret (Some 1)" by code_simp
  obtain cd where cd: "?reg = (cd, None)" using c by (metis prod.collapse)
  obtain bc where bc: "cd = BinanceCodec bc" using cd by (auto split: prod.splits)
  have d: "\<forall>spare. codec_DecodeTopic cd demo_message spare = Ret (Some 1)" using d unfolding cd bc by simp
  have k: "Str64_Len (NewStr64 []) = 0" "Str64_String (NewStr64 []) = []" "Symbol_String ?sym = ''BTCUSDT''" by code_simp+
  have i: "bufferPool_InitSize (Some defaultBufferPool) = 16" by code_simp
  have av: "Platform_IsAvailable PlatformBinance" "Topic_IsAvailable TopicDepth" by code_simp+
  obtain u gr where u: "binance_subscription = Ret (Some u, UseDone None)"
    "us_groups u (PlatformBinance, []) = Some 0" "us_store u = [gr]" "rt_list (mg_router (gr_manager gr)) 1 = [0]"
    "gr_codec gr = cd" "gr_topicsByID gr 1 = Some 0" "ts_topic (gr_states gr ! 0) = TopicDepth" "ts_symbol (gr_states gr ! 0) = ?sym"
    using cd k i av by (simp add: usecase_eval binance_subscription_def)
  have "use_reach u"
    by (rule use_reach.subscribe [OF use_reach.new _ u(1) [unfolded binance_subscription_def]]) (simp add: NewUsecase_def)
  moreover have "usecase_Resolve (Some u) PlatformBinance (NewStr64 []) 1 = Some (TopicDepth, ?sym)"
    using u k av by (simp add: usecase_Resolve_def getGroup_def)
  ultimately show thesis using that u d by simp
qed

definition demo_piece :: piece where
  "demo_piece = ([], \<lparr>fr_masked = False, fr_key = [0, 0, 0, 0], fr_data = bytes_of demo_message\<rparr>)"

definition demo_conn :: wsConn where
  "demo_conn = \<lparr>wc_input = message_bytes opText [demo_piece], wc_output = [], wc_broken = False, wc_mask = 1, wc_pending = None\<rparr>"

theorem book_reaches_client_witness:
  "\<exists>u sv g n s sv' out payload. use_reach u \<and> sv_usecase sv = Some u \<and> n \<le> 2
    \<and> readLoop (mg_router (gr_manager (us_store u ! 0))) (codec_DecodeTopic (gr_codec (us_store u ! 0)))
        (\<lambda>_. (0, None, None, \<lambda>_. (None, None))) n (reading sv g demo_conn 16) = Ret (s, ReadOn)
    \<and> consumer_round 5 (\<lambda>_. 0) (after_reading sv g s) (Some [(8300, False)]) g False = Ret (sv', Some [], out, NextFrame)
    \<and> readResponse (Some out) = (Some [], Inr \<lparr>resp_Platform = PlatformBinance, resp_Topic = TopicDepth,
        resp_Arg = NewSymbol ''BTC'' ''USDT'' [], resp_Payload = payload\<rparr>)
    \<and> Depth_Decode payload = book 5 (NewSymbol ''BTC'' ''USDT'' []) 7 [demo_row] []"
proof -
  obtain u gr where u: "use_reach u" "us_groups u (PlatformBinance, []) = Some 0" "us_store u = [gr]"
    "rt_list (mg_router (gr_manager gr)) 1 = [0]"
    "usecase_Resolve (Some u) PlatformBinance (NewStr64 []) 1 = Some (TopicDepth, NewSymbol ''BTC'' ''USDT'' [])"
    "\<forall>spare. codec_DecodeTopic (gr_codec gr) demo_message spare = Ret (Some 1)" by (rule binance_subscription_eval)
  let ?q = "newFrameQueue 4 OverflowDropOldest"
  let ?g = "\<lparr>cg_platform = PlatformBinance, cg_apiKey = NewStr64 [], cg_consumer = 0\<rparr>"
  let ?st = "dl_store (dl_init [] 0 (Some defaultBufferPool))"
  let ?sv = "\<lparr>sv_usecase = Some u, sv_consumers = [\<lparr>co_queue = Some ?q\<rparr>], sv_frames = (\<lambda>_. ?st)\<rparr>"
  have k: "Str64_String (NewStr64 []) = []" by code_simp
  have key: "us_groups u (group_key ?g) = Some 0" using u(2) by (simp add: group_key_def k)
  have gr: "gr = us_store u ! 0" using u(3) by simp
  have q: "fq_ok ?q" "\<not> fq_closed ?q" "fq_list ?q = []"
    by (rule fq_ok_new(1)) (simp_all add: newFrameQueue_def fq_list_def)
  have st: "fs_buffers ?st = Some defaultBufferPool" by (simp add: dl_init_def)
  have pool: "pool_ok defaultBufferPool" unfolding defaultBufferPool_def by (rule pool_ok_new)
  have sz: "bp_sizes defaultBufferPool = [16, 256, 4096, 65536, 4294967296, 9223372036854775807]" by code_simp
  have len: "length demo_message \<le> 256" by code_simp
  have d: "message_data [demo_piece] = bytes_of demo_message" by (simp add: message_data_def demo_piece_def)
  have ok: "list_all piece_ok [demo_piece]" by (use len in \<open>simp add: piece_ok_def demo_piece_def maxPayloadLen_def\<close>)
  have sym: "length (NewSymbol ''BTC'' ''USDT'' []) = 32" using wf_NewSymbol [of "''BTC''" "''USDT''" "[]"] by (simp add: wf_Symbol_def)
  have card: "card {y \<in> set (bp_sizes defaultBufferPool). 16 < y \<and> y \<le> 256} + 1 = 2"
  proof -
    have "{y \<in> set (bp_sizes defaultBufferPool). 16 < y \<and> y \<le> 256} = {256}" by (auto simp: sz)
    then show ?thesis by simp
  qed
  have "\<exists>n s sv' out payload. n \<le> card {y \<in> set (bp_sizes defaultBufferPool). 16 < y \<and> y \<le> 256} + 1
    \<and> readLoop (mg_router (gr_manager gr)) (codec_DecodeTopic (gr_codec gr)) (\<lambda>_. (0, None, None, \<lambda>_. (None, None))) n
        (reading ?sv ?g demo_conn 16) = Ret (s, ReadOn)
    \<and> wc_input (rs_conn s) = []
    \<and> consumer_round 5 (\<lambda>_. 0) (after_reading ?sv ?g s)
        (Some ((respHeaderSize + length (NewSymbol ''BTC'' ''USDT'' []) + Depth_SizeInByte, False) # [])) ?g False
        = Ret (sv', Some [], out, NextFrame)
    \<and> readResponse (Some (out @ [])) = (Some [], Inr \<lparr>resp_Platform = PlatformBinance, resp_Topic = TopicDepth,
        resp_Arg = NewSymbol ''BTC'' ''USDT'' [], resp_Payload = payload\<rparr>)
    \<and> Depth_Decode payload = book 5 (NewSymbol ''BTC'' ''USDT'' []) 7 [demo_row] []"
    by (rule book_reaches_client [OF u(1) _ _ key gr, where t = 1 and q = ?q and ps = "[demo_piece]" and x = 256])
      (use u q st pool sz ok d len demo_message_text in \<open>simp_all add: demo_conn_def max_alloc_def in_int64_def\<close>)
  then obtain n s sv' out payload where "n \<le> 2"
    "readLoop (mg_router (gr_manager (us_store u ! 0))) (codec_DecodeTopic (gr_codec (us_store u ! 0)))
        (\<lambda>_. (0, None, None, \<lambda>_. (None, None))) n (reading ?sv ?g demo_conn 16) = Ret (s, ReadOn)"
    "consumer_round 5 (\<lambda>_. 0) (after_reading ?sv ?g s) (Some [(8300, False)]) ?g False = Ret (sv', Some [], out, NextFrame)"
    "readResponse (Some out) = (Some [], Inr \<lparr>resp_Platform = PlatformBinance, resp_Topic = TopicDepth,
        resp_Arg = NewSymbol ''BTC'' ''USDT'' [], resp_Payload = payload\<rparr>)"
    "Depth_Decode payload = book 5 (NewSymbol ''BTC'' ''USDT'' []) 7 [demo_row] []"
    unfolding card sym gr append_Nil2 by auto
  moreover have "sv_usecase ?sv = Some u" by simp
  ultimately show ?thesis using u(1) by blast
qed

end
