(* ===== verification/Spec2Isabelle.thy ===== *)
theory Spec2Isabelle
  imports Market_Properties Codec_Properties Ws_Properties Ingest_Properties Order_Properties
    Service_Properties Support_Properties Memory_Metric Pg_Conn Example_Programs Pipeline_Properties
begin

text \<open>
  Verification library for go-hft, a Go program that collects market data of the exchanges BTCC and Binance over
  websockets, hands it to local processes over Unix sockets, and sends orders to BTCC.

  \<^bold>\<open>The program.\<close> A client of the ingest service (\<open>bundle/cmd/ingest\<close>) opens a Unix socket and asks for topics. For each
  platform and API key the use case (\<open>bundle/internal/ingest/usecase.go\<close>) owns a group: a codec of the exchange and a
  websocket manager (\<open>libs/shared/websocket\<close>). The manager spreads topics over sessions; a session dials, keeps its
  topics subscribed, reads frames into pooled buffers, asks the codec for the topic of each and routes it to the bounded
  queues of the consumers. The goroutine of a consumer resolves the topic, decodes the frame to a fixed-size struct
  (\<open>libs/adapter\<close>) and writes it to the client. The order service (\<open>bundle/internal/order\<close>) queues requests for workers,
  which sign and send them.

  \<^bold>\<open>Values.\<close> \<open>uint8\<close>, \<open>uint32\<close> and \<open>uint64\<close> are words; \<open>int64\<close> is \<open>int\<close> with \<open>wrap64\<close> written at every operation that can
  overflow; \<open>float64\<close> is a rational with the rounding of IEEE 754 (\<open>Go_Float\<close>); text is a list of 8-bit characters. A
  panic is the value \<open>Panic\<close> of the type \<open>go\<close>, an error is \<open>Inl\<close>, a nil pointer is \<open>None\<close>. Objects shared by pointer live
  in stores and are named by position or number. A critical section under a mutex is one step; a call that would
  wait on a full queue, an empty queue or a channel has a result of its own. Map iteration, clocks, random numbers and
  the answers of the operating system, of TCP, TLS, HTTP and of the libraries the sources only call are arguments.

  \<^bold>\<open>Theories.\<close>
  \<^item> Go: \<open>Go_Prelude\<close> (bytes, \<open>strconv\<close>, the collection \<open>go_eval\<close>), \<open>Go_Float\<close>, \<open>Go_Crypto\<close> (SHA-1, SHA-256, MD5, base64,
    hex), \<open>Go_Strings\<close> (\<open>strings\<close> and \<open>filepath\<close>), \<open>Exceptions\<close> (\<open>libs/shared/exception\<close>).
  \<^item> \<open>libs/adapter\<close>: \<open>Adapter_Types\<close> (enumerations, decimals), \<open>Adapter_Symbol\<close> (\<open>str64.go\<close>, \<open>symbol.go\<close>, \<open>token.go\<close>),
    \<open>Adapter_Records\<close> (the message structs), \<open>Adapter_Codable\<close> (the generated encoders: locale \<open>codable\<close>, interpreted on five
    structs).
  \<^item> \<open>libs/shared/scanner\<close>: \<open>Scan_Lib\<close> (the index loops and their reading on the rest of the text), \<open>Scanner\<close>.
  \<^item> \<open>bundle/internal/ingest/btcc\<close> and \<open>\<dots>/binance\<close>: \<open>Btcc_Decimal\<close> and \<open>Binance_Decimal\<close> (locales \<open>decimal_reader\<close>,
    \<open>decimal_subtraction\<close>), \<open>Depth_Rows\<close> (locale of the row loop), \<open>Btcc_Payload\<close>, \<open>Binance_Payload\<close> (the decoders),
    \<open>Btcc_Payload_Laws\<close>, \<open>Btcc_Json\<close> (the scanners on printed JSON), \<open>Btcc_Codec\<close>, \<open>Binance_Codec\<close>, \<open>Btcc_Laws\<close>,
    \<open>Binance_Laws\<close>, \<open>Codec_Laws\<close> (locale \<open>codec_tables\<close>: what the use case needs of a codec), \<open>Payload_Types\<close>
    (what the decoders return is well typed, by one rule for each assignment).
  \<^item> \<open>libs/shared/websocket\<close>: \<open>Ws_Types\<close>, \<open>Ws_Wire\<close>, \<open>Ws_Handshake\<close> and \<open>Ws_Dialer\<close> (\<open>dialer.go\<close>), \<open>Ws_Buffer_Pool\<close>,
    \<open>Ws_Frames\<close> (\<open>frame.go\<close>, the queue of \<open>consumer.go\<close>), \<open>Ws_Consumer\<close>, \<open>Ws_Router\<close> (locale \<open>fifo\<close>: a bounded list, which the
    ring buffer implements), \<open>Ws_Outbound\<close> (\<open>subscriptions.go\<close> with locale \<open>topic_set\<close>, \<open>writer.go\<close>), \<open>Ws_Backoff\<close>, \<open>Ws_Session\<close>,
    \<open>Ws_Manager\<close>; laws in \<open>Ws_Wire_Laws\<close>, \<open>Ws_Session_Laws\<close>, \<open>Ws_Manager_Laws\<close>, \<open>Ws_Manager_Reach\<close> and \<open>Ws_Delivery\<close>;
    \<open>Ws_Example\<close> (the decoder, encoder and consumer of \<open>example/websocket\<close>), \<open>Example_Programs\<close> (its \<open>main\<close> and that of
    \<open>example/uds_server\<close>).
  \<^item> \<open>bundle/internal/ingest/usecase.go\<close>: \<open>Ingest_Usecase\<close>, \<open>Ingest_Laws\<close>, \<open>Ingest_FanOut\<close> (every group shares
    frames among its consumers).
  \<^item> \<open>bundle/cmd/ingest\<close> and \<open>bundle/cmd/ingest_test_client\<close>: \<open>Ingest_Socket\<close> (names and frames of the socket, for both
    sides), \<open>Ingest_Service\<close>, \<open>Ingest_Service_Laws\<close>, \<open>Test_Client\<close>. \<open>Pipeline\<close> joins them with the
    session: the path of a book from the websocket through the queue of a consumer to the client.
  \<^item> \<open>bundle/internal/order\<close>: \<open>Order_Delegator\<close>, \<open>Order_Usecase\<close>.
  \<^item> \<open>libs/shared/uds\<close>: \<open>Uds\<close>. \<open>libs/tool/codable\<close>: \<open>Codable_Tool\<close>, \<open>Codable_Generator\<close>. \<open>libs/shared/metric\<close>:
    \<open>Memory_Metric\<close>. \<open>libs/shared/conn\<close>: \<open>Pg_Conn\<close>.

  \<^bold>\<open>Correspondence.\<close> A definition has the name of the Go function it translates, with the type or the package in front
  where two would clash (\<open>frameQueue_Push\<close>, \<open>btcc_parseDecimal\<close>, \<open>usecase_Subscribe\<close>). The state of a Go type is the
  record of the same name, its fields under a two-letter prefix. Goroutines are cut at the points where they block:
  \<open>Ws_Session\<close> has one function per event of a session, \<open>Ws_Manager\<close> the start of \<open>Run\<close> and its end, \<open>Ingest_Service\<close> the round of
  the reader and the round of a consumer, \<open>Order_Usecase\<close> a worker's choice, its handling of a request and its return to
  the choice. The step relations (\<open>dl_reach\<close> of \<open>Ws_Delivery\<close>, \<open>mg_reach\<close>, \<open>use_reach\<close>, \<open>conn_reach\<close>, \<open>order_run\<close>,
  \<open>server_run\<close>) put those pieces together in any order.

  \<^bold>\<open>What is shown.\<close> The properties stand in the \<open>_Properties\<close> theories, each with a closed theorem that applies it to a
  concrete input.
  \<^item> \<open>Market_Properties\<close>: decimals, texts, symbols and structs round trip; the readers of decimals accept exactly their grammar;
    the depth decoders read all rows in order; whatever the payload, what is handed on is well typed; when the scanners panic, wrap
    or reject.
  \<^item> \<open>Codec_Properties\<close>: the routing tables of a codec follow its registered topics, frames go to the topic registered
    for them.
  \<^item> \<open>Ws_Properties\<close>: messages round trip through masking, fragments and short buffers; reference counts are exact in every
    reachable state, so no frame is lost, leaked or recycled too early; the queue refines a bounded list; a message is
    delivered in boundedly many rounds; the manager's tables agree in every reachable state.
  \<^item> \<open>Ingest_Properties\<close>, \<open>Service_Properties\<close>: the tables of a group, its codec and its manager agree in every reachable
    state, and so do those of a connection; a frame that is written reaches the client whole; consumers end with their connection.
  \<^item> \<open>Pipeline_Properties\<close>: a book that the exchange sends to a reachable use case is what the client of the service decodes.
  \<^item> \<open>Order_Properties\<close>: no accepted order is lost or sent twice by the queue; what an exchange's answer comes to; the signature.
  \<^item> \<open>Support_Properties\<close>: sockets and files, the generator and its copyable types, no connection left open by a failed dial.
  Several of the theorems state what the code does where it does not do what it means to: a topic of the session
  that is not unsubscribed, a symbol entry two topics share, a service that never reads its connection.

  \<^bold>\<open>Bounds and fuel.\<close> Loops over text and lists recurse on what is left, or have a measure. Two loops have fuel.
  \<open>readLoop\<close> takes a number of rounds, and its delivery theorem gives a number that is enough: one round for each bucket
  between the current and the needed size, and one more. \<open>conn_loop\<close> takes rounds, and one is enough for each platform the
  service can be started with. Topic ids and session ids come from counters: the laws of the use case hold until the 32-bit
  counter wraps. Reference counters are integers, far from their 32-bit limit. A slice above \<open>max_alloc\<close> panics.

  \<^bold>\<open>Not modelled.\<close> The profiler that \<open>example/websocket\<close> has behind \<open>if false\<close>; the empty commands \<open>core\<close>, \<open>order\<close>, \<open>risk\<close>
  and \<open>wal\<close>; comment files and tests; the unused dummy payloads of
  \<open>bundle/cmd/ingest\<close> and the unused base URL of the order delegator; logging and metrics output beyond the text of the memory report. Not part of the
  repository, and therefore parameters: the Go runtime's scheduler and memory model (data races are outside: each critical
  section is atomic), network and file system, \<open>net/http\<close>, TLS, \<open>sonic\<close>, \<open>gorm\<close>, the package loader and formatter of the generator.
\<close>

end
